(* ===== verification/Prelude.thy ===== *)
theory Prelude
  imports Main "HOL-Library.Word"
begin

unbundle bit_operations_syntax

text \<open>
  Shared vocabulary of the development: the machine integers of the C sources, the result type of
  kernel code, the state monad in which kernel code is written, the judgement that relates its runs
  to abstract states, and the little-endian byte encodings of the on-disk and in-memory structures.
\<close>

section \<open>Machine integers\<close>

type_synonym u8 = "8 word"
type_synonym u16 = "16 word"
type_synonym u32 = "32 word"

lemma unat_add_of_nat:
  assumes "unat (w :: u32) + n < 2 ^ 32"
  shows "unat (w + of_nat n) = unat w + n"
  using assms by (simp add: unat_word_ariths unat_of_nat mod_add_right_eq)

section \<open>Outcomes of kernel code\<close>

text \<open>
  Kernel code runs on an explicit state and either returns or stops: in \<open>panic\<close> (which never
  returns), by switching to the scheduler (\<open>swtch\<close>, with the state at that moment), by spinning on a
  lock that another CPU holds, or in a memory access that C leaves undefined.
\<close>

datatype 's stop = Panic string | Switch 's | Spin | Fault string

type_synonym ('s, 'a) K = "'s \<Rightarrow> 's stop + ('a \<times> 's)"

definition kret :: "'a \<Rightarrow> ('s, 'a) K" where
  "kret x = (\<lambda>s. Inr (x, s))"

definition kbind :: "('s, 'a) K \<Rightarrow> ('a \<Rightarrow> ('s, 'b) K) \<Rightarrow> ('s, 'b) K" where
  "kbind m f = (\<lambda>s. case m s of Inl e \<Rightarrow> Inl e | Inr (x, t) \<Rightarrow> f x t)"

definition kseq :: "('s, 'a) K \<Rightarrow> ('s, 'b) K \<Rightarrow> ('s, 'b) K" where
  "kseq m n = kbind m (\<lambda>_. n)"

definition kget :: "('s \<Rightarrow> 'a) \<Rightarrow> ('s, 'a) K" where
  "kget f = (\<lambda>s. Inr (f s, s))"

definition kmod :: "('s \<Rightarrow> 's) \<Rightarrow> ('s, unit) K" where
  "kmod f = (\<lambda>s. Inr ((), f s))"

definition kstop :: "'s stop \<Rightarrow> ('s, 'a) K" where
  "kstop e = (\<lambda>s. Inl e)"

definition kwhen :: "bool \<Rightarrow> ('s, unit) K \<Rightarrow> ('s, unit) K" where
  "kwhen b m = (if b then m else kret ())"

primrec kfor :: "'i list \<Rightarrow> ('i \<Rightarrow> ('s, unit) K) \<Rightarrow> ('s, unit) K" where
  "kfor [] f = kret ()"
| "kfor (i # is) f = kseq (f i) (kfor is f)"

text \<open>\<open>panic\<close> prints and then loops for ever with interrupts off.\<close>

abbreviation panic :: "string \<Rightarrow> ('s, 'a) K" where
  "panic msg \<equiv> kstop (Panic msg)"

lemma kret_run [simp]: "kret x s = Inr (x, s)"
  by (simp add: kret_def)

lemma kget_run [simp]: "kget f s = Inr (f s, s)"
  by (simp add: kget_def)

lemma kmod_run [simp]: "kmod f s = Inr ((), f s)"
  by (simp add: kmod_def)

lemma kstop_run [simp]: "kstop e s = Inl e"
  by (simp add: kstop_def)

lemma kbind_Inr [simp]: "m s = Inr (x, t) \<Longrightarrow> kbind m f s = f x t"
  by (simp add: kbind_def)

lemma kbind_Inl [simp]: "m s = Inl e \<Longrightarrow> kbind m f s = Inl e"
  by (simp add: kbind_def)

lemma kseq_Inr [simp]: "m s = Inr (x, t) \<Longrightarrow> kseq m n s = n t"
  by (simp add: kseq_def)

lemma kseq_Inl [simp]: "m s = Inl e \<Longrightarrow> kseq m n s = Inl e"
  by (simp add: kseq_def)

lemma kwhen_True [simp]: "kwhen True m = m"
  by (simp add: kwhen_def)

lemma kwhen_False [simp]: "kwhen False m = kret ()"
  by (simp add: kwhen_def)

lemma kbind_kret [simp]: "kbind (kret x) f = f x"
  by (rule ext) simp

lemma kseq_kret [simp]: "kseq (kret x) m = m"
  by (rule ext) simp

lemma kbind_assoc: "kbind (kbind m f) g = kbind m (\<lambda>x. kbind (f x) g)"
  by (rule ext) (simp add: kbind_def split: sum.splits prod.splits)

lemma kbind_eq_InrE:
  assumes "kbind m f s = Inr (y, u)"
  obtains x t where "m s = Inr (x, t)" and "f x t = Inr (y, u)"
  using assms by (auto simp: kbind_def split: sum.splits prod.splits)

lemma kseq_eq_InrE:
  assumes "kseq m n s = Inr (y, u)"
  obtains x t where "m s = Inr (x, t)" and "n t = Inr (y, u)"
  using assms by (auto simp: kseq_def elim: kbind_eq_InrE)

lemma kbind_cong [fundef_cong]:
  assumes "m s = m' s'" and "s = s'" and "\<And>x t. m' s' = Inr (x, t) \<Longrightarrow> f x t = f' x t"
  shows "kbind m f s = kbind m' f' s'"
  using assms by (auto simp: kbind_def split: sum.splits prod.splits)

lemma kseq_cong [fundef_cong]:
  assumes "m s = m' s'" and "s = s'" and "\<And>x t. m' s' = Inr (x, t) \<Longrightarrow> n t = n' t"
  shows "kseq m n s = kseq m' n' s'"
  using assms by (auto simp: kseq_def intro!: kbind_cong)

section \<open>Running code against an abstract state\<close>

text \<open>
  \<open>kexec R s m Q\<close>: from every state that represents the abstract state \<open>s\<close> (in the sense of the
  relation \<open>R\<close>) the outcome of \<open>m\<close> satisfies \<open>Q\<close>. The relation hides what the code above a layer does
  not depend on: the lock and interrupt bookkeeping, the scheduling states of other processes, the
  controller registers. The usual outcome is \<open>returns x R' s'\<close>: the code returns \<open>x\<close> in a state that
  represents \<open>s'\<close>. Returning is part of what is stated, so these judgements are total.
\<close>

definition kexec :: "('a \<Rightarrow> 's \<Rightarrow> bool) \<Rightarrow> 'a \<Rightarrow> ('s, 'x) K \<Rightarrow> ('s stop + 'x \<times> 's \<Rightarrow> bool) \<Rightarrow> bool" where
  "kexec R s m Q \<longleftrightarrow> (\<forall>t. R s t \<longrightarrow> Q (m t))"

definition returns :: "'x \<Rightarrow> ('a \<Rightarrow> 's \<Rightarrow> bool) \<Rightarrow> 'a \<Rightarrow> 's stop + 'x \<times> 's \<Rightarrow> bool" where
  "returns x R s r \<longleftrightarrow> (\<exists>t. r = Inr (x, t) \<and> R s t)"

definition switches :: "('a \<Rightarrow> 's \<Rightarrow> bool) \<Rightarrow> 'a \<Rightarrow> 's stop + 'x \<times> 's \<Rightarrow> bool" where
  "switches R s r \<longleftrightarrow> (\<exists>t. r = Inl (Switch t) \<and> R s t)"

abbreviation krun :: "('a \<Rightarrow> 's \<Rightarrow> bool) \<Rightarrow> 'a \<Rightarrow> ('s, 'x) K \<Rightarrow> 'x \<Rightarrow> ('a \<Rightarrow> 's \<Rightarrow> bool) \<Rightarrow> 'a \<Rightarrow> bool" where
  "krun R s m x R' s' \<equiv> kexec R s m (returns x R' s')"

abbreviation kpanics :: "('a \<Rightarrow> 's \<Rightarrow> bool) \<Rightarrow> 'a \<Rightarrow> ('s, 'x) K \<Rightarrow> string \<Rightarrow> bool" where
  "kpanics R s m msg \<equiv> kexec R s m (\<lambda>r. r = Inl (Panic msg))"

named_theorems krule \<open>syntax-directed rules for running monadic code\<close>

lemma kexecI: "(\<And>t. R s t \<Longrightarrow> Q (m t)) \<Longrightarrow> kexec R s m Q"
  by (simp add: kexec_def)

lemma kexecD: "kexec R s m Q \<Longrightarrow> R s t \<Longrightarrow> Q (m t)"
  by (simp add: kexec_def)

lemma krunE:
  assumes "krun R s m x R' s'" and "R s t"
  obtains t' where "m t = Inr (x, t')" and "R' s' t'"
  using assms by (auto simp: kexec_def returns_def)

lemma krunI: "(\<And>t. R s t \<Longrightarrow> \<exists>t'. m t = Inr (x, t') \<and> R' s' t') \<Longrightarrow> krun R s m x R' s'"
  by (simp add: kexec_def returns_def)

lemma kexec_weaken:
  "kexec R' s' m Q' \<Longrightarrow> (\<And>t. R s t \<Longrightarrow> R' s' t) \<Longrightarrow> (\<And>r. Q' r \<Longrightarrow> Q r) \<Longrightarrow> kexec R s m Q"
  by (simp add: kexec_def)

lemma krun_cong: "krun R s m x R' s' \<Longrightarrow> x = y \<Longrightarrow> s' = s'' \<Longrightarrow> krun R s m y R' s''"
  by simp

lemma kexec_state: "kexec R s m Q \<Longrightarrow> s = s' \<Longrightarrow> kexec R s' m Q"
  by simp

lemma kexec_kret [krule]: "krun R s (kret x) x R s"
  by (simp add: kexec_def returns_def)

lemma kexec_kbind [krule]:
  assumes "krun R s m x R1 s1" and "kexec R1 s1 (f x) Q"
  shows "kexec R s (kbind m f) Q"
proof (rule kexecI)
  fix t assume "R s t"
  with assms(1) obtain t1 where "m t = Inr (x, t1)" "R1 s1 t1" by (rule krunE)
  with kexecD [OF assms(2)] show "Q (kbind m f t)" by simp
qed

lemma kexec_kseq [krule]: "krun R s m x R1 s1 \<Longrightarrow> kexec R1 s1 n Q \<Longrightarrow> kexec R s (kseq m n) Q"
  unfolding kseq_def by (rule kexec_kbind)

lemma kpanics_kbind: "kpanics R s m msg \<Longrightarrow> kpanics R s (kbind m f) msg"
  by (auto simp: kexec_def)

lemma kpanics_kseq: "kpanics R s m msg \<Longrightarrow> kpanics R s (kseq m n) msg"
  by (auto simp: kexec_def)

lemma kpanics_panic [krule]: "kpanics R s (panic msg) msg"
  by (simp add: kexec_def)

lemma kexec_kwhen_True: "b \<Longrightarrow> kexec R s m Q \<Longrightarrow> kexec R s (kwhen b m) Q"
  by simp

lemma kexec_kwhen_False: "\<not> b \<Longrightarrow> krun R s (kwhen b m) () R s"
  unfolding kwhen_def by (simp only: if_False kexec_kret)

lemma kexec_if:
  "(b \<Longrightarrow> kexec R s m Q) \<Longrightarrow> (\<not> b \<Longrightarrow> kexec R s n Q) \<Longrightarrow> kexec R s (if b then m else n) Q"
  by simp

lemma krun_kfor:
  assumes "\<And>k. k < length is \<Longrightarrow> krun R (S k) (f (is ! k)) () R (S (Suc k))"
  shows "krun R (S 0) (kfor is f) () R (S (length is))"
  using assms
proof (induction "is" arbitrary: S)
  case Nil
  show ?case unfolding kfor.simps list.size by (rule kexec_kret)
next
  case (Cons i "is")
  have "krun R (S 0) (f i) () R (S 1)" using Cons.prems [of 0] by simp
  moreover have "krun R (S (Suc 0)) (kfor is f) () R (S (Suc (length is)))"
    using Cons.IH [of "\<lambda>k. S (Suc k)"] Cons.prems [of "Suc k" for k] by simp
  ultimately show ?case by (auto intro: kexec_kseq)
qed

section \<open>Table scans\<close>

lemma nth_list_update_if: "xs[i := x] ! j = (if i = j \<and> j < length xs then x else xs ! j)"
  by (cases "i < length xs") (auto simp: nth_list_update list_update_beyond)

text \<open>
  The loop \<open>for(p = tab; p < &tab[N]; p++) if(cond) return p\<close>: the first index whose entry satisfies
  the condition.
\<close>

fun find_index :: "('a \<Rightarrow> bool) \<Rightarrow> 'a list \<Rightarrow> nat option" where
  "find_index P [] = None"
| "find_index P (x # xs) = (if P x then Some 0 else map_option Suc (find_index P xs))"

lemma find_index_None_iff: "find_index P xs = None \<longleftrightarrow> (\<forall>x \<in> set xs. \<not> P x)"
  by (induction xs) auto

lemma find_index_Some_iff:
  "find_index P xs = Some i \<longleftrightarrow> i < length xs \<and> P (xs ! i) \<and> (\<forall>j < i. \<not> P (xs ! j))"
proof (induction xs arbitrary: i)
  case (Cons x xs)
  then show ?case
    by (cases i) (auto simp: less_Suc_eq_0_disj nth_Cons split: nat.splits)
qed simp

lemma find_index_SomeD:
  assumes "find_index P xs = Some i"
  shows "i < length xs" and "P (xs ! i)" and "j < i \<Longrightarrow> \<not> P (xs ! j)"
  using assms by (auto simp: find_index_Some_iff)

lemma find_index_cong_nth:
  assumes "length xs = length ys" and "\<And>i. i < length xs \<Longrightarrow> P (xs ! i) = Q (ys ! i)"
  shows "find_index P xs = find_index Q ys"
  using assms
proof (induction xs ys rule: list_induct2)
  case (Cons x xs y ys)
  from Cons.prems [of 0] have "P x = Q y" by simp
  moreover have "find_index P xs = find_index Q ys"
    using Cons.prems [of "Suc i" for i] by (intro Cons.IH) auto
  ultimately show ?case by simp
qed simp

section \<open>Little-endian encodings\<close>

text \<open>
  The C sources view disk blocks and pages both as bytes and as arrays of \<open>ushort\<close> and \<open>uint\<close>; the
  target (x86) is little-endian.
\<close>

definition bytes16 :: "u16 \<Rightarrow> u8 list" where
  "bytes16 w = [ucast w, ucast (drop_bit 8 w)]"

definition bytes32 :: "u32 \<Rightarrow> u8 list" where
  "bytes32 w = [ucast w, ucast (drop_bit 8 w), ucast (drop_bit 16 w), ucast (drop_bit 24 w)]"

definition word16 :: "u8 \<Rightarrow> u8 \<Rightarrow> u16" where
  "word16 a b = ucast a OR push_bit 8 (ucast b)"

definition word32 :: "u8 \<Rightarrow> u8 \<Rightarrow> u8 \<Rightarrow> u8 \<Rightarrow> u32" where
  "word32 a b c d =
     ucast a OR push_bit 8 (ucast b) OR push_bit 16 (ucast c) OR push_bit 24 (ucast d)"

lemma length_bytes [simp]: "length (bytes16 v) = 2" "length (bytes32 w) = 4"
  by (simp_all add: bytes16_def bytes32_def)

lemma word16_bytes [simp]: "word16 (ucast w) (ucast (drop_bit 8 w)) = w"
  by (rule bit_word_eqI)
    (auto simp: word16_def bit_simps not_less intro!: arg_cong [where f = "bit w"])

lemma word32_bytes [simp]:
  "word32 (ucast w) (ucast (drop_bit 8 w)) (ucast (drop_bit 16 w)) (ucast (drop_bit 24 w)) = w"
proof (rule bit_word_eqI)
  fix n assume "n < LENGTH(32)"
  then have "n < 32" by simp
  then consider "n < 8" | "8 \<le> n" "n < 16" | "16 \<le> n" "n < 24" | "24 \<le> n" "n < 32" by linarith
  then show "bit (word32 (ucast w) (ucast (drop_bit 8 w)) (ucast (drop_bit 16 w))
      (ucast (drop_bit 24 w))) n \<longleftrightarrow> bit w n"
    by cases (auto simp: word32_def bit_simps)
qed

lemma word32_parts [simp]:
  "ucast (word32 a b c d) = a" "ucast (drop_bit 8 (word32 a b c d)) = b"
  "ucast (drop_bit 16 (word32 a b c d)) = c" "ucast (drop_bit 24 (word32 a b c d)) = d"
  by (rule bit_word_eqI; auto simp: word32_def bit_simps dest: bit_imp_le_length)+

lemma word32_inject [simp]:
  "word32 a b c d = word32 a' b' c' d' \<longleftrightarrow> a = a' \<and> b = b' \<and> c = c' \<and> d = d'"
proof
  assume "word32 a b c d = word32 a' b' c' d'"
  then show "a = a' \<and> b = b' \<and> c = c' \<and> d = d'" by (metis word32_parts)
qed simp

subsection \<open>Reading and writing inside a byte array\<close>

definition get16 :: "u8 list \<Rightarrow> nat \<Rightarrow> u16" where
  "get16 d i = word16 (d ! i) (d ! (i + 1))"

definition get32 :: "u8 list \<Rightarrow> nat \<Rightarrow> u32" where
  "get32 d i = word32 (d ! i) (d ! (i + 1)) (d ! (i + 2)) (d ! (i + 3))"

definition patch :: "u8 list \<Rightarrow> nat \<Rightarrow> u8 list \<Rightarrow> u8 list" where
  "patch d i xs = take i d @ xs @ drop (i + length xs) d"

definition put16 :: "u8 list \<Rightarrow> nat \<Rightarrow> u16 \<Rightarrow> u8 list" where
  "put16 d i w = patch d i (bytes16 w)"

definition put32 :: "u8 list \<Rightarrow> nat \<Rightarrow> u32 \<Rightarrow> u8 list" where
  "put32 d i w = patch d i (bytes32 w)"

lemma length_patch [simp]: "i + length xs \<le> length d \<Longrightarrow> length (patch d i xs) = length d"
  by (simp add: patch_def)

lemma nth_patch:
  assumes "i + length xs \<le> length d" and "j < length d"
  shows "patch d i xs ! j = (if i \<le> j \<and> j < i + length xs then xs ! (j - i) else d ! j)"
  using assms by (auto simp: patch_def nth_append)

lemma patch_self:
  assumes "i + n \<le> length d"
  shows "patch d i (take n (drop i d)) = d"
  by (rule nth_equalityI) (use assms in \<open>auto simp: nth_patch\<close>)

lemma take_drop_patch [simp]:
  "i + length xs \<le> length d \<Longrightarrow> take (length xs) (drop i (patch d i xs)) = xs"
  by (simp add: patch_def)

lemma get16_put16 [simp]: "i + 2 \<le> length d \<Longrightarrow> get16 (put16 d i w) i = w"
  by (simp add: get16_def put16_def nth_patch) (simp add: bytes16_def)

lemma get32_put32 [simp]: "i + 4 \<le> length d \<Longrightarrow> get32 (put32 d i w) i = w"
  by (simp add: get32_def put32_def nth_patch) (simp add: bytes32_def numeral_2_eq_2 numeral_3_eq_3)

lemma length_put [simp]:
  "i + 2 \<le> length d \<Longrightarrow> length (put16 d i v) = length d"
  "i + 4 \<le> length d \<Longrightarrow> length (put32 d i w) = length d"
  by (simp_all add: put16_def put32_def)

lemma get32_put32_other:
  "i + 4 \<le> length d \<Longrightarrow> j + 4 \<le> length d \<Longrightarrow> j + 4 \<le> i \<or> i + 4 \<le> j \<Longrightarrow>
    get32 (put32 d i w) j = get32 d j"
  by (auto simp: get32_def put32_def nth_patch)

end
