(* ===== verification/Kstate.thy ===== *)
theory Kstate
  imports Prelude
begin

text \<open>
  The data of the kernel: the constants of \<open>param.h\<close> and \<open>fs.h\<close>, the structures of \<open>spinlock.h\<close>,
  \<open>sleeplock.h\<close>, \<open>buf.h\<close>, \<open>file.h\<close>, \<open>fs.h\<close> and \<open>proc.h\<close> as records with the source's fields, and the
  record \<open>kstate\<close> of all global variables. A pointer into a statically allocated table (\<open>bcache.buf\<close>,
  \<open>icache.inode\<close>, \<open>ftable.file\<close>, \<open>ptable.proc\<close>) is the index into the list that models the table; a
  pointer that may be null is an \<open>option\<close>.
\<close>

section \<open>Constants\<close>

definition NPROC :: nat where "NPROC = 64"
definition KSTACKSIZE :: u32 where "KSTACKSIZE = 4096"
definition NCPU :: nat where "NCPU = 8"
definition NOFILE :: nat where "NOFILE = 16"
definition NFILE :: nat where "NFILE = 100"
definition NINODE :: nat where "NINODE = 50"
definition NDEV :: nat where "NDEV = 10"
definition ROOTDEV :: u32 where "ROOTDEV = 1"
definition MAXARG :: nat where "MAXARG = 32"
definition MAXOPBLOCKS :: nat where "MAXOPBLOCKS = 10"
definition LOGSIZE :: nat where "LOGSIZE = MAXOPBLOCKS * 3"
definition NBUF :: nat where "NBUF = MAXOPBLOCKS * 3"
definition FSSIZE :: nat where "FSSIZE = 100000"
definition SWAPBASE :: nat where "SWAPBASE = 500"
definition SWAPMAX :: nat where "SWAPMAX = 100000 - SWAPBASE"

definition ROOTINO :: u32 where "ROOTINO = 1"
definition BSIZE :: nat where "BSIZE = 512"
definition NDIRECT :: nat where "NDIRECT = 12"
definition NINDIRECT :: nat where "NINDIRECT = BSIZE div 4"
definition MAXFILE :: nat where "MAXFILE = NDIRECT + NINDIRECT"
definition DINODE_SIZE :: nat where "DINODE_SIZE = 64"
definition IPB :: nat where "IPB = BSIZE div DINODE_SIZE"
definition BPB :: nat where "BPB = BSIZE * 8"
definition DIRSIZ :: nat where "DIRSIZ = 14"
definition DIRENT_SIZE :: nat where "DIRENT_SIZE = 2 + DIRSIZ"

definition T_DIR :: u16 where "T_DIR = 1"
definition T_FILE :: u16 where "T_FILE = 2"
definition T_DEV :: u16 where "T_DEV = 3"

definition B_VALID :: u32 where "B_VALID = 0x2"
definition B_DIRTY :: u32 where "B_DIRTY = 0x4"

definition PGSIZE :: u32 where "PGSIZE = 4096"

definition EXTMEM :: u32 where "EXTMEM = 0x100000"
definition PHYSTOP :: u32 where "PHYSTOP = 0xE000000"
definition DEVSPACE :: u32 where "DEVSPACE = 0xFE000000"
definition KERNBASE :: u32 where "KERNBASE = 0x80000000"
definition KERNLINK :: u32 where "KERNLINK = KERNBASE + EXTMEM"

definition V2P :: "u32 \<Rightarrow> u32" where "V2P a = a - KERNBASE"
definition P2V :: "u32 \<Rightarrow> u32" where "P2V a = a + KERNBASE"

section \<open>Locks and sleep channels\<close>

text \<open>
  Every \<open>struct spinlock\<close> of the kernel has a name here; those that live inside a sleep-lock or a
  pipe are named by the object that holds them. A sleep channel is the address passed to \<open>sleep\<close>
  and \<open>wakeup\<close>.
\<close>

datatype slid = SLBuf nat | SLInode nat

datatype lockid =
    LKmem | LPtable | LBcache | LLog | LIcache | LFtable | LIde | LTicks | LCons
  | LPipe u32 | LSleep slid

datatype chan =
    ChSleep slid | ChBuf nat | ChLog | ChProc nat | ChTicks | ChInput
  | ChPipeRead u32 | ChPipeWrite u32

record spinlock =
  lk_locked :: bool
  lk_name :: string
  lk_cpu :: "nat option"

record sleeplock =
  sl_locked :: bool
  sl_name :: string
  sl_pid :: int

section \<open>CPUs\<close>

record cpu =
  apicid :: u8
  ncli :: int
  intena :: bool
  cpu_proc :: "nat option"
  cpu_esp0 :: u32
  cpu_cr3 :: u32

text \<open>
  \<open>lapicid\<close> is what the local APIC of the executing CPU reports, \<open>ifl\<close> its interrupt flag
  (\<open>FL_IF\<close> of \<open>eflags\<close>).
\<close>

record hwstate =
  cpus :: "cpu list"
  lapicid :: u8
  ifl :: bool
  locks :: "lockid \<Rightarrow> spinlock"

section \<open>Processes\<close>

datatype procstate = UNUSED | EMBRYO | SLEEPING | RUNNABLE | RUNNING | ZOMBIE

record trapframe =
  tf_edi :: u32
  tf_esi :: u32
  tf_ebp :: u32
  tf_oesp :: u32
  tf_ebx :: u32
  tf_edx :: u32
  tf_ecx :: u32
  tf_eax :: u32
  tf_gs :: u16
  tf_fs :: u16
  tf_es :: u16
  tf_ds :: u16
  tf_trapno :: u32
  tf_err :: u32
  tf_eip :: u32
  tf_cs :: u16
  tf_eflags :: u32
  tf_esp :: u32
  tf_ss :: u16

record kcontext =
  c_edi :: u32
  c_esi :: u32
  c_ebx :: u32
  c_ebp :: u32
  c_eip :: u32

record proc =
  p_sz :: u32
  p_pgdir :: u32
  p_kstack :: u32
  p_state :: procstate
  p_pid :: int
  p_parent :: "nat option"
  p_tf :: trapframe
  p_context :: kcontext
  p_chan :: "chan option"
  p_killed :: bool
  p_ofile :: "nat option list"
  p_cwd :: "nat option"
  p_name :: string

record ptable =
  procs :: "proc list"
  nextpid :: int
  initproc :: "nat option"

section \<open>Disk, buffers and log\<close>

type_synonym block = "u8 list"

record buf =
  b_flags :: u32
  b_dev :: u32
  b_blockno :: u32
  b_lock :: sleeplock
  b_refcnt :: u32
  b_prev :: nat
  b_next :: nat
  b_data :: block

text \<open>
  \<open>idequeue\<close> is the list of buffers threaded through \<open>qnext\<close>. The other fields are the controller:
  its status register (by selected drive), the sector address registers last written (ports \<open>0x1f3\<close> to \<open>0x1f6\<close>), and
  the contents of the two disks, by drive number and sector. \<open>ide_trace\<close> records the sectors written
  so far, in order: with it a power failure between two writes can be expressed. \<open>disksize\<close> is the
  variable of the memory-disk driver \<open>memide.c\<close>.
\<close>

record idestate =
  idequeue :: "nat list"
  havedisk1 :: bool
  ide_status :: "u32 \<Rightarrow> u8"
  ide_lba0 :: u8
  ide_lba1 :: u8
  ide_lba2 :: u8
  ide_drive :: u8
  disks :: "u32 \<Rightarrow> u32 \<Rightarrow> block"
  ide_trace :: "(u32 \<times> u32 \<times> block) list"
  disksize :: u32

record logheader =
  lh_n :: int
  lh_block :: "u32 list"

record logstate =
  lg_start :: u32
  lg_size :: int
  lg_outstanding :: int
  lg_committing :: bool
  lg_dev :: u32
  lg_lh :: logheader

section \<open>File system\<close>

record superblock =
  sb_size :: u32
  sb_nblocks :: u32
  sb_ninodes :: u32
  sb_nlog :: u32
  sb_logstart :: u32
  sb_inodestart :: u32
  sb_bmapstart :: u32

record dinode =
  d_type :: u16
  d_major :: u16
  d_minor :: u16
  d_nlink :: u16
  d_size :: u32
  d_addrs :: "u32 list"

record inode =
  i_dev :: u32
  i_inum :: u32
  i_ref :: int
  i_lock :: sleeplock
  i_valid :: bool
  i_type :: u16
  i_major :: u16
  i_minor :: u16
  i_nlink :: u16
  i_size :: u32
  i_addrs :: "u32 list"

datatype fdtype = FD_NONE | FD_PIPE | FD_INODE

record xfile =
  f_type :: fdtype
  f_ref :: int
  f_readable :: bool
  f_writable :: bool
  f_pipe :: u32
  f_ip :: "nat option"
  f_off :: u32

record pipe =
  pi_data :: "u8 list"
  pi_nread :: u32
  pi_nwrite :: u32
  pi_readopen :: bool
  pi_writeopen :: bool

record stat =
  st_type :: u16
  st_dev :: u32
  st_ino :: u32
  st_nlink :: u16
  st_size :: u32

section \<open>Memory\<close>

text \<open>
  \<open>struct page\<close> of \<open>mmu.h\<close>: a node of the ring of resident user pages. \<open>km_end\<close>, \<open>km_data\<close>, \<open>km_forkret\<close> and
  \<open>km_trapret\<close> are the addresses that the linker gives to \<open>end\<close>, \<open>data\<close>, \<open>forkret\<close> and \<open>trapret\<close>.
\<close>

record page =
  pg_next :: "nat option"
  pg_prev :: "nat option"
  pg_pgdir :: u32
  pg_vaddr :: u32

record kmemstate =
  km_use_lock :: bool
  km_freelist :: u32
  km_kpgdir :: u32
  km_pages :: "nat \<Rightarrow> page"
  km_lru_head :: "nat option"
  km_num_lru :: int
  km_swapbitmap :: "nat \<Rightarrow> u32"
  km_end :: u32
  km_data :: u32
  km_forkret :: u32
  km_trapret :: u32

section \<open>Console\<close>

text \<open>
  \<open>in_buf\<close>, \<open>in_r\<close>, \<open>in_w\<close> and \<open>in_e\<close> are the fields of the variable \<open>input\<close>; \<open>crt\<close> is the text memory
  of the display, \<open>crt_pos\<close> its cursor register, \<open>uart_out\<close> what has been sent to the serial port.
\<close>

record consstate =
  in_buf :: "u8 list"
  in_r :: u32
  in_w :: u32
  in_e :: u32
  cons_locking :: bool
  crt :: "nat \<Rightarrow> u16"
  crt_pos :: int
  uart :: bool
  uart_out :: "u8 list"

text \<open>The device switch table holds the functions of one driver only, the console's.\<close>

datatype devfn = ConsoleDev

section \<open>The kernel state\<close>

record kstate =
  hw :: hwstate
  pt :: ptable
  ide :: idestate
  bufs :: "buf list"
  log :: logstate
  sb :: superblock
  inodes :: "inode list"
  files :: "xfile list"
  pipes :: "u32 \<Rightarrow> pipe"
  kmem :: kmemstate
  mem :: "u32 \<Rightarrow> u8"
  ticks :: u32
  nr_sectors_read :: int
  nr_sectors_write :: int
  cons :: consstate
  devsw :: "nat \<Rightarrow> devfn option"

type_synonym 'a kern = "(kstate, 'a) K"

text \<open>The sleep-lock with a given name.\<close>

fun sleeplock_of :: "kstate \<Rightarrow> slid \<Rightarrow> sleeplock" where
  "sleeplock_of s (SLBuf i) = b_lock (bufs s ! i)"
| "sleeplock_of s (SLInode i) = i_lock (inodes s ! i)"

fun set_sleeplock :: "slid \<Rightarrow> sleeplock \<Rightarrow> kstate \<Rightarrow> kstate" where
  "set_sleeplock (SLBuf i) l s = s\<lparr>bufs := (bufs s)[i := (bufs s ! i)\<lparr>b_lock := l\<rparr>]\<rparr>"
| "set_sleeplock (SLInode i) l s = s\<lparr>inodes := (inodes s)[i := (inodes s ! i)\<lparr>i_lock := l\<rparr>]\<rparr>"

fun slid_in_range :: "kstate \<Rightarrow> slid \<Rightarrow> bool" where
  "slid_in_range s (SLBuf i) \<longleftrightarrow> i < length (bufs s)"
| "slid_in_range s (SLInode i) \<longleftrightarrow> i < length (inodes s)"

text \<open>Field updates of a table entry.\<close>

definition upd_buf :: "nat \<Rightarrow> (buf \<Rightarrow> buf) \<Rightarrow> kstate \<Rightarrow> kstate" where
  "upd_buf i f s = s\<lparr>bufs := (bufs s)[i := f (bufs s ! i)]\<rparr>"

definition upd_inode :: "nat \<Rightarrow> (inode \<Rightarrow> inode) \<Rightarrow> kstate \<Rightarrow> kstate" where
  "upd_inode i f s = s\<lparr>inodes := (inodes s)[i := f (inodes s ! i)]\<rparr>"

definition upd_file :: "nat \<Rightarrow> (xfile \<Rightarrow> xfile) \<Rightarrow> kstate \<Rightarrow> kstate" where
  "upd_file i f s = s\<lparr>files := (files s)[i := f (files s ! i)]\<rparr>"

definition upd_proc :: "nat \<Rightarrow> (proc \<Rightarrow> proc) \<Rightarrow> kstate \<Rightarrow> kstate" where
  "upd_proc i f s = s\<lparr>pt := (pt s)\<lparr>procs := (procs (pt s))[i := f (procs (pt s) ! i)]\<rparr>\<rparr>"

abbreviation proc_at :: "kstate \<Rightarrow> nat \<Rightarrow> proc" where
  "proc_at s p \<equiv> procs (pt s) ! p"

section \<open>The zeroed kernel\<close>

text \<open>
  The globals as the loader leaves them (all zero), with the CPU of the boot and one process entered
  in the tables: the state on which the examples of this development run.
\<close>

definition zero_lock :: spinlock where
  "zero_lock = \<lparr>lk_locked = False, lk_name = [], lk_cpu = None\<rparr>"

definition zero_sleeplock :: sleeplock where
  "zero_sleeplock = \<lparr>sl_locked = False, sl_name = [], sl_pid = 0\<rparr>"

definition zero_tf :: trapframe where
  "zero_tf = \<lparr>tf_edi = 0, tf_esi = 0, tf_ebp = 0, tf_oesp = 0, tf_ebx = 0, tf_edx = 0, tf_ecx = 0,
     tf_eax = 0, tf_gs = 0, tf_fs = 0, tf_es = 0, tf_ds = 0, tf_trapno = 0, tf_err = 0, tf_eip = 0,
     tf_cs = 0, tf_eflags = 0, tf_esp = 0, tf_ss = 0\<rparr>"

definition zero_context :: kcontext where
  "zero_context = \<lparr>c_edi = 0, c_esi = 0, c_ebx = 0, c_ebp = 0, c_eip = 0\<rparr>"

definition zero_proc :: proc where
  "zero_proc = \<lparr>p_sz = 0, p_pgdir = 0, p_kstack = 0, p_state = UNUSED, p_pid = 0, p_parent = None,
     p_tf = zero_tf, p_context = zero_context, p_chan = None, p_killed = False,
     p_ofile = replicate NOFILE None, p_cwd = None, p_name = []\<rparr>"

definition zero_block :: block where
  "zero_block = replicate BSIZE 0"

definition zero_buf :: buf where
  "zero_buf = \<lparr>b_flags = 0, b_dev = 0, b_blockno = 0, b_lock = zero_sleeplock, b_refcnt = 0,
     b_prev = 0, b_next = 0, b_data = zero_block\<rparr>"

definition zero_inode :: inode where
  "zero_inode = \<lparr>i_dev = 0, i_inum = 0, i_ref = 0, i_lock = zero_sleeplock, i_valid = False,
     i_type = 0, i_major = 0, i_minor = 0, i_nlink = 0, i_size = 0, i_addrs = replicate (NDIRECT + 1) 0\<rparr>"

definition zero_file :: xfile where
  "zero_file = \<lparr>f_type = FD_NONE, f_ref = 0, f_readable = False, f_writable = False, f_pipe = 0,
     f_ip = None, f_off = 0\<rparr>"

definition zero_pipe :: pipe where
  "zero_pipe = \<lparr>pi_data = replicate 512 0, pi_nread = 0, pi_nwrite = 0, pi_readopen = False,
     pi_writeopen = False\<rparr>"

definition first_cpu :: "nat option \<Rightarrow> cpu" where
  "first_cpu po = \<lparr>apicid = 0, ncli = 0, intena = False, cpu_proc = po, cpu_esp0 = 0, cpu_cr3 = 0\<rparr>"

definition first_proc :: proc where
  "first_proc = zero_proc\<lparr>p_pid := 1, p_state := RUNNING, p_kstack := 0x80400000, p_pgdir := 0x80401000\<rparr>"

definition zero_hw :: hwstate where
  "zero_hw = \<lparr>cpus = [first_cpu (Some 0)], lapicid = 0, ifl = True, locks = (\<lambda>_. zero_lock)\<rparr>"

definition zero_ide :: idestate where
  "zero_ide = \<lparr>idequeue = [], havedisk1 = True, ide_status = (\<lambda>_. 0x40), ide_lba0 = 0, ide_lba1 = 0,
     ide_lba2 = 0, ide_drive = 0, disks = (\<lambda>_ _. zero_block), ide_trace = [], disksize = 0\<rparr>"

definition zero_kernel :: kstate where
  "zero_kernel = \<lparr>hw = zero_hw,
     pt = \<lparr>procs = first_proc # replicate (NPROC - 1) zero_proc, nextpid = 2, initproc = Some 0\<rparr>,
     ide = zero_ide,
     bufs = replicate (Suc NBUF) zero_buf,
     log = \<lparr>lg_start = 0, lg_size = 0, lg_outstanding = 0, lg_committing = False, lg_dev = 0,
       lg_lh = \<lparr>lh_n = 0, lh_block = replicate LOGSIZE 0\<rparr>\<rparr>,
     sb = \<lparr>sb_size = 0, sb_nblocks = 0, sb_ninodes = 0, sb_nlog = 0, sb_logstart = 0,
       sb_inodestart = 0, sb_bmapstart = 0\<rparr>,
     inodes = replicate NINODE zero_inode,
     files = replicate NFILE zero_file,
     pipes = (\<lambda>_. zero_pipe),
     kmem = \<lparr>km_use_lock = False, km_freelist = 0, km_kpgdir = 0, km_pages = (\<lambda>_. \<lparr>pg_next = None,
       pg_prev = None, pg_pgdir = 0, pg_vaddr = 0\<rparr>), km_lru_head = None, km_num_lru = 0,
       km_swapbitmap = (\<lambda>_. 0), km_end = 0x80115000, km_data = 0x80109000,
       km_forkret = 0x80103a00, km_trapret = 0x80105c00\<rparr>,
     mem = (\<lambda>_. 0), ticks = 0, nr_sectors_read = 0, nr_sectors_write = 0,
     cons = \<lparr>in_buf = replicate 128 0, in_r = 0, in_w = 0, in_e = 0, cons_locking = False,
       crt = (\<lambda>_. 0), crt_pos = 0, uart = False, uart_out = []\<rparr>,
     devsw = (\<lambda>_. None)\<rparr>"

section \<open>Normal form of state updates\<close>

text \<open>Updates of different fields commute; the simplifier sorts them in the order of the fields.\<close>

lemma kstate_update_sort [simp]:
  fixes s :: kstate
  shows
  "hw_update f0 (pt_update f1 s) = pt_update f1 (hw_update f0 s)"
  "hw_update f0 (ide_update f2 s) = ide_update f2 (hw_update f0 s)"
  "hw_update f0 (bufs_update f3 s) = bufs_update f3 (hw_update f0 s)"
  "hw_update f0 (log_update f4 s) = log_update f4 (hw_update f0 s)"
  "hw_update f0 (sb_update f5 s) = sb_update f5 (hw_update f0 s)"
  "hw_update f0 (inodes_update f6 s) = inodes_update f6 (hw_update f0 s)"
  "hw_update f0 (files_update f7 s) = files_update f7 (hw_update f0 s)"
  "hw_update f0 (pipes_update f8 s) = pipes_update f8 (hw_update f0 s)"
  "hw_update f0 (kmem_update f9 s) = kmem_update f9 (hw_update f0 s)"
  "hw_update f0 (mem_update f10 s) = mem_update f10 (hw_update f0 s)"
  "hw_update f0 (ticks_update f11 s) = ticks_update f11 (hw_update f0 s)"
  "hw_update f0 (nr_sectors_read_update f12 s) = nr_sectors_read_update f12 (hw_update f0 s)"
  "hw_update f0 (nr_sectors_write_update f13 s) = nr_sectors_write_update f13 (hw_update f0 s)"
  "hw_update f0 (cons_update f14 s) = cons_update f14 (hw_update f0 s)"
  "hw_update f0 (devsw_update f15 s) = devsw_update f15 (hw_update f0 s)"
  "pt_update f1 (ide_update f2 s) = ide_update f2 (pt_update f1 s)"
  "pt_update f1 (bufs_update f3 s) = bufs_update f3 (pt_update f1 s)"
  "pt_update f1 (log_update f4 s) = log_update f4 (pt_update f1 s)"
  "pt_update f1 (sb_update f5 s) = sb_update f5 (pt_update f1 s)"
  "pt_update f1 (inodes_update f6 s) = inodes_update f6 (pt_update f1 s)"
  "pt_update f1 (files_update f7 s) = files_update f7 (pt_update f1 s)"
  "pt_update f1 (pipes_update f8 s) = pipes_update f8 (pt_update f1 s)"
  "pt_update f1 (kmem_update f9 s) = kmem_update f9 (pt_update f1 s)"
  "pt_update f1 (mem_update f10 s) = mem_update f10 (pt_update f1 s)"
  "pt_update f1 (ticks_update f11 s) = ticks_update f11 (pt_update f1 s)"
  "pt_update f1 (nr_sectors_read_update f12 s) = nr_sectors_read_update f12 (pt_update f1 s)"
  "pt_update f1 (nr_sectors_write_update f13 s) = nr_sectors_write_update f13 (pt_update f1 s)"
  "pt_update f1 (cons_update f14 s) = cons_update f14 (pt_update f1 s)"
  "pt_update f1 (devsw_update f15 s) = devsw_update f15 (pt_update f1 s)"
  "ide_update f2 (bufs_update f3 s) = bufs_update f3 (ide_update f2 s)"
  "ide_update f2 (log_update f4 s) = log_update f4 (ide_update f2 s)"
  "ide_update f2 (sb_update f5 s) = sb_update f5 (ide_update f2 s)"
  "ide_update f2 (inodes_update f6 s) = inodes_update f6 (ide_update f2 s)"
  "ide_update f2 (files_update f7 s) = files_update f7 (ide_update f2 s)"
  "ide_update f2 (pipes_update f8 s) = pipes_update f8 (ide_update f2 s)"
  "ide_update f2 (kmem_update f9 s) = kmem_update f9 (ide_update f2 s)"
  "ide_update f2 (mem_update f10 s) = mem_update f10 (ide_update f2 s)"
  "ide_update f2 (ticks_update f11 s) = ticks_update f11 (ide_update f2 s)"
  "ide_update f2 (nr_sectors_read_update f12 s) = nr_sectors_read_update f12 (ide_update f2 s)"
  "ide_update f2 (nr_sectors_write_update f13 s) = nr_sectors_write_update f13 (ide_update f2 s)"
  "ide_update f2 (cons_update f14 s) = cons_update f14 (ide_update f2 s)"
  "ide_update f2 (devsw_update f15 s) = devsw_update f15 (ide_update f2 s)"
  "bufs_update f3 (log_update f4 s) = log_update f4 (bufs_update f3 s)"
  "bufs_update f3 (sb_update f5 s) = sb_update f5 (bufs_update f3 s)"
  "bufs_update f3 (inodes_update f6 s) = inodes_update f6 (bufs_update f3 s)"
  "bufs_update f3 (files_update f7 s) = files_update f7 (bufs_update f3 s)"
  "bufs_update f3 (pipes_update f8 s) = pipes_update f8 (bufs_update f3 s)"
  "bufs_update f3 (kmem_update f9 s) = kmem_update f9 (bufs_update f3 s)"
  "bufs_update f3 (mem_update f10 s) = mem_update f10 (bufs_update f3 s)"
  "bufs_update f3 (ticks_update f11 s) = ticks_update f11 (bufs_update f3 s)"
  "bufs_update f3 (nr_sectors_read_update f12 s) = nr_sectors_read_update f12 (bufs_update f3 s)"
  "bufs_update f3 (nr_sectors_write_update f13 s) = nr_sectors_write_update f13 (bufs_update f3 s)"
  "bufs_update f3 (cons_update f14 s) = cons_update f14 (bufs_update f3 s)"
  "bufs_update f3 (devsw_update f15 s) = devsw_update f15 (bufs_update f3 s)"
  "log_update f4 (sb_update f5 s) = sb_update f5 (log_update f4 s)"
  "log_update f4 (inodes_update f6 s) = inodes_update f6 (log_update f4 s)"
  "log_update f4 (files_update f7 s) = files_update f7 (log_update f4 s)"
  "log_update f4 (pipes_update f8 s) = pipes_update f8 (log_update f4 s)"
  "log_update f4 (kmem_update f9 s) = kmem_update f9 (log_update f4 s)"
  "log_update f4 (mem_update f10 s) = mem_update f10 (log_update f4 s)"
  "log_update f4 (ticks_update f11 s) = ticks_update f11 (log_update f4 s)"
  "log_update f4 (nr_sectors_read_update f12 s) = nr_sectors_read_update f12 (log_update f4 s)"
  "log_update f4 (nr_sectors_write_update f13 s) = nr_sectors_write_update f13 (log_update f4 s)"
  "log_update f4 (cons_update f14 s) = cons_update f14 (log_update f4 s)"
  "log_update f4 (devsw_update f15 s) = devsw_update f15 (log_update f4 s)"
  "sb_update f5 (inodes_update f6 s) = inodes_update f6 (sb_update f5 s)"
  "sb_update f5 (files_update f7 s) = files_update f7 (sb_update f5 s)"
  "sb_update f5 (pipes_update f8 s) = pipes_update f8 (sb_update f5 s)"
  "sb_update f5 (kmem_update f9 s) = kmem_update f9 (sb_update f5 s)"
  "sb_update f5 (mem_update f10 s) = mem_update f10 (sb_update f5 s)"
  "sb_update f5 (ticks_update f11 s) = ticks_update f11 (sb_update f5 s)"
  "sb_update f5 (nr_sectors_read_update f12 s) = nr_sectors_read_update f12 (sb_update f5 s)"
  "sb_update f5 (nr_sectors_write_update f13 s) = nr_sectors_write_update f13 (sb_update f5 s)"
  "sb_update f5 (cons_update f14 s) = cons_update f14 (sb_update f5 s)"
  "sb_update f5 (devsw_update f15 s) = devsw_update f15 (sb_update f5 s)"
  "inodes_update f6 (files_update f7 s) = files_update f7 (inodes_update f6 s)"
  "inodes_update f6 (pipes_update f8 s) = pipes_update f8 (inodes_update f6 s)"
  "inodes_update f6 (kmem_update f9 s) = kmem_update f9 (inodes_update f6 s)"
  "inodes_update f6 (mem_update f10 s) = mem_update f10 (inodes_update f6 s)"
  "inodes_update f6 (ticks_update f11 s) = ticks_update f11 (inodes_update f6 s)"
  "inodes_update f6 (nr_sectors_read_update f12 s) = nr_sectors_read_update f12 (inodes_update f6 s)"
  "inodes_update f6 (nr_sectors_write_update f13 s) = nr_sectors_write_update f13 (inodes_update f6 s)"
  "inodes_update f6 (cons_update f14 s) = cons_update f14 (inodes_update f6 s)"
  "inodes_update f6 (devsw_update f15 s) = devsw_update f15 (inodes_update f6 s)"
  "files_update f7 (pipes_update f8 s) = pipes_update f8 (files_update f7 s)"
  "files_update f7 (kmem_update f9 s) = kmem_update f9 (files_update f7 s)"
  "files_update f7 (mem_update f10 s) = mem_update f10 (files_update f7 s)"
  "files_update f7 (ticks_update f11 s) = ticks_update f11 (files_update f7 s)"
  "files_update f7 (nr_sectors_read_update f12 s) = nr_sectors_read_update f12 (files_update f7 s)"
  "files_update f7 (nr_sectors_write_update f13 s) = nr_sectors_write_update f13 (files_update f7 s)"
  "files_update f7 (cons_update f14 s) = cons_update f14 (files_update f7 s)"
  "files_update f7 (devsw_update f15 s) = devsw_update f15 (files_update f7 s)"
  "pipes_update f8 (kmem_update f9 s) = kmem_update f9 (pipes_update f8 s)"
  "pipes_update f8 (mem_update f10 s) = mem_update f10 (pipes_update f8 s)"
  "pipes_update f8 (ticks_update f11 s) = ticks_update f11 (pipes_update f8 s)"
  "pipes_update f8 (nr_sectors_read_update f12 s) = nr_sectors_read_update f12 (pipes_update f8 s)"
  "pipes_update f8 (nr_sectors_write_update f13 s) = nr_sectors_write_update f13 (pipes_update f8 s)"
  "pipes_update f8 (cons_update f14 s) = cons_update f14 (pipes_update f8 s)"
  "pipes_update f8 (devsw_update f15 s) = devsw_update f15 (pipes_update f8 s)"
  "kmem_update f9 (mem_update f10 s) = mem_update f10 (kmem_update f9 s)"
  "kmem_update f9 (ticks_update f11 s) = ticks_update f11 (kmem_update f9 s)"
  "kmem_update f9 (nr_sectors_read_update f12 s) = nr_sectors_read_update f12 (kmem_update f9 s)"
  "kmem_update f9 (nr_sectors_write_update f13 s) = nr_sectors_write_update f13 (kmem_update f9 s)"
  "kmem_update f9 (cons_update f14 s) = cons_update f14 (kmem_update f9 s)"
  "kmem_update f9 (devsw_update f15 s) = devsw_update f15 (kmem_update f9 s)"
  "mem_update f10 (ticks_update f11 s) = ticks_update f11 (mem_update f10 s)"
  "mem_update f10 (nr_sectors_read_update f12 s) = nr_sectors_read_update f12 (mem_update f10 s)"
  "mem_update f10 (nr_sectors_write_update f13 s) = nr_sectors_write_update f13 (mem_update f10 s)"
  "mem_update f10 (cons_update f14 s) = cons_update f14 (mem_update f10 s)"
  "mem_update f10 (devsw_update f15 s) = devsw_update f15 (mem_update f10 s)"
  "ticks_update f11 (nr_sectors_read_update f12 s) = nr_sectors_read_update f12 (ticks_update f11 s)"
  "ticks_update f11 (nr_sectors_write_update f13 s) = nr_sectors_write_update f13 (ticks_update f11 s)"
  "ticks_update f11 (cons_update f14 s) = cons_update f14 (ticks_update f11 s)"
  "ticks_update f11 (devsw_update f15 s) = devsw_update f15 (ticks_update f11 s)"
  "nr_sectors_read_update f12 (nr_sectors_write_update f13 s) = nr_sectors_write_update f13 (nr_sectors_read_update f12 s)"
  "nr_sectors_read_update f12 (cons_update f14 s) = cons_update f14 (nr_sectors_read_update f12 s)"
  "nr_sectors_read_update f12 (devsw_update f15 s) = devsw_update f15 (nr_sectors_read_update f12 s)"
  "nr_sectors_write_update f13 (cons_update f14 s) = cons_update f14 (nr_sectors_write_update f13 s)"
  "nr_sectors_write_update f13 (devsw_update f15 s) = devsw_update f15 (nr_sectors_write_update f13 s)"
  "cons_update f14 (devsw_update f15 s) = devsw_update f15 (cons_update f14 s)"
  by (rule kstate.equality; simp)+

lemma hw_update_inject [simp]: "(s :: kstate)\<lparr>hw := x\<rparr> = s\<lparr>hw := y\<rparr> \<longleftrightarrow> x = y"
  by (auto dest: arg_cong [of _ _ hw])

lemma pt_update_inject [simp]: "(s :: kstate)\<lparr>pt := x\<rparr> = s\<lparr>pt := y\<rparr> \<longleftrightarrow> x = y"
  by (auto dest: arg_cong [of _ _ pt])

lemma ide_update_inject [simp]: "(s :: kstate)\<lparr>ide := x\<rparr> = s\<lparr>ide := y\<rparr> \<longleftrightarrow> x = y"
  by (auto dest: arg_cong [of _ _ ide])

lemma bufs_update_inject [simp]: "(s :: kstate)\<lparr>bufs := x\<rparr> = s\<lparr>bufs := y\<rparr> \<longleftrightarrow> x = y"
  by (auto dest: arg_cong [of _ _ bufs])

lemma log_update_inject [simp]: "(s :: kstate)\<lparr>log := x\<rparr> = s\<lparr>log := y\<rparr> \<longleftrightarrow> x = y"
  by (auto dest: arg_cong [of _ _ log])

lemma sb_update_inject [simp]: "(s :: kstate)\<lparr>sb := x\<rparr> = s\<lparr>sb := y\<rparr> \<longleftrightarrow> x = y"
  by (auto dest: arg_cong [of _ _ sb])

lemma inodes_update_inject [simp]: "(s :: kstate)\<lparr>inodes := x\<rparr> = s\<lparr>inodes := y\<rparr> \<longleftrightarrow> x = y"
  by (auto dest: arg_cong [of _ _ inodes])

lemma files_update_inject [simp]: "(s :: kstate)\<lparr>files := x\<rparr> = s\<lparr>files := y\<rparr> \<longleftrightarrow> x = y"
  by (auto dest: arg_cong [of _ _ files])

lemma pipes_update_inject [simp]: "(s :: kstate)\<lparr>pipes := x\<rparr> = s\<lparr>pipes := y\<rparr> \<longleftrightarrow> x = y"
  by (auto dest: arg_cong [of _ _ pipes])

lemma kmem_update_inject [simp]: "(s :: kstate)\<lparr>kmem := x\<rparr> = s\<lparr>kmem := y\<rparr> \<longleftrightarrow> x = y"
  by (auto dest: arg_cong [of _ _ kmem])

lemma mem_update_inject [simp]: "(s :: kstate)\<lparr>mem := x\<rparr> = s\<lparr>mem := y\<rparr> \<longleftrightarrow> x = y"
  by (auto dest: arg_cong [of _ _ mem])

lemma ticks_update_inject [simp]: "(s :: kstate)\<lparr>ticks := x\<rparr> = s\<lparr>ticks := y\<rparr> \<longleftrightarrow> x = y"
  by (auto dest: arg_cong [of _ _ ticks])

lemma nr_sectors_read_update_inject [simp]: "(s :: kstate)\<lparr>nr_sectors_read := x\<rparr> = s\<lparr>nr_sectors_read := y\<rparr> \<longleftrightarrow> x = y"
  by (auto dest: arg_cong [of _ _ nr_sectors_read])

lemma nr_sectors_write_update_inject [simp]: "(s :: kstate)\<lparr>nr_sectors_write := x\<rparr> = s\<lparr>nr_sectors_write := y\<rparr> \<longleftrightarrow> x = y"
  by (auto dest: arg_cong [of _ _ nr_sectors_write])

lemma cons_update_inject [simp]: "(s :: kstate)\<lparr>cons := x\<rparr> = s\<lparr>cons := y\<rparr> \<longleftrightarrow> x = y"
  by (auto dest: arg_cong [of _ _ cons])

lemma devsw_update_inject [simp]: "(s :: kstate)\<lparr>devsw := x\<rparr> = s\<lparr>devsw := y\<rparr> \<longleftrightarrow> x = y"
  by (auto dest: arg_cong [of _ _ devsw])

end
