(* ===== verification/Spinlock.thy ===== *)
theory Spinlock
  imports Kstate "HOL-Library.Multiset"
begin

text \<open>
  Spin locks and interrupt nesting: \<open>spinlock.c\<close>, with \<open>mycpu\<close>, \<open>cpuid\<close> and \<open>myproc\<close> of \<open>proc.c\<close>. The
  first part is the code as one CPU runs it (an \<open>xchg\<close> that finds the lock taken spins, since the
  holder is another CPU); the recorded call stack \<open>lk->pcs\<close>, which only \<open>panic\<close> prints, is left out.
  The second part is the lock as a protocol between CPUs, one step per atomic access to \<open>lk->locked\<close>
  and \<open>lk->cpu\<close>.
\<close>

section \<open>Interrupt flag and CPU lookup\<close>

definition upd_hw :: "(hwstate \<Rightarrow> hwstate) \<Rightarrow> kstate \<Rightarrow> kstate" where
  "upd_hw f s = s\<lparr>hw := f (hw s)\<rparr>"

definition upd_cpu :: "nat \<Rightarrow> (cpu \<Rightarrow> cpu) \<Rightarrow> kstate \<Rightarrow> kstate" where
  "upd_cpu c f = upd_hw (\<lambda>h. h\<lparr>cpus := (cpus h)[c := f (cpus h ! c)]\<rparr>)"

definition upd_lock :: "lockid \<Rightarrow> (spinlock \<Rightarrow> spinlock) \<Rightarrow> kstate \<Rightarrow> kstate" where
  "upd_lock l f = upd_hw (\<lambda>h. h\<lparr>locks := (locks h)(l := f (locks h l))\<rparr>)"

definition readeflags :: "bool kern" where
  "readeflags = kget (\<lambda>s. ifl (hw s))"

definition cli :: "unit kern" where
  "cli = kmod (upd_hw (\<lambda>h. h\<lparr>ifl := False\<rparr>))"

definition sti :: "unit kern" where
  "sti = kmod (upd_hw (\<lambda>h. h\<lparr>ifl := True\<rparr>))"

definition this_cpu :: "hwstate \<Rightarrow> nat option" where
  "this_cpu h = find_index (\<lambda>c. apicid c = lapicid h) (cpus h)"

definition mycpu :: "nat kern" where
  "mycpu =
     kbind readeflags (\<lambda>f.
     if f then panic ''mycpu called with interrupts enabled''
     else kbind (kget (\<lambda>s. this_cpu (hw s))) (\<lambda>c.
       case c of None \<Rightarrow> panic ''unknown apicid'' | Some i \<Rightarrow> kret i))"

definition cpuid :: "nat kern" where
  "cpuid = mycpu"

section \<open>pushcli and popcli\<close>

definition pushcli :: "unit kern" where
  "pushcli =
     kbind readeflags (\<lambda>eflags.
     kseq cli (
     kbind mycpu (\<lambda>c.
     kbind (kget (\<lambda>s. ncli (cpus (hw s) ! c))) (\<lambda>n.
     kseq (kwhen (n = 0) (kmod (upd_cpu c (\<lambda>k. k\<lparr>intena := eflags\<rparr>)))) (
     kmod (upd_cpu c (\<lambda>k. k\<lparr>ncli := ncli k + 1\<rparr>)))))))"

definition popcli :: "unit kern" where
  "popcli =
     kbind readeflags (\<lambda>f.
     if f then panic ''popcli - interruptible''
     else kbind mycpu (\<lambda>c.
       kseq (kmod (upd_cpu c (\<lambda>k. k\<lparr>ncli := ncli k - 1\<rparr>))) (
       kbind (kget (\<lambda>s. cpus (hw s) ! c)) (\<lambda>k.
       if ncli k < 0 then panic ''popcli''
       else kwhen (ncli k = 0 \<and> intena k) sti))))"

definition myproc :: "nat option kern" where
  "myproc =
     kseq pushcli (
     kbind mycpu (\<lambda>c.
     kbind (kget (\<lambda>s. cpu_proc (cpus (hw s) ! c))) (\<lambda>p.
     kseq popcli (kret p))))"

section \<open>acquire and release\<close>

definition initlock :: "lockid \<Rightarrow> string \<Rightarrow> unit kern" where
  "initlock l name = kmod (upd_lock l (\<lambda>k. k\<lparr>lk_name := name, lk_locked := False, lk_cpu := None\<rparr>))"

definition holding :: "lockid \<Rightarrow> bool kern" where
  "holding l =
     kseq pushcli (
     kbind (kget (\<lambda>s. locks (hw s) l)) (\<lambda>k.
     kbind mycpu (\<lambda>c.
     kseq popcli (
     kret (lk_locked k \<and> lk_cpu k = Some c)))))"

definition xchg_lock :: "lockid \<Rightarrow> unit kern" where
  "xchg_lock l =
     kbind (kget (\<lambda>s. lk_locked (locks (hw s) l))) (\<lambda>old.
     if old then kstop Spin
     else kmod (upd_lock l (\<lambda>k. k\<lparr>lk_locked := True\<rparr>)))"

definition acquire :: "lockid \<Rightarrow> unit kern" where
  "acquire l =
     kseq pushcli (
     kbind (holding l) (\<lambda>h.
     if h then panic ''acquire''
     else kseq (xchg_lock l) (
       kbind mycpu (\<lambda>c.
       kmod (upd_lock l (\<lambda>k. k\<lparr>lk_cpu := Some c\<rparr>))))))"

definition release :: "lockid \<Rightarrow> unit kern" where
  "release l =
     kbind (holding l) (\<lambda>h.
     if \<not> h then panic ''release''
     else kseq (kmod (upd_lock l (\<lambda>k. k\<lparr>lk_cpu := None\<rparr>))) (
       kseq (kmod (upd_lock l (\<lambda>k. k\<lparr>lk_locked := False\<rparr>)))
       popcli))"

section \<open>The critical-section invariant\<close>

text \<open>
  \<open>critd h d H (p, b)\<close>: the executing CPU holds exactly the spin locks \<open>H\<close>, no other CPU holds one,
  its nesting depth is \<open>d\<close> above their number, its current process is \<open>p\<close>, and \<open>b\<close> is the interrupt
  flag of the thread outside its critical sections: interrupts are off and \<open>b\<close> is remembered in
  \<open>intena\<close> while the depth is not zero. Kernel code between calls is in a state with \<open>d = 0\<close>.
\<close>

definition critd :: "hwstate \<Rightarrow> nat \<Rightarrow> lockid list \<Rightarrow> nat option \<times> bool \<Rightarrow> bool" where
  "critd h d H th \<longleftrightarrow>
     (\<exists>c. this_cpu h = Some c \<and> distinct H \<and> ncli (cpus h ! c) = int (length H + d) \<and>
       (if length H + d = 0 then ifl h = snd th else \<not> ifl h \<and> intena (cpus h ! c) = snd th) \<and>
       cpu_proc (cpus h ! c) = fst th \<and>
       (\<forall>l. if l \<in> set H then lk_locked (locks h l) \<and> lk_cpu (locks h l) = Some c
            else \<not> lk_locked (locks h l)))"

abbreviation crit :: "hwstate \<Rightarrow> lockid list \<Rightarrow> nat option \<times> bool \<Rightarrow> bool" where
  "crit h H th \<equiv> critd h 0 H th"

lemma int_add_eq_0_iff [simp]: "int m + int n = 0 \<longleftrightarrow> m = 0 \<and> n = 0"
  by linarith

lemma this_cpu_less: "this_cpu h = Some c \<Longrightarrow> c < length (cpus h)"
  by (auto simp: this_cpu_def find_index_Some_iff)

lemma this_cpu_upd:
  assumes "apicid k = apicid (cpus h ! c)"
  shows "this_cpu (h\<lparr>cpus := (cpus h)[c := k]\<rparr>) = this_cpu h"
proof -
  have "find_index (\<lambda>c. apicid c = lapicid h) ((cpus h)[c := k]) =
      find_index (\<lambda>c. apicid c = lapicid h) (cpus h)"
    by (rule find_index_cong_nth) (use assms in \<open>auto simp: nth_list_update_if\<close>)
  then show ?thesis by (simp add: this_cpu_def)
qed

lemma this_cpu_simps [simp]:
  "this_cpu (h\<lparr>ifl := b\<rparr>) = this_cpu h"
  "this_cpu (h\<lparr>locks := ls\<rparr>) = this_cpu h"
  by (simp_all add: this_cpu_def)

lemma mycpu_run: "this_cpu (hw s) = Some c \<Longrightarrow> \<not> ifl (hw s) \<Longrightarrow> mycpu s = Inr (c, s)"
  by (simp add: mycpu_def readeflags_def)

lemma pushcli_critd:
  assumes "critd (hw s) d H th"
  shows "\<exists>h. pushcli s = Inr ((), s\<lparr>hw := h\<rparr>) \<and> critd h (Suc d) H th \<and> locks h = locks (hw s) \<and>
    this_cpu h = this_cpu (hw s)"
proof -
  from assms obtain c where c: "this_cpu (hw s) = Some c" and lt: "c < length (cpus (hw s))"
    by (auto simp: critd_def dest: this_cpu_less)
  let ?k = "cpus (hw s) ! c"
  let ?k' = "(if ncli ?k = 0 then ?k\<lparr>intena := ifl (hw s)\<rparr> else ?k)\<lparr>ncli := ncli ?k + 1\<rparr>"
  let ?h = "(hw s)\<lparr>cpus := (cpus (hw s))[c := ?k'], ifl := False\<rparr>"
  have cpu: "this_cpu ?h = Some c"
    using this_cpu_upd [where h = "hw s" and c = c] c by simp
  then have "critd ?h (Suc d) H th"
    using assms c lt by (auto simp: critd_def split: if_splits)
  moreover have "pushcli s = Inr ((), s\<lparr>hw := ?h\<rparr>)"
    using c lt
    by (simp add: pushcli_def readeflags_def cli_def upd_hw_def mycpu_run upd_cpu_def kwhen_def)
  ultimately show ?thesis using c cpu by (intro exI [of _ ?h]) simp
qed

lemma popcli_critd:
  assumes "critd (hw s) (Suc d) H th"
  shows "\<exists>h. popcli s = Inr ((), s\<lparr>hw := h\<rparr>) \<and> critd h d H th \<and> locks h = locks (hw s) \<and>
    this_cpu h = this_cpu (hw s)"
proof -
  from assms obtain c where c: "this_cpu (hw s) = Some c" and lt: "c < length (cpus (hw s))"
    and n: "ncli (cpus (hw s) ! c) = int (length H + Suc d)" and off: "\<not> ifl (hw s)"
    by (auto simp: critd_def dest: this_cpu_less)
  let ?k' = "(cpus (hw s) ! c)\<lparr>ncli := int (length H + d)\<rparr>"
  let ?h = "(hw s)\<lparr>cpus := (cpus (hw s))[c := ?k']\<rparr>"
  let ?g = "if length H + d = 0 \<and> intena ?k' then ?h\<lparr>ifl := True\<rparr> else ?h"
  have cpu: "this_cpu ?h = Some c"
    using this_cpu_upd [where h = "hw s" and c = c and k = ?k'] c by simp
  then have "critd ?g d H th"
    using assms c lt by (auto simp: critd_def split: if_splits)
  moreover have "popcli s = Inr ((), s\<lparr>hw := ?g\<rparr>)"
    using c lt n off
    by (simp add: popcli_def readeflags_def sti_def upd_hw_def mycpu_run upd_cpu_def kwhen_def)
  moreover have "this_cpu ?g = this_cpu (hw s)"
    by (simp only: if_distrib [of this_cpu] this_cpu_simps if_cancel c cpu)
  moreover have "locks ?g = locks (hw s)" by simp
  ultimately show ?thesis by (intro exI [of _ ?g]) blast
qed

lemma mycpu_critd: "critd (hw s) d H th \<Longrightarrow> length H + d \<noteq> 0 \<Longrightarrow>
    \<exists>c. mycpu s = Inr (c, s) \<and> this_cpu (hw s) = Some c"
  by (auto simp: critd_def mycpu_run split: if_splits)

lemma critd_held_iff:
  "critd h d H th \<Longrightarrow> this_cpu h = Some c \<Longrightarrow>
    lk_locked (locks h l) \<and> lk_cpu (locks h l) = Some c \<longleftrightarrow> l \<in> set H"
  by (auto simp: critd_def split: if_splits)

lemma holding_critd:
  assumes "critd (hw s) d H th"
  shows "\<exists>h. holding l s = Inr (l \<in> set H, s\<lparr>hw := h\<rparr>) \<and> critd h d H th \<and> locks h = locks (hw s)"
proof -
  obtain h1 where 1: "pushcli s = Inr ((), s\<lparr>hw := h1\<rparr>)" "critd h1 (Suc d) H th"
    "locks h1 = locks (hw s)"
    using pushcli_critd [OF assms] by blast
  obtain c where c: "mycpu (s\<lparr>hw := h1\<rparr>) = Inr (c, s\<lparr>hw := h1\<rparr>)" "this_cpu h1 = Some c"
    using mycpu_critd [of "s\<lparr>hw := h1\<rparr>" "Suc d" H th] 1(2) by auto
  obtain h2 where 2: "popcli (s\<lparr>hw := h1\<rparr>) = Inr ((), s\<lparr>hw := h2\<rparr>)" "critd h2 d H th"
    "locks h2 = locks h1"
    using popcli_critd [of "s\<lparr>hw := h1\<rparr>" d H th] 1(2) by auto
  from 1 2 c critd_held_iff [OF 1(2) c(2), of l] show ?thesis
    by (auto simp: holding_def)
qed

lemma myproc_critd:
  assumes "critd (hw s) d H th"
  shows "\<exists>h. myproc s = Inr (fst th, s\<lparr>hw := h\<rparr>) \<and> critd h d H th \<and> locks h = locks (hw s)"
proof -
  obtain h1 where 1: "pushcli s = Inr ((), s\<lparr>hw := h1\<rparr>)" "critd h1 (Suc d) H th"
    "locks h1 = locks (hw s)"
    using pushcli_critd [OF assms] by blast
  obtain c where c: "mycpu (s\<lparr>hw := h1\<rparr>) = Inr (c, s\<lparr>hw := h1\<rparr>)" "this_cpu h1 = Some c"
    using mycpu_critd [of "s\<lparr>hw := h1\<rparr>" "Suc d" H th] 1(2) by auto
  obtain h2 where 2: "popcli (s\<lparr>hw := h1\<rparr>) = Inr ((), s\<lparr>hw := h2\<rparr>)" "critd h2 d H th"
    "locks h2 = locks h1"
    using popcli_critd [of "s\<lparr>hw := h1\<rparr>" d H th] 1(2) by auto
  have "cpu_proc (cpus h1 ! c) = fst th"
    using 1(2) c(2) by (auto simp: critd_def)
  with 1 2 c show ?thesis by (auto simp: myproc_def)
qed

section \<open>Behaviour of acquire and release\<close>

lemma acquire_crit:
  assumes "critd (hw s) d H th" and "l \<notin> set H"
  shows "\<exists>h. acquire l s = Inr ((), s\<lparr>hw := h\<rparr>) \<and> critd h d (l # H) th"
proof -
  obtain h1 where 1: "pushcli s = Inr ((), s\<lparr>hw := h1\<rparr>)" "critd h1 (Suc d) H th"
    using pushcli_critd [OF assms(1)] by blast
  obtain h2 where 2: "holding l (s\<lparr>hw := h1\<rparr>) = Inr (False, s\<lparr>hw := h2\<rparr>)" "critd h2 (Suc d) H th"
    using holding_critd [of "s\<lparr>hw := h1\<rparr>" "Suc d" H th l] 1(2) assms(2) by auto
  have free: "\<not> lk_locked (locks h2 l)"
    using 2(2) assms(2) by (auto simp: critd_def split: if_splits)
  let ?h3 = "h2\<lparr>locks := (locks h2)(l := (locks h2 l)\<lparr>lk_locked := True\<rparr>)\<rparr>"
  obtain c where c: "this_cpu h2 = Some c" "\<not> ifl h2"
    using 2(2) by (auto simp: critd_def split: if_splits)
  then have my: "mycpu (s\<lparr>hw := ?h3\<rparr>) = Inr (c, s\<lparr>hw := ?h3\<rparr>)"
    by (simp add: mycpu_run)
  let ?h4 = "h2\<lparr>locks := (locks h2)(l := (locks h2 l)\<lparr>lk_locked := True, lk_cpu := Some c\<rparr>)\<rparr>"
  have "acquire l s = Inr ((), s\<lparr>hw := ?h4\<rparr>)"
    using 1 2 free my by (simp add: acquire_def xchg_lock_def upd_lock_def upd_hw_def)
  moreover have "critd ?h4 d (l # H) th"
    using 2(2) c assms(2) by (auto simp: critd_def split: if_splits)
  ultimately show ?thesis by blast
qed

lemma acquire_held_panics:
  assumes "critd (hw s) d H th" and "l \<in> set H"
  shows "acquire l s = Inl (Panic ''acquire'')"
proof -
  obtain h1 where 1: "pushcli s = Inr ((), s\<lparr>hw := h1\<rparr>)" "critd h1 (Suc d) H th"
    using pushcli_critd [OF assms(1)] by blast
  obtain h2 where "holding l (s\<lparr>hw := h1\<rparr>) = Inr (True, s\<lparr>hw := h2\<rparr>)"
    using holding_critd [of "s\<lparr>hw := h1\<rparr>" "Suc d" H th l] 1(2) assms(2) by auto
  with 1 show ?thesis by (simp add: acquire_def)
qed

lemma release_crit:
  assumes "critd (hw s) d H th" and "l \<in> set H"
  shows "\<exists>h. release l s = Inr ((), s\<lparr>hw := h\<rparr>) \<and> critd h d (remove1 l H) th"
proof -
  obtain h1 where 1: "holding l s = Inr (True, s\<lparr>hw := h1\<rparr>)" "critd h1 d H th"
    using holding_critd [OF assms(1), of l] assms(2) by auto
  let ?h2 = "h1\<lparr>locks := (locks h1)(l := (locks h1 l)\<lparr>lk_cpu := None, lk_locked := False\<rparr>)\<rparr>"
  have len: "length H = Suc (length (remove1 l H))"
    using length_pos_if_in_set [OF assms(2)] assms(2) by (simp add: length_remove1)
  have "critd ?h2 (Suc d) (remove1 l H) th"
    using 1(2) len by (auto simp: critd_def split: if_splits)
  then obtain h3 where "popcli (s\<lparr>hw := ?h2\<rparr>) = Inr ((), s\<lparr>hw := h3\<rparr>)"
    "critd h3 d (remove1 l H) th"
    using popcli_critd [of "s\<lparr>hw := ?h2\<rparr>" d "remove1 l H" th] by auto
  with 1 show ?thesis by (auto simp: release_def upd_lock_def upd_hw_def)
qed

lemma release_not_held_panics:
  assumes "critd (hw s) d H th" and "l \<notin> set H"
  shows "release l s = Inl (Panic ''release'')"
  using holding_critd [OF assms(1), of l] assms(2) by (auto simp: release_def)

text \<open>The usual case: the most recently acquired lock is released first.\<close>

lemma release_head_crit:
  "critd (hw s) d (l # H) th \<Longrightarrow> \<exists>h. release l s = Inr ((), s\<lparr>hw := h\<rparr>) \<and> critd h d H th"
  using release_crit [of s d "l # H" th l] by simp

section \<open>Running code with locks held\<close>

text \<open>
  \<open>owns H th s t\<close>: \<open>t\<close> is \<open>s\<close> up to the state of the CPUs and spin locks, in which this CPU runs
  the thread \<open>th\<close> and holds the locks \<open>H\<close>.
\<close>

definition owns :: "lockid list \<Rightarrow> nat option \<times> bool \<Rightarrow> kstate \<Rightarrow> kstate \<Rightarrow> bool" where
  "owns H th s t \<longleftrightarrow> (\<exists>h. t = s\<lparr>hw := h\<rparr> \<and> crit h H th)"

lemma ownsE:
  assumes "owns H th s t"
  obtains h where "t = s\<lparr>hw := h\<rparr>" and "crit h H th"
  using assms by (auto simp: owns_def)

lemma owns_self: "crit (hw s) H th \<Longrightarrow> owns H th s s"
  by (auto simp: owns_def intro!: exI [of _ "hw s"])

lemma owns_runI:
  assumes "\<And>t. crit (hw t) H th \<Longrightarrow> \<exists>h. m t = Inr (x, t\<lparr>hw := h\<rparr>) \<and> crit h H' th'"
  shows "krun (owns H th) s m x (owns H' th') s"
proof (rule krunI)
  fix t assume "owns H th s t"
  then obtain h where h: "t = s\<lparr>hw := h\<rparr>" "crit h H th" by (rule ownsE)
  with assms [of t] show "\<exists>t'. m t = Inr (x, t') \<and> owns H' th' s t'"
    by (auto simp: owns_def)
qed

lemma owns_stopI: "(\<And>t. crit (hw t) H th \<Longrightarrow> Q (m t)) \<Longrightarrow> kexec (owns H th) s m Q"
  by (auto simp: kexec_def owns_def)

lemma kget_owns [krule]:
  "(\<And>h. g (s\<lparr>hw := h\<rparr>) = g s) \<Longrightarrow> krun (owns H th) s (kget g) (g s) (owns H th) s"
  by (auto simp: kexec_def returns_def owns_def)

lemma kmod_owns:
  "(\<And>h. u (s\<lparr>hw := h\<rparr>) = s'\<lparr>hw := h\<rparr>) \<Longrightarrow> krun (owns H th) s (kmod u) () (owns H th) s'"
  by (auto simp: kexec_def returns_def owns_def)

lemma kmod_self_owns [krule]:
  "(\<And>h. u (s\<lparr>hw := h\<rparr>) = (u s)\<lparr>hw := h\<rparr>) \<Longrightarrow> krun (owns H th) s (kmod u) () (owns H th) (u s)"
  by (rule kmod_owns)

text \<open>The same steps at the head of a sequence, with the value read or the new state simplified.\<close>

lemma get_owns:
  assumes "\<And>h. g (s\<lparr>hw := h\<rparr>) = g s" and "g s = v" and "kexec (owns H th) s (f v) Q"
  shows "kexec (owns H th) s (kbind (kget g) f) Q"
  using kexec_kbind [OF kget_owns [of g s], of H th f Q] assms by simp

lemma mod_owns:
  assumes "\<And>h. u (s\<lparr>hw := h\<rparr>) = (u s)\<lparr>hw := h\<rparr>" and "u s = s'" and "kexec (owns H th) s' m Q"
  shows "kexec (owns H th) s (kseq (kmod u) m) Q"
  using kexec_kseq [OF kmod_self_owns [of u s], of H th m Q] assms by simp

lemma acquire_owns [krule]:
  "l \<notin> set H \<Longrightarrow> krun (owns H th) s (acquire l) () (owns (l # H) th) s"
  by (rule owns_runI) (use acquire_crit in blast)

lemma release_owns:
  "l \<in> set H \<Longrightarrow> krun (owns H th) s (release l) () (owns (remove1 l H) th) s"
  by (rule owns_runI) (use release_crit in blast)

lemma release_head_owns [krule]: "krun (owns (l # H) th) s (release l) () (owns H th) s"
  using release_owns [of l "l # H"] by simp

lemma acquire_held_owns: "l \<in> set H \<Longrightarrow> kpanics (owns H th) s (acquire l) ''acquire''"
  by (rule owns_stopI) (rule acquire_held_panics)

lemma release_not_held_owns: "l \<notin> set H \<Longrightarrow> kpanics (owns H th) s (release l) ''release''"
  by (rule owns_stopI) (rule release_not_held_panics)

lemma myproc_owns [krule]: "krun (owns H th) s myproc (fst th) (owns H th) s"
  by (rule owns_runI) (use myproc_critd in blast)

lemma holding_owns [krule]: "krun (owns H th) s (holding l) (l \<in> set H) (owns H th) s"
  by (rule owns_runI) (use holding_critd in blast)

section \<open>Nested critical sections\<close>

lemma kfor_acquire_owns:
  "distinct ls \<Longrightarrow> set ls \<inter> set H = {} \<Longrightarrow>
    krun (owns H th) s (kfor ls acquire) () (owns (rev ls @ H) th) s"
proof (induction ls arbitrary: H)
  case Nil
  show ?case unfolding kfor.simps rev.simps append.simps by (rule kexec_kret)
next
  case (Cons l ls)
  then have "krun (owns (l # H) th) s (kfor ls acquire) () (owns (rev (l # ls) @ H) th) s"
    using Cons.IH [of "l # H"] by simp
  with Cons.prems show ?case unfolding kfor.simps by (auto intro: krule)
qed

lemma kfor_release_owns:
  "distinct ls \<Longrightarrow> set ls \<subseteq> set H \<Longrightarrow>
    krun (owns H th) s (kfor ls release) () (owns (fold remove1 ls H) th) s"
proof (induction ls arbitrary: H)
  case Nil
  show ?case unfolding kfor.simps fold.simps id_apply by (rule kexec_kret)
next
  case (Cons l ls)
  have "set ls \<subseteq> set (remove1 l H)"
  proof
    fix x assume "x \<in> set ls"
    with Cons.prems have "x \<noteq> l" "x \<in> set H" by auto
    then show "x \<in> set (remove1 l H)" by simp
  qed
  then have "krun (owns (remove1 l H) th) s (kfor ls release) () (owns (fold remove1 (l # ls) H) th) s"
    using Cons.IH [of "remove1 l H"] Cons.prems by simp
  with Cons.prems show ?case unfolding kfor.simps by (auto intro: krule release_owns)
qed

section \<open>The lock between CPUs\<close>

text \<open>
  One lock and any number of CPUs. Each CPU is at one of five points of \<open>acquire\<close> and \<open>release\<close>;
  a step is one atomic access: the entry check \<open>holding\<close>, an \<open>xchg\<close> (which stores 1 whether or not it
  wins), the assignment of \<open>lk->cpu\<close>, its reset, and the store of 0.
\<close>

datatype lkpc = LOut | LSpin | LGot | LHeld | LRel

record mplock =
  mp_locked :: bool
  mp_cpu :: "nat option"
  mp_pc :: "nat \<Rightarrow> lkpc"

definition mp_holding :: "mplock \<Rightarrow> nat \<Rightarrow> bool" where
  "mp_holding k c \<longleftrightarrow> mp_locked k \<and> mp_cpu k = Some c"

definition mp_init :: mplock where
  "mp_init = \<lparr>mp_locked = False, mp_cpu = None, mp_pc = (\<lambda>_. LOut)\<rparr>"

inductive lk_step :: "mplock \<Rightarrow> mplock \<Rightarrow> bool" where
  enter: "mp_pc k c = LOut \<Longrightarrow> \<not> mp_holding k c \<Longrightarrow>
    lk_step k (k\<lparr>mp_pc := (mp_pc k)(c := LSpin)\<rparr>)"
| spin: "mp_pc k c = LSpin \<Longrightarrow> mp_locked k \<Longrightarrow> lk_step k (k\<lparr>mp_locked := True\<rparr>)"
| xchg: "mp_pc k c = LSpin \<Longrightarrow> \<not> mp_locked k \<Longrightarrow>
    lk_step k (k\<lparr>mp_locked := True, mp_pc := (mp_pc k)(c := LGot)\<rparr>)"
| set_cpu: "mp_pc k c = LGot \<Longrightarrow>
    lk_step k (k\<lparr>mp_cpu := Some c, mp_pc := (mp_pc k)(c := LHeld)\<rparr>)"
| clear_cpu: "mp_pc k c = LHeld \<Longrightarrow> mp_holding k c \<Longrightarrow>
    lk_step k (k\<lparr>mp_cpu := None, mp_pc := (mp_pc k)(c := LRel)\<rparr>)"
| unlock: "mp_pc k c = LRel \<Longrightarrow>
    lk_step k (k\<lparr>mp_locked := False, mp_pc := (mp_pc k)(c := LOut)\<rparr>)"

inductive lk_reach :: "mplock \<Rightarrow> bool" where
  lk_start: "lk_reach mp_init"
| lk_next: "lk_reach k \<Longrightarrow> lk_step k k' \<Longrightarrow> lk_reach k'"

fun owner_pc :: "lkpc \<Rightarrow> bool" where
  "owner_pc LOut = False"
| "owner_pc LSpin = False"
| "owner_pc _ = True"

text \<open>
  There is at most one owner \<open>w\<close>, and there is one exactly while the word is set; \<open>lk->cpu\<close> names it
  from just after the acquisition to just before the release, and nobody otherwise.
\<close>

definition mp_inv :: "mplock \<Rightarrow> bool" where
  "mp_inv k \<longleftrightarrow>
     (\<exists>w. (\<forall>c. owner_pc (mp_pc k c) \<longleftrightarrow> w = Some c) \<and> (mp_locked k \<longleftrightarrow> w \<noteq> None) \<and>
       (\<forall>c. mp_cpu k = Some c \<longleftrightarrow> mp_pc k c = LHeld))"

lemma mp_inv_init: "mp_inv mp_init"
  by (simp add: mp_inv_def mp_init_def)

lemma lk_step_inv: "lk_step k k' \<Longrightarrow> mp_inv k \<Longrightarrow> mp_inv k'"
proof (induction rule: lk_step.induct)
  case (enter k c)
  then obtain w where "\<forall>c. owner_pc (mp_pc k c) \<longleftrightarrow> w = Some c" "mp_locked k \<longleftrightarrow> w \<noteq> None"
    "\<forall>c. mp_cpu k = Some c \<longleftrightarrow> mp_pc k c = LHeld"
    by (auto simp: mp_inv_def)
  moreover from this enter(1) have "w \<noteq> Some c" by (metis owner_pc.simps(1))
  ultimately show ?case by (auto simp: mp_inv_def enter(1))
next
  case (spin k c)
  then show ?case by (simp add: mp_inv_def)
next
  case (xchg k c)
  then show ?case by (auto simp: mp_inv_def intro!: exI [of _ "Some c"])
next
  case (set_cpu k c)
  then obtain w where w: "\<forall>c. owner_pc (mp_pc k c) \<longleftrightarrow> w = Some c" "mp_locked k \<longleftrightarrow> w \<noteq> None"
    by (auto simp: mp_inv_def)
  with set_cpu have "w = Some c" by (metis owner_pc.simps(3))
  with w have "mp_pc k d = LHeld \<Longrightarrow> d = c" for d by (metis owner_pc.simps(4) option.inject)
  with w \<open>w = Some c\<close> show ?case by (auto simp: mp_inv_def)
next
  case (clear_cpu k c)
  then obtain w where w: "\<forall>c. owner_pc (mp_pc k c) \<longleftrightarrow> w = Some c" "mp_locked k \<longleftrightarrow> w \<noteq> None"
    by (auto simp: mp_inv_def)
  with clear_cpu have "w = Some c" by (metis owner_pc.simps(4))
  with w have "mp_pc k d = LHeld \<Longrightarrow> d = c" for d by (metis owner_pc.simps(4) option.inject)
  with w \<open>w = Some c\<close> show ?case by (auto simp: mp_inv_def)
next
  case (unlock k c)
  then obtain w where w: "\<forall>c. owner_pc (mp_pc k c) \<longleftrightarrow> w = Some c"
    "\<forall>c. mp_cpu k = Some c \<longleftrightarrow> mp_pc k c = LHeld"
    by (auto simp: mp_inv_def)
  with unlock have "w = Some c" by (metis owner_pc.simps(5))
  with w unlock(1) show ?case by (auto simp: mp_inv_def)
qed

lemma lk_reach_inv: "lk_reach k \<Longrightarrow> mp_inv k"
  by (induction rule: lk_reach.induct) (auto intro: mp_inv_init lk_step_inv)

lemma lk_reach_mutex:
  assumes "lk_reach k" and "mp_pc k c = LHeld" and "mp_pc k c' = LHeld"
  shows "c = c'"
  using lk_reach_inv [OF assms(1)] assms(2,3) by (metis mp_inv_def option.inject)

lemma lk_reach_holding_iff:
  assumes "lk_reach k"
  shows "mp_holding k c \<longleftrightarrow> mp_pc k c = LHeld"
  using lk_reach_inv [OF assms] by (auto simp: mp_inv_def mp_holding_def) (metis owner_pc.simps(4))

section \<open>Properties\<close>

text \<open>
  C1. Mutual exclusion of the spin lock: in every state that any interleaving of \<open>acquire\<close> and \<open>release\<close> on
  any number of CPUs reaches, at most one CPU is between the two, \<open>holding\<close> is true exactly on that
  CPU, and while a CPU is there the lock word is set.
\<close>

theorem spinlock_mutual_exclusion:
  assumes "lk_reach k" and "mp_pc k c = LHeld"
  shows "(mp_pc k c' = LHeld \<longleftrightarrow> c' = c) \<and> (mp_holding k c' \<longleftrightarrow> c' = c) \<and> mp_locked k"
  using lk_reach_mutex [OF assms(1), of c c'] lk_reach_holding_iff [OF assms(1)] assms(2)
  by (auto simp: mp_holding_def)

text \<open>Two CPUs compete; CPU 0 has the lock.\<close>

definition mp_race :: mplock where
  "mp_race = \<lparr>mp_locked = True, mp_cpu = Some 0, mp_pc = (\<lambda>_. LOut)(0 := LHeld, 1 := LSpin)\<rparr>"

lemma mp_race_reach: "lk_reach mp_race"
proof -
  have "lk_reach (mp_init\<lparr>mp_pc := (\<lambda>_. LOut)(0 := LSpin)\<rparr>)" (is "lk_reach ?k1")
    using lk_next [OF lk_start lk_step.enter [of mp_init 0]] by (simp add: mp_init_def mp_holding_def)
  moreover have "lk_step ?k1 (mp_init\<lparr>mp_pc := (\<lambda>_. LOut)(0 := LSpin, 1 := LSpin)\<rparr>)" (is "lk_step _ ?k2")
    using lk_step.enter [of ?k1 1] by (simp add: mp_init_def mp_holding_def)
  moreover have "lk_step ?k2 (mp_race\<lparr>mp_cpu := None, mp_pc := (\<lambda>_. LOut)(0 := LGot, 1 := LSpin)\<rparr>)"
    (is "lk_step _ ?k3")
    using lk_step.xchg [of ?k2 0] by (simp add: mp_init_def mp_race_def fun_upd_twist)
  moreover have "lk_step ?k3 mp_race"
    using lk_step.set_cpu [of ?k3 0] by (simp add: mp_race_def fun_upd_twist)
  ultimately show ?thesis by (blast intro: lk_next)
qed

theorem spinlock_mutual_exclusion_witness:
  "lk_reach mp_race \<and> mp_pc mp_race 0 = LHeld \<and> \<not> mp_holding mp_race 1 \<and> mp_locked mp_race"
  using spinlock_mutual_exclusion [OF mp_race_reach, of 0 1] mp_race_reach by (simp add: mp_race_def)

text \<open>
  C2. Critical sections nest: from a state in which the CPU holds no lock, acquiring any distinct
  locks one after the other and releasing them in any order returns, with every lock free again, the
  nesting depth zero, the interrupt flag as it was before, and no other part of the kernel changed.
\<close>

theorem lock_nesting_restores_interrupts:
  assumes "crit (hw s) [] th" and "distinct ls" and "mset ls' = mset ls"
  shows "\<exists>h. kseq (kfor ls acquire) (kfor ls' release) s = Inr ((), s\<lparr>hw := h\<rparr>) \<and> crit h [] th \<and>
    ifl h = ifl (hw s)"
proof -
  have ls': "distinct ls'" "set ls' = set ls"
    using assms(2,3) by (metis mset_eq_imp_distinct_iff, metis mset_eq_setD)
  have "set (fold remove1 xs ys) = set ys - set xs" if "distinct ys" for xs ys :: "lockid list"
    using that by (induction xs arbitrary: ys) auto
  from this [of "rev ls" ls'] have "fold remove1 ls' (rev ls @ []) = []"
    using assms(2) ls' by simp
  then have "krun (owns [] th) s (kseq (kfor ls acquire) (kfor ls' release)) () (owns [] th) s"
    using kexec_kseq [OF kfor_acquire_owns [of ls "[]" th s] kfor_release_owns [of ls' "rev ls @ []" th s]]
      assms(2) ls' by simp
  then obtain t where "kseq (kfor ls acquire) (kfor ls' release) s = Inr ((), t)" "owns [] th s t"
    using owns_self [OF assms(1)] by (rule krunE)
  with assms(1) show ?thesis by (auto simp: owns_def critd_def)
qed

lemma zero_kernel_crit: "crit (hw zero_kernel) [] (Some 0, True)"
  by (simp add: critd_def zero_kernel_def zero_hw_def this_cpu_def first_cpu_def zero_lock_def)

theorem lock_nesting_restores_interrupts_witness:
  "\<exists>h. kseq (kfor [LPtable, LIde] acquire) (kfor [LPtable, LIde] release) zero_kernel =
      Inr ((), zero_kernel\<lparr>hw := h\<rparr>) \<and> ifl h"
  using lock_nesting_restores_interrupts [OF zero_kernel_crit, of "[LPtable, LIde]" "[LPtable, LIde]"]
  by (auto simp: zero_kernel_def zero_hw_def)

end
