(* ===== verification/Cstring.thy ===== *)
theory Cstring
  imports Prelude
begin

text \<open>
  The memory and string routines of \<open>string.c\<close> (kernel) and \<open>ulib.c\<close> (user library), with the string
  instructions of \<open>x86.h\<close>, on a 32-bit address space. Addresses wrap around as on the machine.
  \<open>strlen\<close> and its relatives scan until a zero byte, so they are partial; on a terminated string they return.
\<close>

section \<open>The address space\<close>

type_synonym memory = "u32 \<Rightarrow> u8"

definition load32 :: "memory \<Rightarrow> u32 \<Rightarrow> u32" where
  "load32 m a = word32 (m a) (m (a + 1)) (m (a + 2)) (m (a + 3))"

definition store32 :: "u32 \<Rightarrow> u32 \<Rightarrow> memory \<Rightarrow> memory" where
  "store32 a w m = m(a := ucast w, a + 1 := ucast (drop_bit 8 w), a + 2 := ucast (drop_bit 16 w),
     a + 3 := ucast (drop_bit 24 w))"

primrec stosb :: "u32 \<Rightarrow> u8 \<Rightarrow> nat \<Rightarrow> memory \<Rightarrow> memory" where
  "stosb a c 0 m = m"
| "stosb a c (Suc n) m = stosb (a + 1) c n (m(a := c))"

primrec stosl :: "u32 \<Rightarrow> u32 \<Rightarrow> nat \<Rightarrow> memory \<Rightarrow> memory" where
  "stosl a w 0 m = m"
| "stosl a w (Suc n) m = stosl (a + 4) w n (store32 a w m)"

section \<open>string.c\<close>

definition memset :: "u32 \<Rightarrow> u32 \<Rightarrow> u32 \<Rightarrow> memory \<Rightarrow> memory" where
  "memset dst c n m =
     (if dst mod 4 = 0 \<and> n mod 4 = 0 then
        let c = c AND 0xFF
        in stosl dst (push_bit 24 c OR push_bit 16 c OR push_bit 8 c OR c) (unat (n div 4)) m
      else stosb dst (ucast c) (unat n) m)"

primrec memcmp :: "memory \<Rightarrow> u32 \<Rightarrow> u32 \<Rightarrow> nat \<Rightarrow> int" where
  "memcmp m s1 s2 0 = 0"
| "memcmp m s1 s2 (Suc n) = (if m s1 \<noteq> m s2 then uint (m s1) - uint (m s2) else memcmp m (s1 + 1) (s2 + 1) n)"

primrec copy_up :: "u32 \<Rightarrow> u32 \<Rightarrow> nat \<Rightarrow> memory \<Rightarrow> memory" where
  "copy_up d s 0 m = m"
| "copy_up d s (Suc n) m = copy_up (d + 1) (s + 1) n (m(d := m s))"

primrec copy_down :: "u32 \<Rightarrow> u32 \<Rightarrow> nat \<Rightarrow> memory \<Rightarrow> memory" where
  "copy_down d s 0 m = m"
| "copy_down d s (Suc n) m = copy_down (d - 1) (s - 1) n (m(d - 1 := m (s - 1)))"

definition memmove :: "u32 \<Rightarrow> u32 \<Rightarrow> u32 \<Rightarrow> memory \<Rightarrow> memory" where
  "memmove dst src n m =
     (if src < dst \<and> src + n > dst then copy_down (dst + n) (src + n) (unat n) m
      else copy_up dst src (unat n) m)"

definition memcpy :: "u32 \<Rightarrow> u32 \<Rightarrow> u32 \<Rightarrow> memory \<Rightarrow> memory" where
  "memcpy dst src n m = memmove dst src n m"

primrec strncmp :: "memory \<Rightarrow> u32 \<Rightarrow> u32 \<Rightarrow> nat \<Rightarrow> int" where
  "strncmp m p q 0 = 0"
| "strncmp m p q (Suc n) =
     (if m p \<noteq> 0 \<and> m p = m q then strncmp m (p + 1) (q + 1) n else uint (m p) - uint (m q))"

text \<open>\<open>n\<close> is the value of the \<open>int\<close> parameter where it is positive, and 0 elsewhere.\<close>

primrec strncpy :: "u32 \<Rightarrow> u32 \<Rightarrow> nat \<Rightarrow> memory \<Rightarrow> memory" where
  "strncpy s t 0 m = m"
| "strncpy s t (Suc n) m =
     (let m' = m(s := m t)
      in if m' s \<noteq> 0 then strncpy (s + 1) (t + 1) n m' else stosb (s + 1) 0 n m')"

primrec safestrcpy_loop :: "u32 \<Rightarrow> u32 \<Rightarrow> nat \<Rightarrow> memory \<Rightarrow> memory" where
  "safestrcpy_loop s t 0 m = m(s := 0)"
| "safestrcpy_loop s t (Suc n) m =
     (let m' = m(s := m t)
      in if m' s \<noteq> 0 then safestrcpy_loop (s + 1) (t + 1) n m' else m'(s + 1 := 0))"

definition safestrcpy :: "u32 \<Rightarrow> u32 \<Rightarrow> int \<Rightarrow> memory \<Rightarrow> memory" where
  "safestrcpy s t n m = (if n \<le> 0 then m else safestrcpy_loop s t (nat (n - 1)) m)"

partial_function (option) strlen_loop :: "memory \<Rightarrow> u32 \<Rightarrow> nat \<Rightarrow> nat option" where
  "strlen_loop m s n = (if m (s + of_nat n) = 0 then Some n else strlen_loop m s (Suc n))"

definition strlen :: "memory \<Rightarrow> u32 \<Rightarrow> nat option" where
  "strlen m s = strlen_loop m s 0"

section \<open>ulib.c\<close>

partial_function (option) strcpy :: "u32 \<Rightarrow> u32 \<Rightarrow> memory \<Rightarrow> memory option" where
  "strcpy s t m = (let m' = m(s := m t) in if m' s \<noteq> 0 then strcpy (s + 1) (t + 1) m' else Some m')"

partial_function (option) strcmp :: "memory \<Rightarrow> u32 \<Rightarrow> u32 \<Rightarrow> int option" where
  "strcmp m p q = (if m p \<noteq> 0 \<and> m p = m q then strcmp m (p + 1) (q + 1) else Some (uint (m p) - uint (m q)))"

partial_function (option) strchr :: "memory \<Rightarrow> u32 \<Rightarrow> u8 \<Rightarrow> u32 option option" where
  "strchr m s c = (if m s = 0 then Some None else if m s = c then Some (Some s) else strchr m (s + 1) c)"

definition memset_u :: "u32 \<Rightarrow> u32 \<Rightarrow> u32 \<Rightarrow> memory \<Rightarrow> memory" where
  "memset_u dst c n m = stosb dst (ucast c) (unat n) m"

definition memmove_u :: "u32 \<Rightarrow> u32 \<Rightarrow> int \<Rightarrow> memory \<Rightarrow> memory" where
  "memmove_u vdst vsrc n m = copy_up vdst vsrc (nat n) m"

text \<open>The arithmetic of \<open>atoi\<close> is on \<open>int\<close>, which wraps around at 32 bits.\<close>

partial_function (option) atoi_loop :: "memory \<Rightarrow> u32 \<Rightarrow> u32 \<Rightarrow> u32 option" where
  "atoi_loop m s n =
     (if 0x30 \<le> m s \<and> m s \<le> 0x39 then atoi_loop m (s + 1) (n * 10 + ucast (m s) - 0x30) else Some n)"

definition atoi :: "memory \<Rightarrow> u32 \<Rightarrow> u32 option" where
  "atoi m s = atoi_loop m s 0"

section \<open>Filling\<close>

lemma unat_lt32: "unat (n :: u32) < 2 ^ 32"
  using unsigned_less [where w = n] by simp

lemma unat_of_nat32 [simp]: "n < 2 ^ 32 \<Longrightarrow> unat (of_nat n :: u32) = n"
  by (simp add: unat_of_nat)

lemma unat_eq_of_nat: "n < 2 ^ 32 \<Longrightarrow> unat (x :: u32) = n \<longleftrightarrow> x = of_nat n"
  using unat_of_nat32 [of n] by (auto simp: word_unat_eq_iff)

lemma unat_plus_one: "unat (a - d) < n \<longleftrightarrow> a = d \<or> unat (a - (d + 1)) < n - 1 \<and> a \<noteq> d" if "0 < n" for a d :: u32
proof (cases "a = d")
  case False
  then have "a - d \<noteq> 0" by simp
  then have "unat (a - d) = Suc (unat (a - d - 1))" by (simp add: unat_minus_one word_neq_0_conv [symmetric] unat_gt_0)
  then show ?thesis using False that by (simp add: diff_diff_eq) linarith
qed (use that in simp)

lemma stosb_eq: "n < 2 ^ 32 \<Longrightarrow> stosb d c n m = (\<lambda>a. if unat (a - d) < n then c else m a)"
proof (induction n arbitrary: d m)
  case (Suc n)
  then have "stosb d c (Suc n) m = (\<lambda>a. if unat (a - (d + 1)) < n then c else (m(d := c)) a)" by simp
  also have "\<dots> = (\<lambda>a. if unat (a - d) < Suc n then c else m a)"
    by (rule ext) (simp add: unat_plus_one [of "Suc n"])
  finally show ?case .
qed simp

lemma stosl_eq: "stosl d (word32 c c c c) n m = stosb d c (4 * n) m"
proof (induction n arbitrary: d m)
  case (Suc n)
  have st: "store32 d (word32 c c c c) m = m(d := c, d + 1 := c, d + 2 := c, d + 3 := c)"
    by (simp add: store32_def word32_parts)
  have "stosb d c (4 * Suc n) m = stosb (d + 4) c (4 * n) (m(d := c, d + 1 := c, d + 2 := c, d + 3 := c))"
  proof -
    have "4 * Suc n = Suc (Suc (Suc (Suc (4 * n))))" by simp
    then show ?thesis by (simp only: stosb.simps) (simp add: add.assoc)
  qed
  then show ?case by (simp only: stosl.simps st Suc.IH)
qed simp

lemma mask_0xFF: "(0xFF :: u32) = mask 8"
  by (simp add: mask_eq_exp_minus_1)

lemma memset_word: "push_bit 24 (x AND 0xFF) OR push_bit 16 (x AND 0xFF) OR push_bit 8 (x AND 0xFF) OR (x AND 0xFF) =
    word32 (ucast x) (ucast x) (ucast x) (ucast x)" for x :: u32
proof -
  have "x AND 0xFF = ucast (ucast x :: u8)" unfolding mask_0xFF by (rule bit_word_eqI) (auto simp: bit_simps)
  then show ?thesis unfolding word32_def by (simp only: ac_simps)
qed

lemma memset_eq: "memset dst c n m = (\<lambda>a. if unat (a - dst) < unat n then ucast c else m a)"
proof (cases "dst mod 4 = 0 \<and> n mod 4 = 0")
  case True
  have "unat (n mod 4) = 0" using True by (simp only: unat_0)
  then have "4 * unat (n div 4) = unat n"
    by (simp add: unat_mod_distrib unat_div_distrib dvd_mult_div_cancel mod_0_imp_dvd)
  then have "memset dst c n m = stosb dst (ucast c) (unat n) m"
    using True by (simp only: memset_def Let_def memset_word stosl_eq simp_thms if_True)
  then show ?thesis by (simp only: stosb_eq [OF unat_lt32])
next
  case False
  then show ?thesis by (simp only: memset_def stosb_eq [OF unat_lt32] if_False)
qed

lemma memset_u_eq: "memset_u dst c n m = (\<lambda>a. if unat (a - dst) < unat n then ucast c else m a)"
  by (simp only: memset_u_def stosb_eq [OF unat_lt32])

section \<open>Copying\<close>

lemma copy_up_snoc: "copy_up d s (Suc n) m = (let m' = copy_up d s n m in m'(d + of_nat n := m' (s + of_nat n)))"
proof (induction n arbitrary: d s m)
  case (Suc n)
  show ?case by (subst copy_up.simps(2), subst Suc.IH) (simp add: Let_def add.assoc)
qed simp

lemma copy_down_snoc:
  "copy_down d s (Suc n) m = (let m' = copy_down d s n m in m'(d - of_nat (Suc n) := m' (s - of_nat (Suc n))))"
proof (induction n arbitrary: d s m)
  case (Suc n)
  show ?case by (subst copy_down.simps(2), subst Suc.IH) (simp add: Let_def diff_diff_eq add.assoc)
qed simp

lemma copy_up_eq:
  assumes "n < 2 ^ 32" and "\<And>j. j < n \<Longrightarrow> j \<le> unat (s + of_nat j - d)"
  shows "copy_up d s n m = (\<lambda>a. if unat (a - d) < n then m (s + (a - d)) else m a)"
  using assms
proof (induction n)
  case (Suc n)
  let ?m = "copy_up d s n m"
  have IH: "?m = (\<lambda>a. if unat (a - d) < n then m (s + (a - d)) else m a)" using Suc by simp
  have src: "?m (s + of_nat n) = m (s + of_nat n)" unfolding IH using Suc.prems(2) [of n] by simp
  have "unat (a - d) < Suc n \<longleftrightarrow> unat (a - d) < n \<or> a = d + of_nat n" for a
  proof -
    have "unat (a - d) = n \<longleftrightarrow> a - d = of_nat n" using Suc.prems(1) by (simp add: unat_eq_of_nat)
    then show ?thesis by (auto simp: less_Suc_eq algebra_simps)
  qed
  then show ?case unfolding copy_up_snoc Let_def src unfolding IH by (intro ext) auto
qed simp

lemma copy_down_eq:
  assumes "n < 2 ^ 32" and "\<And>j. j < n \<Longrightarrow> j \<le> unat (d - s + of_nat j)"
  shows "copy_down d s n m = (\<lambda>a. if unat (d - 1 - a) < n then m (s - 1 - (d - 1 - a)) else m a)"
  using assms
proof (induction n)
  case (Suc n)
  let ?m = "copy_down d s n m"
  have IH: "?m = (\<lambda>a. if unat (d - 1 - a) < n then m (s - 1 - (d - 1 - a)) else m a)" using Suc by simp
  have "d - 1 - (s - of_nat (Suc n)) = d - s + of_nat n" by simp
  then have src: "?m (s - of_nat (Suc n)) = m (s - of_nat (Suc n))"
    unfolding IH using Suc.prems(2) [of n] by (simp only:) simp
  have "unat (d - 1 - a) < Suc n \<longleftrightarrow> unat (d - 1 - a) < n \<or> a = d - of_nat (Suc n)" for a
  proof -
    have "unat (d - 1 - a) = n \<longleftrightarrow> d - 1 - a = of_nat n" using Suc.prems(1) by (simp add: unat_eq_of_nat)
    then show ?thesis by (auto simp: less_Suc_eq algebra_simps)
  qed
  moreover have "s - 1 - (d - 1 - (d - of_nat (Suc n))) = s - of_nat (Suc n)" by simp
  ultimately show ?case unfolding copy_down_snoc Let_def src unfolding IH by (intro ext) (auto simp del: of_nat_Suc)
qed simp

lemma unat_mirror: "unat (n - 1 - x) < unat n \<longleftrightarrow> unat x < unat n" for n x :: u32
proof (cases "n = 0")
  case False
  then have n1: "unat (n - 1) = unat n - 1" and n0: "0 < unat n" by (simp_all add: unat_minus_one unat_gt_0)
  show ?thesis
  proof (cases "x \<le> n - 1")
    case True
    then have "unat (n - 1 - x) = unat n - 1 - unat x" by (simp add: unat_sub n1)
    then show ?thesis using True n0 n1 by (auto simp: word_le_nat_alt)
  next
    case f: False
    then have "unat (n - 1 - x) = 2 ^ 32 + unat (n - 1) - unat x"
      by (simp add: unat_sub_if' word_le_nat_alt)
    then show ?thesis using f n0 n1 unat_lt32 [of x] by (simp add: word_le_nat_alt) linarith
  qed
qed simp

lemma unat_forward:
  fixes s d :: u32
  assumes "unat d \<le> unat s \<or> unat s + n \<le> unat d" and "unat s + n < 2 ^ 32" and "j < n"
  shows "j \<le> unat (s + of_nat j - d)"
proof -
  have sj: "unat (s + of_nat j) = unat s + j" using assms by (intro unat_add_of_nat) auto
  show ?thesis
    using assms unat_lt32 [of d] sj by (auto simp: unat_sub_if' word_le_nat_alt)
qed

text \<open>
  C5. \<open>memmove\<close> copies even if the two areas overlap: unless an area reaches past the end of the address
  space, byte \<open>i\<close> of the destination is byte \<open>i\<close> of the source as it was before the call, and every byte
  outside the destination is unchanged.
\<close>

theorem memmove_copies:
  assumes "unat src + unat n < 2 ^ 32" and "unat dst + unat n < 2 ^ 32"
  shows "memmove dst src n m = (\<lambda>a. if unat (a - dst) < unat n then m (src + (a - dst)) else m a)"
proof -
  have sn: "unat (src + n) = unat src + unat n" using assms(1) by (simp add: unat_word_ariths)
  show ?thesis
  proof (cases "src < dst \<and> src + n > dst")
    case True
    then have lt: "unat src < unat dst" by (simp add: word_less_nat_alt)
    have "j \<le> unat (dst + n - (src + n) + of_nat j)" if "j < unat n" for j
    proof -
      have "unat (dst - src) = unat dst - unat src" using lt by (simp add: unat_sub word_le_nat_alt)
      then have "unat (dst - src + of_nat j) = unat dst - unat src + j"
        using that lt assms(2) by (intro trans [OF unat_add_of_nat]) auto
      then show ?thesis by simp
    qed
    then have "memmove dst src n m =
        (\<lambda>a. if unat (dst + n - 1 - a) < unat n then m (src + n - 1 - (dst + n - 1 - a)) else m a)"
      using True copy_down_eq [OF unat_lt32, of n "dst + n" "src + n" m] by (simp only: memmove_def simp_thms if_True)
    also have "\<dots> = (\<lambda>a. if unat (a - dst) < unat n then m (src + (a - dst)) else m a)"
    proof (rule ext)
      fix a
      have "unat (dst + n - 1 - a) < unat n \<longleftrightarrow> unat (a - dst) < unat n"
        using unat_mirror [of n "a - dst"] by (simp add: algebra_simps)
      then show "(if unat (dst + n - 1 - a) < unat n then m (src + n - 1 - (dst + n - 1 - a)) else m a) =
          (if unat (a - dst) < unat n then m (src + (a - dst)) else m a)"
        by (simp add: algebra_simps)
    qed
    finally show ?thesis .
  next
    case False
    then have "unat dst \<le> unat src \<or> unat src + unat n \<le> unat dst"
      by (auto simp: word_less_nat_alt sn)
    then have "j \<le> unat (src + of_nat j - dst)" if "j < unat n" for j
      using that assms by (intro unat_forward) auto
    then show ?thesis
      using False copy_up_eq [OF unat_lt32, of n src dst m] by (simp only: memmove_def if_False)
  qed
qed

theorem memmove_copies_witness:
  "memmove 0x1001 0x1000 4 (\<lambda>a. ucast a) = (\<lambda>a. if unat (a - 0x1001) < 4 then ucast (a - 1) else ucast a)"
proof -
  have "memmove 0x1001 0x1000 4 (\<lambda>a. ucast a) =
      (\<lambda>a. if unat (a - 0x1001) < unat (4 :: u32) then ucast (0x1000 + (a - 0x1001)) else ucast a)"
    by (rule memmove_copies) simp_all
  moreover have "unat (4 :: u32) = 4" "0x1000 + (a - 0x1001) = a - 1" for a :: u32 by simp_all
  ultimately show ?thesis by (simp only:)
qed

section \<open>Terminated strings\<close>

primrec cstr :: "memory \<Rightarrow> u32 \<Rightarrow> u8 list \<Rightarrow> bool" where
  "cstr m s [] \<longleftrightarrow> m s = 0"
| "cstr m s (x # xs) \<longleftrightarrow> x \<noteq> 0 \<and> m s = x \<and> cstr m (s + 1) xs"

lemma cstr_upd:
  "(\<And>j. j \<le> length xs \<Longrightarrow> a \<noteq> s + of_nat j) \<Longrightarrow> cstr (m(a := v)) s xs \<longleftrightarrow> cstr m s xs"
proof (induction xs arbitrary: s)
  case (Cons x xs)
  have "a \<noteq> s" using Cons.prems [of 0] by simp
  moreover have "a \<noteq> s + 1 + of_nat j" if "j \<le> length xs" for j
    using Cons.prems [of "Suc j"] that by (simp add: add.assoc)
  then have "cstr (m(a := v)) (s + 1) xs \<longleftrightarrow> cstr m (s + 1) xs" by (rule Cons.IH)
  ultimately show ?case by (simp only: cstr.simps fun_upd_other not_sym [OF \<open>a \<noteq> s\<close>] simp_thms)
next
  case Nil
  then show ?case using Nil [of 0] by simp
qed

lemma strlen_loop_cstr: "cstr m (s + of_nat n) cs \<Longrightarrow> strlen_loop m s n = Some (n + length cs)"
proof (induction cs arbitrary: n)
  case Nil
  then show ?case by (subst strlen_loop.simps) simp
next
  case (Cons c cs)
  then have "m (s + of_nat n) \<noteq> 0" "cstr m (s + of_nat (Suc n)) cs" by (auto simp: ac_simps)
  then show ?case using Cons.IH [of "Suc n"] by (subst strlen_loop.simps) simp
qed

lemma strlen_cstr: "cstr m s cs \<Longrightarrow> strlen m s = Some (length cs)"
  using strlen_loop_cstr [of m s 0 cs] by (simp add: strlen_def)

lemma strcmp_cstr:
  "cstr m p xs \<Longrightarrow> cstr m q ys \<Longrightarrow> \<exists>r. strcmp m p q = Some r \<and> (r = 0 \<longleftrightarrow> xs = ys)"
proof (induction xs arbitrary: p q ys)
  case Nil
  then show ?case by (subst strcmp.simps, cases ys) (auto simp: word_uint_eq_iff)
next
  case (Cons x xs)
  show ?case
  proof (cases ys)
    case (Cons y ys')
    then show ?thesis
      using Cons.prems Cons.IH [of "p + 1" "q + 1" ys'] by (subst strcmp.simps) (auto simp: word_uint_eq_iff)
  qed (use Cons.prems in \<open>subst strcmp.simps, auto simp: word_uint_eq_iff\<close>)
qed

lemma strncmp_cstr:
  "cstr m p xs \<Longrightarrow> cstr m q ys \<Longrightarrow> strncmp m p q n = 0 \<longleftrightarrow> take n xs = take n ys"
proof (induction n arbitrary: p q xs ys)
  case (Suc n)
  then show ?case by (cases xs; cases ys) (auto simp: word_uint_eq_iff)
qed simp

lemma strchr_cstr:
  "cstr m s xs \<Longrightarrow> strchr m s c = Some (map_option (\<lambda>i. s + of_nat i) (find_index (\<lambda>x. x = c) xs))"
proof (induction xs arbitrary: s)
  case Nil
  then show ?case by (subst strchr.simps) simp
next
  case (Cons x xs)
  then show ?case by (subst strchr.simps) (auto simp: option.map_comp comp_def ac_simps)
qed

text \<open>A copy of at most \<open>n\<close> bytes leaves the bytes outside the area of \<open>n\<close> bytes alone.\<close>

definition only_within :: "u32 \<Rightarrow> nat \<Rightarrow> memory \<Rightarrow> memory \<Rightarrow> bool" where
  "only_within s n m m' \<longleftrightarrow> (\<forall>a. n \<le> unat (a - s) \<longrightarrow> m' a = m a)"

lemma only_within_step:
  assumes "only_within (s + 1) n (m(s := v)) m'" and "Suc n < 2 ^ 32"
  shows "only_within s (Suc n) m m'"
  unfolding only_within_def
proof (intro allI impI)
  fix a assume "Suc n \<le> unat (a - s)"
  then have "\<not> (a = s \<or> unat (a - (s + 1)) < n)" using unat_plus_one [of "Suc n" a s] by auto
  then show "m' a = m a" using assms(1) by (auto simp: only_within_def)
qed

lemma safestrcpy_loop_within:
  "Suc n < 2 ^ 32 \<Longrightarrow> only_within s (Suc n) m (safestrcpy_loop s t n m)"
proof (induction n arbitrary: s t m)
  case 0
  then show ?case by (auto simp: only_within_def)
next
  case (Suc n)
  show ?case
  proof (cases "m t = 0")
    case True
    have "only_within (s + 1) (Suc n) (m(s := m t)) (m(s := m t, s + 1 := 0))" by (auto simp: only_within_def)
    from only_within_step [OF this Suc.prems] True show ?thesis by (simp del: fun_upd_apply add: Let_def fun_upd_same)
  next
    case False
    have "only_within (s + 1) (Suc n) (m(s := m t)) (safestrcpy_loop (s + 1) (t + 1) n (m(s := m t)))"
      by (rule Suc.IH) (use Suc.prems in simp)
    from only_within_step [OF this Suc.prems] False show ?thesis by (simp del: fun_upd_apply add: Let_def fun_upd_same)
  qed
qed


lemma safestrcpy_loop_cstr:
  assumes "cstr m t xs" and "n < 2 ^ 32" and "\<And>i j. i \<le> n \<Longrightarrow> j \<le> length xs \<Longrightarrow> s + of_nat i \<noteq> t + of_nat j"
  shows "cstr (safestrcpy_loop s t n m) s (take n xs)"
  using assms
proof (induction n arbitrary: s t m xs)
  case (Suc n)
  have st: "s + 1 + of_nat i \<noteq> t + 1 + of_nat j" if "i \<le> n" "Suc j \<le> length xs" for i j
    using Suc.prems(3) [of "Suc i" "Suc j"] that by (simp add: ac_simps)
  show ?case
  proof (cases xs)
    case Nil
    then show ?thesis using Suc.prems(1) by (simp add: Let_def)
  next
    case (Cons x ys)
    let ?m = "m(s := m t)"
    have ne: "s \<noteq> t + of_nat j" if "j \<le> length xs" for j using Suc.prems(3) [of 0 j] that by simp
    have "cstr ?m t xs" using cstr_upd [of xs s t m "m t"] ne Suc.prems(1) by blast
    then have c: "cstr ?m (t + 1) ys" and x: "x \<noteq> 0" "m t = x" using Cons Suc.prems(1) by (simp_all del: fun_upd_apply)
    have "cstr (safestrcpy_loop (s + 1) (t + 1) n ?m) (s + 1) (take n ys)"
      by (rule Suc.IH [OF c]) (use Suc.prems(2) st Cons in auto)
    moreover have "safestrcpy_loop (s + 1) (t + 1) n ?m s = x"
    proof -
      have "only_within (s + 1) (Suc n) ?m (safestrcpy_loop (s + 1) (t + 1) n ?m)"
        by (rule safestrcpy_loop_within) (use Suc.prems(2) in simp)
      moreover have "Suc n \<le> unat (s - (s + 1))" using Suc.prems(2) by (simp add: unsigned_minus_1_eq_mask mask_eq_exp_minus_1)
      ultimately show ?thesis using x by (simp add: only_within_def)
    qed
    ultimately show ?thesis using x Cons by (simp del: fun_upd_apply add: Let_def fun_upd_same)
  qed
qed simp

text \<open>
  C6. \<open>safestrcpy\<close> always terminates its result and stays in bounds: for a positive size \<open>n\<close> and a terminated
  source that does not overlap the destination, the destination holds the first \<open>n - 1\<close> bytes of the
  source (all of it, if it is shorter) followed by a zero byte, and no byte outside the \<open>n\<close> bytes changes.
\<close>

theorem safestrcpy_terminated:
  assumes "cstr m t xs" and "0 < n" and "n < 2 ^ 31"
    and "\<And>i j. int i < n \<Longrightarrow> j \<le> length xs \<Longrightarrow> s + of_nat i \<noteq> t + of_nat j"
  shows "cstr (safestrcpy s t n m) s (take (nat n - 1) xs) \<and> only_within s (nat n) m (safestrcpy s t n m)"
proof -
  have n: "nat (n - 1) = nat n - 1" "Suc (nat n - 1) = nat n" "nat n - 1 < 2 ^ 32" "nat n < 2 ^ 32" using assms(2,3) by auto
  have "cstr (safestrcpy_loop s t (nat n - 1) m) s (take (nat n - 1) xs)"
    by (rule safestrcpy_loop_cstr [OF assms(1) n(3)]) (use assms(2,4) in auto)
  moreover have "only_within s (nat n) m (safestrcpy_loop s t (nat n - 1) m)"
    using safestrcpy_loop_within [of "nat n - 1" s m t] n by simp
  ultimately show ?thesis using assms(2) by (simp add: safestrcpy_def n(1))
qed

definition abc_memory :: memory where
  "abc_memory = (\<lambda>_. 0)(0x100 := 0x61, 0x101 := 0x62, 0x102 := 0x63)"

theorem safestrcpy_terminated_witness:
  "cstr (safestrcpy 0x200 0x100 3 abc_memory) 0x200 [0x61, 0x62] \<and>
    only_within 0x200 3 abc_memory (safestrcpy 0x200 0x100 3 abc_memory)"
proof -
  have "(0x200 :: u32) + of_nat i \<noteq> 0x100 + of_nat j" if "int i < 3" "j \<le> length [0x61, 0x62, 0x63 :: u8]" for i j
  proof -
    have "i = 0 \<or> i = 1 \<or> i = 2" "j = 0 \<or> j = 1 \<or> j = 2 \<or> j = 3" using that by auto
    then show ?thesis by auto
  qed
  from safestrcpy_terminated [of abc_memory "0x100" "[0x61, 0x62, 0x63]" 3 "0x200", OF _ _ _ this]
  show ?thesis by (simp add: abc_memory_def)
qed

text \<open>
  C7. \<open>memset\<close>, which stores whole words where address and size allow it, has the effect of the byte-wise
  \<open>memset\<close> of the user library: exactly the \<open>n\<close> bytes from \<open>dst\<close> are set to the low byte of \<open>c\<close>.
\<close>

theorem memset_fills:
  "memset dst c n m = memset_u dst c n m \<and>
   memset dst c n m = (\<lambda>a. if unat (a - dst) < unat n then ucast c else m a)"
  unfolding memset_eq memset_u_eq by simp

end
