(* ===== verification/Mp.thy ===== *)
theory Mp
  imports Spinlock Cstring
begin

text \<open>
  \<open>mp.c\<close>: the search for the tables in which the firmware describes the processors and the I/O interrupt
  controller. The tables are bytes of physical memory; the result is the array \<open>cpus\<close>, the number \<open>ncpu\<close> and
  the addresses of the controllers.
\<close>

section \<open>Tables in memory\<close>

text \<open>
  \<open>pl_mem\<close> is memory at its kernel addresses. What a device answers when a port or a device register is read is any
  function of the number of reads made before and of the writes made before, the latest first.
\<close>

record platform =
  pl_mem :: memory
  pl_cpus :: "cpu list"
  pl_ncpu :: nat
  pl_ioapicid :: u8
  pl_lapic :: u32
  pl_in :: "nat \<Rightarrow> (u16 \<times> u8) list \<Rightarrow> u16 \<Rightarrow> u8"
  pl_out :: "(u16 \<times> u8) list"
  pl_regs :: "nat \<Rightarrow> (u32 \<times> u32) list \<Rightarrow> u32 \<Rightarrow> u32"
  pl_writes :: "(u32 \<times> u32) list"
  pl_reads :: nat
  pl_msgs :: "string list"

type_synonym 'a plat = "(platform, 'a) K"

definition outb :: "u16 \<Rightarrow> u8 \<Rightarrow> unit plat" where
  "outb port v = kmod (\<lambda>s. s\<lparr>pl_out := (port, v) # pl_out s\<rparr>)"

definition inb :: "u16 \<Rightarrow> u8 plat" where
  "inb port =
     kbind (kget (\<lambda>s. pl_in s (pl_reads s) (pl_out s) port)) (\<lambda>v.
     kseq (kmod (\<lambda>s. s\<lparr>pl_reads := pl_reads s + 1\<rparr>))
     (kret v))"

definition reg_write :: "u32 \<Rightarrow> u32 \<Rightarrow> unit plat" where
  "reg_write a v = kmod (\<lambda>s. s\<lparr>pl_writes := (a, v) # pl_writes s\<rparr>)"

definition reg_read :: "u32 \<Rightarrow> u32 plat" where
  "reg_read a =
     kbind (kget (\<lambda>s. pl_regs s (pl_reads s) (pl_writes s) a)) (\<lambda>v.
     kseq (kmod (\<lambda>s. s\<lparr>pl_reads := pl_reads s + 1\<rparr>))
     (kret v))"

definition sizeof_mp :: u32 where "sizeof_mp = 16"

definition mp_physaddr :: "memory \<Rightarrow> u32 \<Rightarrow> u32" where "mp_physaddr m a = load32 m (a + 4)"
definition mp_imcrp :: "memory \<Rightarrow> u32 \<Rightarrow> u8" where "mp_imcrp m a = m (a + 12)"

definition sizeof_mpconf :: u32 where "sizeof_mpconf = 44"

definition mpconf_length :: "memory \<Rightarrow> u32 \<Rightarrow> u16" where
  "mpconf_length m a = ucast (m (a + 4)) OR push_bit 8 (ucast (m (a + 5)))"

definition mpconf_version :: "memory \<Rightarrow> u32 \<Rightarrow> u8" where "mpconf_version m a = m (a + 6)"
definition mpconf_lapicaddr :: "memory \<Rightarrow> u32 \<Rightarrow> u32" where "mpconf_lapicaddr m a = load32 m (a + 36)"

definition sizeof_mpproc :: u32 where "sizeof_mpproc = 20"
definition mpproc_apicid :: "memory \<Rightarrow> u32 \<Rightarrow> u8" where "mpproc_apicid m a = m (a + 1)"

definition sizeof_mpioapic :: u32 where "sizeof_mpioapic = 8"
definition mpioapic_apicno :: "memory \<Rightarrow> u32 \<Rightarrow> u8" where "mpioapic_apicno m a = m (a + 1)"

definition MPPROC :: u8 where "MPPROC = 0"
definition MPBUS :: u8 where "MPBUS = 1"
definition MPIOAPIC :: u8 where "MPIOAPIC = 2"
definition MPIOINTR :: u8 where "MPIOINTR = 3"
definition MPLINTR :: u8 where "MPLINTR = 4"

text \<open>\<open>memcmp\<close> with a string literal of four characters is 0.\<close>

definition signature_at :: "memory \<Rightarrow> u32 \<Rightarrow> string \<Rightarrow> bool" where
  "signature_at m a lit \<longleftrightarrow> map (\<lambda>i. m (a + of_nat i)) [0..<4] = map (\<lambda>c. of_nat (of_char c)) lit"

section \<open>The search\<close>

primrec mp_sum_loop :: "memory \<Rightarrow> u32 \<Rightarrow> nat \<Rightarrow> int \<Rightarrow> int" where
  "mp_sum_loop m a 0 acc = acc"
| "mp_sum_loop m a (Suc n) acc = mp_sum_loop m (a + 1) n (acc + uint (m a))"

definition mp_sum :: "memory \<Rightarrow> u32 \<Rightarrow> nat \<Rightarrow> u8" where
  "mp_sum m a len = of_int (mp_sum_loop m a len 0)"

text \<open>The step divides the length of every area searched, so one round for each step is enough.\<close>

primrec mpsearch1_loop :: "nat \<Rightarrow> memory \<Rightarrow> u32 \<Rightarrow> u32 \<Rightarrow> u32" where
  "mpsearch1_loop 0 m p e = 0"
| "mpsearch1_loop (Suc f) m p e =
     (if p < e then
        if signature_at m p ''_MP_'' \<and> mp_sum m p (unat sizeof_mp) = 0 then p
        else mpsearch1_loop f m (p + sizeof_mp) e
      else 0)"

definition mpsearch1 :: "memory \<Rightarrow> u32 \<Rightarrow> u32 \<Rightarrow> u32" where
  "mpsearch1 m a len =
     (let addr = P2V a; e = addr + len in mpsearch1_loop (unat (len div sizeof_mp)) m addr e)"

definition mpsearch :: "memory \<Rightarrow> u32" where
  "mpsearch m =
     (let bda = P2V 0x400;
          p = push_bit 4 (push_bit 8 (ucast (m (bda + 0x0F))) OR ucast (m (bda + 0x0E))) :: u32;
          q = (push_bit 8 (ucast (m (bda + 0x14))) OR ucast (m (bda + 0x13))) * 1024 :: u32;
          mp = (if p \<noteq> 0 then mpsearch1 m p 1024 else mpsearch1 m (q - 1024) 1024)
      in if mp \<noteq> 0 then mp else mpsearch1 m 0xF0000 0x10000)"

text \<open>The result is the floating pointer and the configuration table.\<close>

definition mpconfig :: "memory \<Rightarrow> (u32 \<times> u32) option" where
  "mpconfig m =
     (let mp = mpsearch m in
      if mp = 0 \<or> mp_physaddr m mp = 0 then None
      else
        let conf = P2V (mp_physaddr m mp) in
        if \<not> signature_at m conf ''PCMP'' then None
        else if mpconf_version m conf \<noteq> 1 \<and> mpconf_version m conf \<noteq> 4 then None
        else if mp_sum m conf (unat (mpconf_length m conf)) \<noteq> 0 then None
        else Some (mp, conf))"

section \<open>Reading the configuration\<close>

definition add_cpu :: "u8 \<Rightarrow> platform \<Rightarrow> platform" where
  "add_cpu i s =
     (if pl_ncpu s < NCPU
      then s\<lparr>pl_cpus := (pl_cpus s)[pl_ncpu s := (pl_cpus s ! pl_ncpu s)\<lparr>apicid := i\<rparr>], pl_ncpu := pl_ncpu s + 1\<rparr>
      else s)"

text \<open>
  The loop over the entries. The \<open>break\<close> of the default case leaves the \<open>switch\<close> and not the loop, which goes on
  with the same \<open>p\<close> and never ends. Every other round moves \<open>p\<close> by at least 8, so that a table of \<open>length\<close>
  bytes below the end of memory has fewer rounds than \<open>length\<close>.
\<close>

primrec mpinit_loop :: "nat \<Rightarrow> u32 \<Rightarrow> u32 \<Rightarrow> unit plat" where
  "mpinit_loop 0 p e = kstop Spin"
| "mpinit_loop (Suc f) p e =
     (if p < e then
        kbind (kget pl_mem) (\<lambda>m.
        if m p = MPPROC then
          kseq (kmod (add_cpu (mpproc_apicid m p))) (mpinit_loop f (p + sizeof_mpproc) e)
        else if m p = MPIOAPIC then
          kseq (kmod (\<lambda>s. s\<lparr>pl_ioapicid := mpioapic_apicno m p\<rparr>)) (mpinit_loop f (p + sizeof_mpioapic) e)
        else if m p = MPBUS \<or> m p = MPIOINTR \<or> m p = MPLINTR then mpinit_loop f (p + 8) e
        else kstop Spin)
      else kret ())"

text \<open>
  The test of \<open>ismp\<close> after the loop is not reached with \<open>ismp = 0\<close>.
\<close>

definition mpinit :: "unit plat" where
  "mpinit =
     kbind (kget (\<lambda>s. mpconfig (pl_mem s))) (\<lambda>r.
     case r of
       None \<Rightarrow> panic ''Expect to run on an SMP''
     | Some (mp, conf) \<Rightarrow>
         kbind (kget pl_mem) (\<lambda>m.
         kseq (kmod (\<lambda>s. s\<lparr>pl_lapic := mpconf_lapicaddr m conf\<rparr>)) (
         kseq (mpinit_loop (Suc (unat (mpconf_length m conf))) (conf + sizeof_mpconf) (conf + ucast (mpconf_length m conf)))
         (kwhen (mp_imcrp m mp \<noteq> 0) (
            kseq (outb 0x22 0x70) (
            kbind (inb 0x23) (\<lambda>v.
            outb 0x23 (v OR 1))))))))"

section \<open>What mpinit finds\<close>

datatype mpentry = EProc u8 | EIoapic u8 | EOther u8

fun entry_size :: "mpentry \<Rightarrow> nat" where
  "entry_size (EProc i) = 20"
| "entry_size (EIoapic i) = 8"
| "entry_size (EOther k) = 8"

fun entry_at :: "memory \<Rightarrow> u32 \<Rightarrow> mpentry \<Rightarrow> bool" where
  "entry_at m p (EProc i) \<longleftrightarrow> m p = MPPROC \<and> m (p + 1) = i"
| "entry_at m p (EIoapic i) \<longleftrightarrow> m p = MPIOAPIC \<and> m (p + 1) = i"
| "entry_at m p (EOther k) \<longleftrightarrow> m p = k \<and> k \<in> {MPBUS, MPIOINTR, MPLINTR}"

text \<open>The memory from \<open>p\<close> up to \<open>q\<close> is a sequence of entries.\<close>

fun entries_at :: "memory \<Rightarrow> u32 \<Rightarrow> mpentry list \<Rightarrow> u32 \<Rightarrow> bool" where
  "entries_at m p [] q \<longleftrightarrow> p = q"
| "entries_at m p (x # xs) q \<longleftrightarrow>
     unat p + entry_size x \<le> unat q \<and> entry_at m p x \<and> entries_at m (p + of_nat (entry_size x)) xs q"

fun proc_ids :: "mpentry list \<Rightarrow> u8 list" where
  "proc_ids [] = []"
| "proc_ids (EProc i # xs) = i # proc_ids xs"
| "proc_ids (x # xs) = proc_ids xs"

fun note_entry :: "mpentry \<Rightarrow> platform \<Rightarrow> platform" where
  "note_entry (EProc i) s = add_cpu i s"
| "note_entry (EIoapic i) s = s\<lparr>pl_ioapicid := i\<rparr>"
| "note_entry (EOther k) s = s"

lemma note_entry_mem [simp]: "pl_mem (note_entry x s) = pl_mem s"
  by (cases x) (simp_all add: add_cpu_def)


lemma entries_length: "entries_at m p es q \<Longrightarrow> unat p + 8 * length es \<le> unat q"
proof (induction es arbitrary: p)
  case (Cons x es)
  have "8 \<le> entry_size x" by (cases x) simp_all
  moreover have "unat p + entry_size x < 2 ^ 32" using Cons.prems unat_lt32 [of q] by (auto intro: le_less_trans)
  ultimately show ?case using Cons by (fastforce simp: unat_add_of_nat)
qed simp

lemma mpinit_loop_entry:
  assumes "entry_at (pl_mem s) p x" and "p < e"
  shows "mpinit_loop (Suc f) p e s = mpinit_loop f (p + of_nat (entry_size x)) e (note_entry x s)"
  using assms
  by (cases x) (auto simp: MPPROC_def MPIOAPIC_def MPBUS_def MPIOINTR_def MPLINTR_def mpproc_apicid_def
      mpioapic_apicno_def sizeof_mpproc_def sizeof_mpioapic_def)

lemma mpinit_loop_entries:
  "entries_at (pl_mem s) p es q \<Longrightarrow> q \<le> e \<Longrightarrow>
   mpinit_loop (length es + f) p e s = mpinit_loop f q e (fold note_entry es s)"
proof (induction es arbitrary: p s)
  case (Cons x es)
  have "0 < entry_size x" by (cases x) simp_all
  with Cons.prems have lt: "p < e" by (simp add: word_less_nat_alt word_le_nat_alt)
  have "entries_at (pl_mem (note_entry x s)) (p + of_nat (entry_size x)) es q" using Cons.prems by simp
  from Cons.IH [OF this Cons.prems(2)] mpinit_loop_entry [of s p x e, OF _ lt] Cons.prems(1) show ?case by simp
qed simp

lemma mpinit_loop_end: "\<not> p < e \<Longrightarrow> mpinit_loop (Suc f) p e s = Inr ((), s)"
  by simp

text \<open>The processors found, in the order of the table and at most \<open>NCPU\<close> of them.\<close>

definition cpu_ids :: "platform \<Rightarrow> u8 list" where
  "cpu_ids s = map apicid (take (pl_ncpu s) (pl_cpus s))"

lemma add_cpu_ids:
  assumes "length (pl_cpus s) = NCPU" and "pl_ncpu s \<le> NCPU"
  shows "cpu_ids (add_cpu i s) = take NCPU (cpu_ids s @ [i])"
    and "length (pl_cpus (add_cpu i s)) = NCPU" and "pl_ncpu (add_cpu i s) \<le> NCPU"
    and "pl_ncpu (add_cpu i s) = length (cpu_ids (add_cpu i s))"
  using assms by (auto simp: cpu_ids_def add_cpu_def take_Suc_conv_app_nth min_def)

lemma note_entries_ids:
  "length (pl_cpus s) = NCPU \<Longrightarrow> pl_ncpu s \<le> NCPU \<Longrightarrow>
   cpu_ids (fold note_entry es s) = take NCPU (cpu_ids s @ proc_ids es) \<and>
   length (pl_cpus (fold note_entry es s)) = NCPU \<and> pl_ncpu (fold note_entry es s) \<le> NCPU"
proof (induction es arbitrary: s)
  case Nil
  then show ?case by (simp add: cpu_ids_def)
next
  case (Cons x es)
  show ?case
  proof (cases x)
    case (EProc i)
    note a = add_cpu_ids [OF Cons.prems, of i]
    have "take NCPU (take NCPU (cpu_ids s @ [i]) @ proc_ids es) = take NCPU (cpu_ids s @ i # proc_ids es)"
      by (simp add: min_def take_append) (simp add: take_Cons' )
    with Cons.IH [OF a(2,3)] EProc show ?thesis by (simp add: a(1))
  next
    case (EIoapic i)
    with Cons.IH [of "s\<lparr>pl_ioapicid := i\<rparr>"] Cons.prems show ?thesis by (simp add: cpu_ids_def)
  next
    case (EOther k)
    with Cons.IH [OF Cons.prems] show ?thesis by simp
  qed
qed

lemma unat_u16: "unat (ucast (x :: u16) :: u32) = unat x"
proof -
  have "unat x < 65536" using unsigned_less [where w = x] by simp
  then show ?thesis by (simp add: unsigned_ucast_eq take_bit_nat_eq_self_iff)
qed

lemma entries_fuel:
  assumes tab: "entries_at m (conf + sizeof_mpconf) es q" and q: "q \<le> conf + ucast (mpconf_length m conf)"
    and top: "unat conf + unat (mpconf_length m conf) < 2 ^ 32" "44 \<le> unat (mpconf_length m conf)"
  shows "\<exists>f. Suc (unat (mpconf_length m conf)) = length es + Suc f"
proof -
  have "unat (conf + ucast (mpconf_length m conf)) = unat conf + unat (mpconf_length m conf)"
    using top by (simp add: unat_word_ariths unat_u16)
  moreover have "unat (conf + sizeof_mpconf) + 8 * length es \<le> unat q" by (rule entries_length [OF tab])
  moreover have "unat (conf + sizeof_mpconf) = unat conf + 44"
    using top by (simp add: unat_word_ariths sizeof_mpconf_def)
  ultimately have "length es \<le> unat (mpconf_length m conf)" using q by (simp add: word_le_nat_alt)
  then show ?thesis by (metis add_Suc_right le_iff_add)
qed

lemma mycpu_by_id:
  assumes "distinct (map apicid (cpus (hw k)))" and "i < length (cpus (hw k))" and "\<not> ifl (hw k)"
    and "lapicid (hw k) = apicid (cpus (hw k) ! i)"
  shows "mycpu k = Inr (i, k)"
proof -
  have "apicid (cpus (hw k) ! j) \<noteq> apicid (cpus (hw k) ! i)" if "j < i" for j
    using assms(1,2) that by (auto simp: distinct_conv_nth)
  then have "this_cpu (hw k) = Some i" using assms(2,4) by (simp add: this_cpu_def find_index_Some_iff)
  with assms(3) show ?thesis by (simp add: mycpu_def readeflags_def)
qed

text \<open>
  C25. The processors of a machine: for a configuration table that consists of entries of the five known
  types, \<open>mpinit\<close> returns, and \<open>cpus\<close> holds the identifiers of the processor entries in the order of the
  table, the first \<open>NCPU\<close> of them. On the processor of entry \<open>i\<close>, \<open>mycpu\<close> then finds index \<open>i\<close>.
\<close>

theorem mpinit_finds_cpus:
  assumes conf: "mpconfig (pl_mem s) = Some (mp, conf)"
    and tab: "entries_at (pl_mem s) (conf + sizeof_mpconf) es (conf + ucast (mpconf_length (pl_mem s) conf))"
    and top: "unat conf + unat (mpconf_length (pl_mem s) conf) < 2 ^ 32" "44 \<le> unat (mpconf_length (pl_mem s) conf)"
    and s: "length (pl_cpus s) = NCPU" "pl_ncpu s = 0"
  shows "\<exists>t. mpinit s = Inr ((), t) \<and> cpu_ids t = take NCPU (proc_ids es) \<and> pl_ncpu t = length (cpu_ids t) \<and>
     (\<forall>k i. distinct (cpu_ids t) \<and> i < length (cpu_ids t) \<and> \<not> ifl (hw k) \<and>
        cpus (hw k) = take (pl_ncpu t) (pl_cpus t) \<and> lapicid (hw k) = cpu_ids t ! i \<longrightarrow> mycpu k = Inr (i, k))"
proof -
  let ?m = "pl_mem s"
  let ?len = "mpconf_length ?m conf" and ?p = "conf + sizeof_mpconf" and ?e = "conf + ucast (mpconf_length (pl_mem s) conf)"
  let ?s = "s\<lparr>pl_lapic := mpconf_lapicaddr ?m conf\<rparr>"
  let ?u = "fold note_entry es ?s"
  obtain f where f: "Suc (unat ?len) = length es + Suc f" using entries_fuel [OF tab _ top] by auto
  have run: "mpinit_loop (Suc (unat ?len)) ?p ?e ?s = Inr ((), ?u)"
    unfolding f using mpinit_loop_entries [of ?s ?p es ?e ?e "Suc f"] tab by (simp add: mpinit_loop_end del: mpinit_loop.simps)
  have ids: "cpu_ids ?u = take NCPU (proc_ids es)" "length (pl_cpus ?u) = NCPU" "pl_ncpu ?u \<le> NCPU"
    using note_entries_ids [of ?s es] s by (simp_all add: cpu_ids_def)
  obtain t where t: "mpinit s = Inr ((), t)" "pl_cpus t = pl_cpus ?u" "pl_ncpu t = pl_ncpu ?u"
    using conf run by (cases "mp_imcrp ?m mp = 0") (simp_all add: mpinit_def outb_def inb_def del: mpinit_loop.simps)
  then have c: "cpu_ids t = cpu_ids ?u" by (simp add: cpu_ids_def)
  have n: "pl_ncpu t = length (cpu_ids t)" using ids(2,3) t by (simp add: cpu_ids_def)
  have my: "mycpu k = Inr (i, k)" if "distinct (cpu_ids t)" "i < length (cpu_ids t)" "\<not> ifl (hw k)"
    "cpus (hw k) = take (pl_ncpu t) (pl_cpus t)" "lapicid (hw k) = cpu_ids t ! i" for k i
    by (rule mycpu_by_id) (use that in \<open>simp_all add: cpu_ids_def\<close>)
  show ?thesis using t(1) c n my ids by auto
qed

text \<open>A list of bytes at an address.\<close>

definition block_at :: "memory \<Rightarrow> u32 \<Rightarrow> u8 list \<Rightarrow> bool" where
  "block_at m a bs \<longleftrightarrow> (\<forall>i < length bs. m (a + of_nat i) = bs ! i)"

lemma mp_sum_loop_block: "block_at m a bs \<Longrightarrow> of_int (mp_sum_loop m a (length bs) acc) = (of_int acc + sum_list bs :: u8)"
proof (induction bs arbitrary: a acc)
  case (Cons b bs)
  have "m a = b" using Cons.prems by (auto simp: block_at_def)
  moreover have "block_at m (a + 1) bs"
    unfolding block_at_def
  proof (intro allI impI)
    fix i assume "i < length bs"
    with Cons.prems have "m (a + of_nat (Suc i)) = (b # bs) ! Suc i" unfolding block_at_def by (metis length_Cons Suc_less_eq)
    then show "m (a + 1 + of_nat i) = bs ! i" by (simp add: add_ac)
  qed
  ultimately show ?case using Cons.IH by simp
qed simp

lemma mp_sum_block: "block_at m a bs \<Longrightarrow> n = length bs \<Longrightarrow> mp_sum m a n = sum_list bs"
  by (simp add: mp_sum_def mp_sum_loop_block)

lemma block_byte: "block_at m a bs \<Longrightarrow> unat (x - a) < length bs \<Longrightarrow> m x = bs ! unat (x - a)"
  by (drule block_at_def [THEN iffD1, THEN spec, of _ _ _ "unat (x - a)"]) simp

lemma signature_block:
  "block_at m a bs \<Longrightarrow> 4 \<le> length bs \<Longrightarrow> take 4 bs = map (\<lambda>c. of_nat (of_char c)) lit \<Longrightarrow> signature_at m a lit"
  unfolding signature_at_def block_at_def
  by (erule subst [of "take 4 bs"], rule nth_equalityI) simp_all

definition mem_with :: "(u32 \<times> u8 list) list \<Rightarrow> memory" where
  "mem_with rs x = foldr (\<lambda>(b, bs) r. if unat (x - b) < length bs then bs ! unat (x - b) else r) rs 0"

lemma mem_with_head: "length bs < 2 ^ 32 \<Longrightarrow> block_at (mem_with ((b, bs) # rs)) b bs"
  by (auto simp: block_at_def mem_with_def unat_of_nat)

lemma mem_with_next:
  assumes "block_at (mem_with rs) a cs" and "length bs \<le> unat (a - b)" and "unat (a - b) + length cs < 2 ^ 32"
  shows "block_at (mem_with ((b, bs) # rs)) a cs"
proof -
  have "unat (a + of_nat i - b) = unat (a - b) + i" if "i < length cs" for i
    using unat_add_of_nat [of "a - b" i] assms(3) that by (simp add: algebra_simps)
  with assms show ?thesis by (simp add: block_at_def mem_with_def)
qed

definition mp_bytes :: "u8 list" where
  "mp_bytes =
     [95, 77, 80, 95, 0, 253, 9, 0, 1, 4, 154, 0, 0, 0, 0, 0]"

definition conf_bytes :: "u8 list" where
  "conf_bytes =
     [80, 67, 77, 80, 100, 0, 4, 112, 0, 0, 0, 0, 0, 0, 0, 0, 0, 0, 0, 0, 0, 0, 0, 0, 0, 0, 0, 0, 0, 0, 0, 0,
     0, 0, 4, 0, 0, 0, 224, 254, 0, 0, 0, 0, 0, 3, 0, 0, 0, 0, 0, 0, 0, 0, 0, 0, 0, 0, 0, 0, 0, 0, 0, 0, 0, 7,
     0, 0, 0, 0, 0, 0, 0, 0, 0, 0, 0, 0, 0, 0, 0, 0, 0, 0, 1, 0, 0, 0, 0, 0, 0, 0, 2, 9, 0, 0, 0, 0, 0, 0]"


definition mp_regions :: "u8 list \<Rightarrow> (u32 \<times> u8 list) list" where
  "mp_regions conf = [(P2V 0x40E, [0xC0, 0x9F]), (P2V 0x9FC00, mp_bytes), (P2V 0x9FD00, conf)]"

definition mp_machine :: "u8 list \<Rightarrow> platform" where
  "mp_machine conf =
     \<lparr>pl_mem = mem_with (mp_regions conf), pl_cpus = replicate NCPU (hd (cpus zero_hw)), pl_ncpu = 0, pl_ioapicid = 0,
      pl_lapic = 0, pl_in = (\<lambda>_ _ _. 0), pl_out = [], pl_regs = (\<lambda>_ _ _. 0), pl_writes = [], pl_reads = 0, pl_msgs = []\<rparr>"

lemma mp_machine_blocks:
  assumes "length conf = 100"
  shows "block_at (pl_mem (mp_machine conf)) 0x8000040E [0xC0, 0x9F]"
    and "block_at (pl_mem (mp_machine conf)) 0x8009FC00 mp_bytes"
    and "block_at (pl_mem (mp_machine conf)) 0x8009FD00 conf"
proof -
  note d = mp_machine_def mp_regions_def P2V_def KERNBASE_def
  have n: "length mp_bytes = 16" by (simp add: mp_bytes_def)
  show "block_at (pl_mem (mp_machine conf)) 0x8000040E [0xC0, 0x9F]"
    unfolding d by (simp add: mem_with_head)
  show "block_at (pl_mem (mp_machine conf)) 0x8009FC00 mp_bytes"
    unfolding d by simp (intro mem_with_next mem_with_head; simp add: n)
  show "block_at (pl_mem (mp_machine conf)) 0x8009FD00 conf"
    unfolding d by simp (intro mem_with_next mem_with_head; simp add: n assms)
qed

lemma mpsearch1_first:
  "p < e \<Longrightarrow> signature_at m p ''_MP_'' \<Longrightarrow> mp_sum m p (unat sizeof_mp) = 0 \<Longrightarrow> mpsearch1_loop (Suc f) m p e = p"
  by simp

lemma mp_machine_search:
  assumes "length conf = 100"
  shows "mpsearch (pl_mem (mp_machine conf)) = 0x8009FC00"
proof -
  let ?m = "pl_mem (mp_machine conf)"
  note b = mp_machine_blocks [OF assms]
  have w: "?m 0x8000040E = 0xC0" "?m 0x8000040F = 0x9F"
    using block_byte [OF b(1), of "0x8000040E"] block_byte [OF b(1), of "0x8000040F"] by simp_all
  have "signature_at ?m 0x8009FC00 ''_MP_''"
    by (rule signature_block [OF b(2)]) (simp_all add: mp_bytes_def)
  moreover have "mp_sum ?m 0x8009FC00 (unat sizeof_mp) = 0"
    using mp_sum_block [OF b(2), of 16] by (simp add: mp_bytes_def sizeof_mp_def)
  ultimately have "mpsearch1 ?m 0x9FC00 1024 = 0x8009FC00"
    using mpsearch1_first [of "0x8009FC00" "0x8009FC00 + 1024" ?m 63]
    by (simp add: mpsearch1_def P2V_def KERNBASE_def sizeof_mp_def)
  then show ?thesis using w by (simp add: mpsearch_def P2V_def KERNBASE_def)
qed

lemma mp_machine_fields: "length (pl_cpus (mp_machine c)) = NCPU" "pl_ncpu (mp_machine c) = 0"
  by (simp_all add: mp_machine_def)

lemma mp_machine_config:
  assumes "length conf = 100" and "take 8 conf = [80, 67, 77, 80, 100, 0, 4, c]" and "sum_list conf = 0"
  shows "mpconfig (pl_mem (mp_machine conf)) = Some (0x8009FC00, 0x8009FD00)"
    and "mpconf_length (pl_mem (mp_machine conf)) 0x8009FD00 = 100"
proof -
  let ?m = "pl_mem (mp_machine conf)"
  note b = mp_machine_blocks [OF assms(1)]
  have c: "conf ! i = [80, 67, 77, 80, 100, 0, 4, c] ! i" if "i < 8" for i
    using assms(2) that by (metis nth_take)
  have "load32 ?m 0x8009FC04 = 0x0009FD00"
    using block_byte [OF b(2), of "0x8009FC04"] block_byte [OF b(2), of "0x8009FC05"] block_byte [OF b(2), of "0x8009FC06"]
      block_byte [OF b(2), of "0x8009FC07"]
    by (simp add: mp_bytes_def load32_def word32_def)
  moreover have "signature_at ?m 0x8009FD00 ''PCMP''"
  proof (rule signature_block [OF b(3)])
    have "take 4 conf = take 4 (take 8 conf)" by simp
    then show "take 4 conf = map (\<lambda>c. of_nat (of_char c)) ''PCMP''" unfolding assms(2) by simp
  qed (simp add: assms(1))
  moreover have "?m 0x8009FD06 = 4" using block_byte [OF b(3), of "0x8009FD06"] c [of 6] assms(1) by simp
  moreover have len: "mpconf_length ?m 0x8009FD00 = 100"
    using block_byte [OF b(3), of "0x8009FD04"] block_byte [OF b(3), of "0x8009FD05"] c [of 4] c [of 5] assms(1)
    by (simp add: mpconf_length_def)
  moreover have "mp_sum ?m 0x8009FD00 100 = 0" using mp_sum_block [OF b(3), of 100] assms(1,3) by simp
  ultimately show "mpconfig ?m = Some (0x8009FC00, 0x8009FD00)"
    by (simp add: mpconfig_def mp_machine_search [OF assms(1)] mp_physaddr_def mpconf_version_def P2V_def KERNBASE_def)
  show "mpconf_length ?m 0x8009FD00 = 100" by (rule len)
qed
theorem mpinit_finds_cpus_witness:
  "\<exists>t. mpinit (mp_machine conf_bytes) = Inr ((), t) \<and> cpu_ids t = [3, 7]"
proof -
  let ?m = "pl_mem (mp_machine conf_bytes)" and ?c = "0x8009FD00"
  let ?es = "[EProc 3, EProc 7, EOther MPBUS, EIoapic 9]"
  have n: "length conf_bytes = 100" "take 8 conf_bytes = [80, 67, 77, 80, 100, 0, 4, 112]" "sum_list conf_bytes = 0"
    by (simp_all add: conf_bytes_def)
  note c = mp_machine_config [OF n] and b = block_byte [OF mp_machine_blocks(3) [OF n(1)]]
  have m: "?m 0x8009FD2C = 0" "?m 0x8009FD2D = 3" "?m 0x8009FD40 = 0" "?m 0x8009FD41 = 7" "?m 0x8009FD54 = 1"
    "?m 0x8009FD5C = 2" "?m 0x8009FD5D = 9"
    using b [of "0x8009FD2C"] b [of "0x8009FD2D"] b [of "0x8009FD40"] b [of "0x8009FD41"] b [of "0x8009FD54"]
      b [of "0x8009FD5C"] b [of "0x8009FD5D"] n(1)
    by (simp_all add: conf_bytes_def)
  have "entries_at ?m (?c + sizeof_mpconf) ?es (?c + ucast (mpconf_length ?m ?c))"
    unfolding c(2) using m by (simp add: sizeof_mpconf_def MPPROC_def MPBUS_def MPIOAPIC_def)
  from mpinit_finds_cpus [OF c(1) this _ _ mp_machine_fields] obtain t where
    "mpinit (mp_machine conf_bytes) = Inr ((), t)" "cpu_ids t = take NCPU (proc_ids ?es)"
    unfolding c(2) by auto
  then show ?thesis by (simp add: NCPU_def)
qed


end
