(* ===== verification/Sched.thy ===== *)
theory Sched
  imports Spinlock
begin

text \<open>
  Giving up and getting back the CPU: \<open>sched\<close>, \<open>yield\<close>, \<open>sleep\<close>, \<open>wakeup\<close>, \<open>kill\<close> and the scheduler loop of
  \<open>proc.c\<close>, with \<open>switchuvm\<close> and \<open>switchkvm\<close> of \<open>vm.c\<close>. A call to \<open>swtch\<close> ends the run of the code that
  makes it (outcome \<open>Switch\<close>); what a function does after its \<open>swtch\<close> or \<open>sched\<close> returns is a
  definition of its own, \<open>sched_resume\<close>, \<open>sleep_resume\<close> and \<open>yield_resume\<close>.
\<close>

section \<open>Address-space switches\<close>

definition switchkvm :: "unit kern" where
  "switchkvm =
     kbind mycpu (\<lambda>c.
     kbind (kget (\<lambda>s. km_kpgdir (kmem s))) (\<lambda>d.
     kmod (upd_cpu c (\<lambda>k. k\<lparr>cpu_cr3 := V2P d\<rparr>))))"

definition switchuvm :: "nat option \<Rightarrow> unit kern" where
  "switchuvm po =
     (case po of None \<Rightarrow> panic ''switchuvm: no process''
      | Some p \<Rightarrow>
        kbind (kget (\<lambda>s. proc_at s p)) (\<lambda>pr.
        if p_kstack pr = 0 then panic ''switchuvm: no kstack''
        else if p_pgdir pr = 0 then panic ''switchuvm: no pgdir''
        else kseq pushcli (
          kbind mycpu (\<lambda>c.
          kseq (kmod (upd_cpu c (\<lambda>k. k\<lparr>cpu_esp0 := p_kstack pr + KSTACKSIZE\<rparr>))) (
          kseq (kmod (upd_cpu c (\<lambda>k. k\<lparr>cpu_cr3 := V2P (p_pgdir pr)\<rparr>)))
          popcli)))))"

section \<open>sched, yield and sleep\<close>

definition null_check :: "nat option \<Rightarrow> nat kern" where
  "null_check po = (case po of None \<Rightarrow> kstop (Fault ''null pointer'') | Some p \<Rightarrow> kret p)"

definition sched :: "unit kern" where
  "sched =
     kbind myproc (\<lambda>po.
     kbind (holding LPtable) (\<lambda>h.
     if \<not> h then panic ''sched ptable.lock''
     else kbind mycpu (\<lambda>c.
       kbind (kget (\<lambda>s. ncli (cpus (hw s) ! c))) (\<lambda>n.
       if n \<noteq> 1 then panic ''sched locks''
       else kbind (null_check po) (\<lambda>p.
         kbind (kget (\<lambda>s. p_state (proc_at s p))) (\<lambda>st.
         if st = RUNNING then panic ''sched running''
         else kbind readeflags (\<lambda>f.
           if f then panic ''sched interruptible''
           else (\<lambda>s. Inl (Switch s)))))))))"

definition sched_resume :: "bool \<Rightarrow> unit kern" where
  "sched_resume ie = kbind mycpu (\<lambda>c. kmod (upd_cpu c (\<lambda>k. k\<lparr>intena := ie\<rparr>)))"

definition yield :: "unit kern" where
  "yield =
     kseq (acquire LPtable) (
     kbind myproc (\<lambda>po.
     kbind (null_check po) (\<lambda>p.
     kseq (kmod (upd_proc p (\<lambda>r. r\<lparr>p_state := RUNNABLE\<rparr>)))
     sched)))"

definition yield_resume :: "bool \<Rightarrow> unit kern" where
  "yield_resume ie = kseq (sched_resume ie) (release LPtable)"

definition sleep :: "chan \<Rightarrow> lockid \<Rightarrow> unit kern" where
  "sleep ch lk =
     kbind myproc (\<lambda>po.
     case po of None \<Rightarrow> panic ''sleep''
     | Some p \<Rightarrow>
       kseq (kwhen (lk \<noteq> LPtable) (kseq (acquire LPtable) (release lk))) (
       kseq (kmod (upd_proc p (\<lambda>r. r\<lparr>p_chan := Some ch\<rparr>))) (
       kseq (kmod (upd_proc p (\<lambda>r. r\<lparr>p_state := SLEEPING\<rparr>)))
       sched)))"

definition sleep_resume :: "bool \<Rightarrow> nat \<Rightarrow> lockid \<Rightarrow> unit kern" where
  "sleep_resume ie p lk =
     kseq (sched_resume ie) (
     kseq (kmod (upd_proc p (\<lambda>r. r\<lparr>p_chan := None\<rparr>)))
     (kwhen (lk \<noteq> LPtable) (kseq (release LPtable) (acquire lk))))"

section \<open>wakeup and kill\<close>

definition wakeup_proc :: "chan \<Rightarrow> proc \<Rightarrow> proc" where
  "wakeup_proc ch r =
     (if p_state r = SLEEPING \<and> p_chan r = Some ch then r\<lparr>p_state := RUNNABLE\<rparr> else r)"

definition wakeup1 :: "chan \<Rightarrow> unit kern" where
  "wakeup1 ch = kmod (\<lambda>s. s\<lparr>pt := (pt s)\<lparr>procs := map (wakeup_proc ch) (procs (pt s))\<rparr>\<rparr>)"

definition wakeup :: "chan \<Rightarrow> unit kern" where
  "wakeup ch = kseq (acquire LPtable) (kseq (wakeup1 ch) (release LPtable))"

definition kill_proc :: "proc \<Rightarrow> proc" where
  "kill_proc r =
     (let r' = r\<lparr>p_killed := True\<rparr>
      in if p_state r' = SLEEPING then r'\<lparr>p_state := RUNNABLE\<rparr> else r')"

definition kill :: "int \<Rightarrow> int kern" where
  "kill pid =
     kseq (acquire LPtable) (
     kbind (kget (\<lambda>s. find_index (\<lambda>r. p_pid r = pid) (procs (pt s)))) (\<lambda>po.
     case po of
       Some p \<Rightarrow> kseq (kmod (upd_proc p kill_proc)) (kseq (release LPtable) (kret 0))
     | None \<Rightarrow> kseq (release LPtable) (kret (- 1))))"

section \<open>The scheduler loop\<close>

text \<open>
  One round of \<open>scheduler\<close> is: \<open>sti\<close>, take \<open>ptable.lock\<close>, then for each runnable process in table
  order switch to it and, when it switches back, forget it; then drop the lock.
\<close>

definition scheduler_next :: "kstate \<Rightarrow> nat \<Rightarrow> nat option" where
  "scheduler_next s i =
     map_option (\<lambda>j. i + j) (find_index (\<lambda>r. p_state r = RUNNABLE) (drop i (procs (pt s))))"

definition scheduler_begin :: "unit kern" where
  "scheduler_begin = kseq sti (acquire LPtable)"

definition scheduler_dispatch :: "nat \<Rightarrow> unit kern" where
  "scheduler_dispatch p =
     kbind mycpu (\<lambda>c.
     kseq (kmod (upd_cpu c (\<lambda>k. k\<lparr>cpu_proc := Some p\<rparr>))) (
     kseq (switchuvm (Some p))
     (kmod (upd_proc p (\<lambda>r. r\<lparr>p_state := RUNNING\<rparr>)))))"

definition scheduler_return :: "unit kern" where
  "scheduler_return =
     kseq switchkvm (
     kbind mycpu (\<lambda>c. kmod (upd_cpu c (\<lambda>k. k\<lparr>cpu_proc := None\<rparr>))))"

definition scheduler_end :: "unit kern" where
  "scheduler_end = release LPtable"

section \<open>A sleep that an interrupt ends\<close>

text \<open>
  A device interrupt: the CPU clears the interrupt flag on entry through the gate and the final
  \<open>iret\<close> restores it.
\<close>

definition interrupt :: "unit kern \<Rightarrow> unit kern" where
  "interrupt handler =
     kbind readeflags (\<lambda>f. kseq cli (kseq handler (kmod (upd_hw (\<lambda>h. h\<lparr>ifl := f\<rparr>)))))"

text \<open>
  The whole of a \<open>sleep\<close> call when the next event is the interrupt \<open>irq\<close> and the scheduler then picks
  the sleeping process, if the handler has made it runnable. No other process runs in between.
\<close>

definition wake_dispatch :: "unit kern \<Rightarrow> bool \<Rightarrow> nat \<Rightarrow> lockid \<Rightarrow> unit kern" where
  "wake_dispatch irq ie p lk =
     kseq scheduler_return (
     kseq scheduler_end (
     kseq sti (
     kseq (interrupt irq) (
     kseq scheduler_begin (
     kbind (kget (\<lambda>s. p_state (proc_at s p))) (\<lambda>st.
     if st \<noteq> RUNNABLE then (\<lambda>s. Inl (Switch s))
     else kseq (scheduler_dispatch p) (sleep_resume ie p lk)))))))"

definition sleep_until :: "unit kern \<Rightarrow> chan \<Rightarrow> lockid \<Rightarrow> unit kern" where
  "sleep_until irq ch lk =
     kbind myproc (\<lambda>po.
     kbind (kget (\<lambda>s. case this_cpu (hw s) of None \<Rightarrow> False | Some c \<Rightarrow> intena (cpus (hw s) ! c))) (\<lambda>ie.
     kbind (null_check po) (\<lambda>p.
     (\<lambda>s. case sleep ch lk s of
            Inl (Switch t) \<Rightarrow> wake_dispatch irq ie p lk t
          | r \<Rightarrow> r))))"

section \<open>Running these operations\<close>

abbreviation woken :: "chan \<Rightarrow> ptable \<Rightarrow> ptable" where
  "woken ch t \<equiv> t\<lparr>procs := map (wakeup_proc ch) (procs t)\<rparr>"

abbreviation slept :: "nat \<Rightarrow> chan \<Rightarrow> ptable \<Rightarrow> ptable" where
  "slept p ch t \<equiv>
     t\<lparr>procs := (procs t)[p := (procs t ! p)\<lparr>p_chan := Some ch, p_state := SLEEPING\<rparr>]\<rparr>"

abbreviation resumed :: "nat \<Rightarrow> ptable \<Rightarrow> ptable" where
  "resumed p t \<equiv>
     t\<lparr>procs := (procs t)[p := (procs t ! p)\<lparr>p_state := RUNNING, p_chan := None\<rparr>]\<rparr>"

lemma wakeup1_owns [krule]: "krun (owns H th) s (wakeup1 ch) () (owns H th) (s\<lparr>pt := woken ch (pt s)\<rparr>)"
  unfolding wakeup1_def by (rule kmod_owns) simp

lemma wakeup_owns [krule]:
  "LPtable \<notin> set H \<Longrightarrow> krun (owns H th) s (wakeup ch) () (owns H th) (s\<lparr>pt := woken ch (pt s)\<rparr>)"
  unfolding wakeup_def by (rule krule | assumption)+

lemma mycpu_in_crit:
  assumes "critd (hw s) d H th" and "length H + d \<noteq> 0"
  obtains c where "mycpu s = Inr (c, s)" and "this_cpu (hw s) = Some c"
    and "c < length (cpus (hw s))" and "cpu_proc (cpus (hw s) ! c) = fst th"
    and "intena (cpus (hw s) ! c) = snd th" and "\<not> ifl (hw s)"
    and "ncli (cpus (hw s) ! c) = int (length H + d)"
proof -
  from assms obtain c where c: "this_cpu (hw s) = Some c" "ncli (cpus (hw s) ! c) = int (length H + d)"
    "cpu_proc (cpus (hw s) ! c) = fst th" "\<not> ifl (hw s)" "intena (cpus (hw s) ! c) = snd th"
    by (auto simp: critd_def split: if_splits)
  with that [of c] this_cpu_less [OF c(1)] mycpu_run [OF c(1,4)] show ?thesis by blast
qed

lemma mycpu_in_owns:
  assumes "owns H th s t" and "H \<noteq> []"
  obtains c where "mycpu t = Inr (c, t)" and "this_cpu (hw t) = Some c"
    and "c < length (cpus (hw t))" and "cpu_proc (cpus (hw t) ! c) = fst th"
    and "intena (cpus (hw t) ! c) = snd th" and "\<not> ifl (hw t)"
    and "ncli (cpus (hw t) ! c) = int (length H)" and "procs (pt t) = procs (pt s)"
proof -
  have "crit (hw t) H th" and pt: "procs (pt t) = procs (pt s)"
    using assms(1) by (auto simp: owns_def)
  from this(1) assms(2) show ?thesis
    by (rule_tac mycpu_in_crit) (auto intro: that pt)
qed

lemma sched_owns:
  assumes "p_state (proc_at s p) \<noteq> RUNNING"
  shows "kexec (owns [LPtable] (Some p, b)) s sched (switches (owns [LPtable] (Some p, b)) s)"
proof (rule kexecI)
  fix t assume "owns [LPtable] (Some p, b) s t"
  then obtain t1 where 1: "myproc t = Inr (Some p, t1)" "owns [LPtable] (Some p, b) s t1"
    by (auto elim: krunE [OF myproc_owns])
  obtain t2 where 2: "holding LPtable t1 = Inr (True, t2)" "owns [LPtable] (Some p, b) s t2"
    using krunE [OF holding_owns [of _ _ _ LPtable] 1(2)] by auto
  obtain c where "mycpu t2 = Inr (c, t2)" "ncli (cpus (hw t2) ! c) = 1" "\<not> ifl (hw t2)"
    "procs (pt t2) = procs (pt s)"
    using mycpu_in_owns [OF 2(2)] by auto
  with 1 2 assms show "switches (owns [LPtable] (Some p, b)) s (sched t)"
    by (simp add: switches_def sched_def null_check_def readeflags_def)
qed

lemma sched_extra_lock_owns:
  assumes "LPtable \<in> set H" and "length H \<noteq> 1"
  shows "kpanics (owns H th) s sched ''sched locks''"
proof (rule kexecI)
  fix t assume "owns H th s t"
  then obtain t1 where 1: "myproc t = Inr (fst th, t1)" "owns H th s t1"
    by (auto elim: krunE [OF myproc_owns])
  obtain t2 where 2: "holding LPtable t1 = Inr (True, t2)" "owns H th s t2"
    using krunE [OF holding_owns [of _ _ _ LPtable] 1(2)] assms(1) by auto
  obtain c where "mycpu t2 = Inr (c, t2)" "ncli (cpus (hw t2) ! c) = int (length H)"
    using mycpu_in_owns [OF 2(2)] assms(1) by (metis list.set_sel(1) empty_iff list.set(1))
  with 1 2 assms(2) show "sched t = Inl (Panic ''sched locks'')"
    by (simp add: sched_def)
qed

lemma sleep_owns:
  assumes "lk \<noteq> LPtable" and "p < length (procs (pt s))"
  shows "kexec (owns [lk] (Some p, b)) s (sleep ch lk)
    (switches (owns [LPtable] (Some p, b)) (s\<lparr>pt := slept p ch (pt s)\<rparr>))"
proof -
  have sw: "krun (owns [lk] (Some p, b)) s (kwhen (lk \<noteq> LPtable) (kseq (acquire LPtable) (release lk))) ()
      (owns [LPtable] (Some p, b)) s"
    using assms(1) release_owns [of lk "[LPtable, lk]"]
    by (auto intro!: kexec_kwhen_True kexec_kseq acquire_owns)
  have "kexec (owns [lk] (Some p, b)) s
     (kseq (kwhen (lk \<noteq> LPtable) (kseq (acquire LPtable) (release lk))) (
       kseq (kmod (upd_proc p (\<lambda>r. r\<lparr>p_chan := Some ch\<rparr>))) (
       kseq (kmod (upd_proc p (\<lambda>r. r\<lparr>p_state := SLEEPING\<rparr>)))
       sched))) (switches (owns [LPtable] (Some p, b)) (s\<lparr>pt := slept p ch (pt s)\<rparr>))"
    by (rule kexec_kseq, rule sw, (rule kexec_kseq, rule kmod_self_owns, simp add: upd_proc_def)+,
        rule kexec_state, rule sched_owns) (use assms(2) in \<open>simp_all add: upd_proc_def\<close>)
  then show ?thesis
    unfolding sleep_def by (rule_tac kexec_kbind, rule_tac myproc_owns) simp
qed

text \<open>
  \<open>sleep\<close> with a spin lock held besides the one it is given never gives up the CPU: the check in
  \<open>sched\<close> panics.
\<close>

lemma sleep_extra_lock_owns:
  assumes "lk \<in> set H" and "LPtable \<notin> set H" and "2 \<le> length H"
  shows "kpanics (owns H (Some p, b)) s (sleep ch lk) ''sched locks''"
proof -
  have ne: "lk \<noteq> LPtable" and len: "length (LPtable # remove1 lk H) \<noteq> 1"
    using assms by (auto simp: length_remove1)
  have sw: "krun (owns H (Some p, b)) s (kwhen (lk \<noteq> LPtable) (kseq (acquire LPtable) (release lk))) ()
      (owns (LPtable # remove1 lk H) (Some p, b)) s"
    using assms ne release_owns [of lk "LPtable # H"]
    by (auto intro!: kexec_kwhen_True kexec_kseq acquire_owns)
  have "kpanics (owns H (Some p, b)) s
     (kseq (kwhen (lk \<noteq> LPtable) (kseq (acquire LPtable) (release lk))) (
       kseq (kmod (upd_proc p (\<lambda>r. r\<lparr>p_chan := Some ch\<rparr>))) (
       kseq (kmod (upd_proc p (\<lambda>r. r\<lparr>p_state := SLEEPING\<rparr>)))
       sched))) ''sched locks''"
    by (rule kexec_kseq, rule sw, (rule kexec_kseq, rule kmod_self_owns, simp add: upd_proc_def)+,
        rule sched_extra_lock_owns) (use len in simp_all)
  then show ?thesis
    unfolding sleep_def by (rule_tac kexec_kbind, rule_tac myproc_owns) simp
qed

section \<open>The scheduler's side\<close>

text \<open>
  The same relation at nesting depth \<open>d\<close> above the locks held, with the CPU \<open>c\<close> named.
\<close>

definition owns_on :: "nat \<Rightarrow> nat \<Rightarrow> lockid list \<Rightarrow> nat option \<times> bool \<Rightarrow> kstate \<Rightarrow> kstate \<Rightarrow> bool" where
  "owns_on c d H th s t \<longleftrightarrow> (\<exists>h. t = s\<lparr>hw := h\<rparr> \<and> critd h d H th \<and> this_cpu h = Some c)"

lemma kexec_owns_cpu:
  assumes "\<And>c. kexec (owns_on c 0 H th) s m Q"
  shows "kexec (owns H th) s m Q"
proof (rule kexecI)
  fix t assume t: "owns H th s t"
  then obtain c where "this_cpu (hw t) = Some c" by (auto simp: owns_def critd_def)
  with t have "owns_on c 0 H th s t" by (auto simp: owns_def owns_on_def)
  with assms show "Q (m t)" by (rule kexecD)
qed

lemma returns_owns_cpu: "krun R s m x (owns_on c 0 H th) s' \<Longrightarrow> krun R s m x (owns H th) s'"
  by (auto simp: kexec_def returns_def owns_on_def owns_def)

lemma mycpu_owns_on [krule]:
  "length H + d \<noteq> 0 \<Longrightarrow> krun (owns_on c d H th) s mycpu c (owns_on c d H th) s"
  by (auto simp: kexec_def returns_def owns_on_def critd_def mycpu_run split: if_splits)

lemma kget_owns_on [krule]:
  "(\<And>h. g (s\<lparr>hw := h\<rparr>) = g s) \<Longrightarrow> krun (owns_on c d H th) s (kget g) (g s) (owns_on c d H th) s"
  by (auto simp: kexec_def returns_def owns_on_def)

lemma kmod_owns_on [krule]:
  "(\<And>h. u (s\<lparr>hw := h\<rparr>) = (u s)\<lparr>hw := h\<rparr>) \<Longrightarrow> krun (owns_on c d H th) s (kmod u) () (owns_on c d H th) (u s)"
  by (auto simp: kexec_def returns_def owns_on_def)

lemma critd_upd_cpu:
  assumes "critd h d H th" and "this_cpu h = Some c" and "length H + d \<noteq> 0"
    and "apicid k = apicid (cpus h ! c)" and "ncli k = ncli (cpus h ! c)"
  shows "critd (h\<lparr>cpus := (cpus h)[c := k]\<rparr>) d H (cpu_proc k, intena k)"
  using assms this_cpu_upd [of k h c] this_cpu_less [OF assms(2)]
  by (auto simp: critd_def split: if_splits)

lemma upd_cpu_owns_on:
  assumes "length H + d \<noteq> 0" and "\<And>k. apicid (f k) = apicid k \<and> ncli (f k) = ncli k"
    and "\<And>k. cpu_proc k = fst th \<Longrightarrow> intena k = snd th \<Longrightarrow> (cpu_proc (f k), intena (f k)) = th'"
  shows "krun (owns_on c d H th) s (kmod (upd_cpu c f)) () (owns_on c d H th') s"
proof (rule krunI)
  fix t assume "owns_on c d H th s t"
  then obtain h where h: "t = s\<lparr>hw := h\<rparr>" "critd h d H th" "this_cpu h = Some c"
    by (auto simp: owns_on_def)
  then have "cpu_proc (cpus h ! c) = fst th" "intena (cpus h ! c) = snd th"
    using assms(1) by (auto simp: critd_def split: if_splits)
  then have "critd (h\<lparr>cpus := (cpus h)[c := f (cpus h ! c)]\<rparr>) d H th'"
    using critd_upd_cpu [OF h(2,3) assms(1), of "f (cpus h ! c)"] assms(2,3) by simp
  moreover have "this_cpu (h\<lparr>cpus := (cpus h)[c := f (cpus h ! c)]\<rparr>) = Some c"
    using this_cpu_upd [of "f (cpus h ! c)" h c] assms(2) h(3) by simp
  ultimately show "\<exists>t'. kmod (upd_cpu c f) t = Inr ((), t') \<and> owns_on c d H th' s t'"
    using h(1) by (auto simp: owns_on_def upd_cpu_def upd_hw_def)
qed

lemma owns_on_runI:
  assumes "\<And>t. critd (hw t) d H th \<Longrightarrow> this_cpu (hw t) = Some c \<Longrightarrow>
    \<exists>h. m t = Inr (x, t\<lparr>hw := h\<rparr>) \<and> critd h d' H' th' \<and> this_cpu h = Some c"
  shows "krun (owns_on c d H th) s m x (owns_on c d' H' th') s"
proof (rule krunI)
  fix t assume "owns_on c d H th s t"
  then obtain h where "t = s\<lparr>hw := h\<rparr>" "critd h d H th" "this_cpu h = Some c"
    by (auto simp: owns_on_def)
  with assms [of t] show "\<exists>t'. m t = Inr (x, t') \<and> owns_on c d' H' th' s t'"
    by (auto simp: owns_on_def)
qed

lemma pushcli_owns_on [krule]: "krun (owns_on c d H th) s pushcli () (owns_on c (Suc d) H th) s"
  by (rule owns_on_runI) (use pushcli_critd in fastforce)

lemma popcli_owns_on [krule]: "krun (owns_on c (Suc d) H th) s popcli () (owns_on c d H th) s"
  by (rule owns_on_runI) (use popcli_critd in fastforce)

lemma sched_resume_owns [krule]:
  "H \<noteq> [] \<Longrightarrow> krun (owns H (po, b)) s (sched_resume ie) () (owns H (po, ie)) s"
  unfolding sched_resume_def
  by (rule kexec_owns_cpu, rule returns_owns_cpu, rule kexec_kbind, rule mycpu_owns_on, simp,
      rule upd_cpu_owns_on) auto

lemma switchkvm_owns [krule]: "H \<noteq> [] \<Longrightarrow> krun (owns H th) s switchkvm () (owns H th) s"
  unfolding switchkvm_def
  by (rule kexec_owns_cpu, rule returns_owns_cpu, rule kexec_kbind, rule mycpu_owns_on, simp,
      rule kexec_kbind, rule kget_owns_on, simp, rule upd_cpu_owns_on) auto

lemma scheduler_return_owns [krule]:
  "H \<noteq> [] \<Longrightarrow> krun (owns H (po, b)) s scheduler_return () (owns H (None, b)) s"
  unfolding scheduler_return_def
  by (rule kexec_kseq, rule switchkvm_owns, assumption, rule kexec_owns_cpu, rule returns_owns_cpu,
      rule kexec_kbind, rule mycpu_owns_on, simp, rule upd_cpu_owns_on) auto

lemma switchuvm_owns_on:
  assumes "p_kstack (proc_at s p) \<noteq> 0" and "p_pgdir (proc_at s p) \<noteq> 0"
  shows "krun (owns_on c d H th) s (switchuvm (Some p)) () (owns_on c d H th) s"
  unfolding switchuvm_def option.case
  apply (rule kexec_kbind, rule kget_owns_on, simp, simp only: assms if_False)
  apply (rule krule)+
   apply simp
  apply (rule krule)
    apply (rule upd_cpu_owns_on)
      apply auto
  apply (rule krule)
    apply (rule upd_cpu_owns_on)
      apply auto
  apply (rule krule)
  done

lemma scheduler_dispatch_owns [krule]:
  assumes "H \<noteq> []" "p_kstack (proc_at s p) \<noteq> 0" and "p_pgdir (proc_at s p) \<noteq> 0"
  shows "krun (owns H (po, b)) s (scheduler_dispatch p) () (owns H (Some p, b)) 
   (upd_proc p (\<lambda>r. r\<lparr>p_state := RUNNING\<rparr>) s)"
  unfolding scheduler_dispatch_def
  apply (rule kexec_owns_cpu, rule returns_owns_cpu, rule kexec_kbind, rule mycpu_owns_on, simp add: assms)
  apply (rule kexec_kseq, rule upd_cpu_owns_on[where th' = "(Some p, b)"])
  apply (auto simp: assms)
  apply (rule kexec_kseq, rule switchuvm_owns_on, rule assms, rule assms, rule kmod_owns_on)
  apply (simp add: upd_proc_def)
  done

section \<open>Interrupts and the whole of a sleep\<close>

lemma crit_ifl: "crit h [] (po, b) \<Longrightarrow> ifl h = b \<and> crit (h\<lparr>ifl := b'\<rparr>) [] (po, b')"
  by (auto simp: critd_def)

lemma sti_owns [krule]: "krun (owns [] (po, b)) s sti () (owns [] (po, True)) s"
  by (rule owns_runI) (auto simp: sti_def upd_hw_def dest: crit_ifl [where b' = True])

lemma interrupt_owns:
  assumes "krun (owns [] (po, False)) s irq () (owns [] (po, False)) s'"
  shows "krun (owns [] (po, b)) s (interrupt irq) () (owns [] (po, b)) s'"
proof (rule krunI)
  fix t assume "owns [] (po, b) s t"
  then have "ifl (hw t) = b" "owns [] (po, False) s (t\<lparr>hw := (hw t)\<lparr>ifl := False\<rparr>\<rparr>)"
    by (auto simp: owns_def dest: crit_ifl [where b' = False])
  moreover from assms this(2) obtain t' where
    "irq (t\<lparr>hw := (hw t)\<lparr>ifl := False\<rparr>\<rparr>) = Inr ((), t')" "owns [] (po, False) s' t'"
    by (rule krunE)
  moreover from this(2) have "owns [] (po, b) s' (t'\<lparr>hw := (hw t')\<lparr>ifl := b\<rparr>\<rparr>)"
    by (auto simp: owns_def dest: crit_ifl [where b' = b])
  ultimately show "\<exists>t'. interrupt irq t = Inr ((), t') \<and> owns [] (po, b) s' t'"
    by (simp add: interrupt_def readeflags_def cli_def upd_hw_def)
qed

lemma sleep_resume_owns:
  assumes "lk \<noteq> LPtable"
  shows "krun (owns [LPtable] (po, b)) s (sleep_resume ie p lk) () (owns [lk] (po, ie))
    (upd_proc p (\<lambda>r. r\<lparr>p_chan := None\<rparr>) s)"
proof -
  have "krun (owns [LPtable] (po, ie)) (upd_proc p (\<lambda>r. r\<lparr>p_chan := None\<rparr>) s)
      (kwhen (lk \<noteq> LPtable) (kseq (release LPtable) (acquire lk))) () (owns [lk] (po, ie))
      (upd_proc p (\<lambda>r. r\<lparr>p_chan := None\<rparr>) s)"
    using assms by (auto intro!: kexec_kwhen_True kexec_kseq release_head_owns acquire_owns)
  then show ?thesis
    unfolding sleep_resume_def
    by (rule_tac kexec_kseq, rule_tac sched_resume_owns)
      (auto intro!: kexec_kseq kmod_self_owns simp: upd_proc_def)
qed

lemma wake_dispatch_owns:
  assumes "lk \<noteq> LPtable" and "p < length (procs (pt s'))"
    and irq: "krun (owns [] (None, False)) s irq () (owns [] (None, False)) s'"
    and runnable: "p_state (proc_at s' p) = RUNNABLE"
    and mem: "p_kstack (proc_at s' p) \<noteq> 0" "p_pgdir (proc_at s' p) \<noteq> 0"
  shows "krun (owns [LPtable] (po, b)) s (wake_dispatch irq ie p lk) () (owns [lk] (Some p, ie))
    (s'\<lparr>pt := resumed p (pt s')\<rparr>)"
proof -
  let ?d = "upd_proc p (\<lambda>r. r\<lparr>p_state := RUNNING\<rparr>) s'"
  have eq: "upd_proc p (\<lambda>r. r\<lparr>p_chan := None\<rparr>) ?d = s'\<lparr>pt := resumed p (pt s')\<rparr>"
    using assms(2) by (simp add: upd_proc_def)
  have disp: "krun (owns [LPtable] (None, True)) s' (scheduler_dispatch p) ()
      (owns [LPtable] (Some p, True)) ?d"
    by (rule scheduler_dispatch_owns) (use mem in simp_all)
  have res: "krun (owns [LPtable] (Some p, True)) ?d (sleep_resume ie p lk) ()
      (owns [lk] (Some p, ie)) (s'\<lparr>pt := resumed p (pt s')\<rparr>)"
    using sleep_resume_owns [OF assms(1)] unfolding eq [symmetric] .
  have fin: "krun (owns [LPtable] (None, True)) s'
      (if p_state (proc_at s' p) \<noteq> RUNNABLE then (\<lambda>s. Inl (Switch s))
       else kseq (scheduler_dispatch p) (sleep_resume ie p lk)) ()
      (owns [lk] (Some p, ie)) (s'\<lparr>pt := resumed p (pt s')\<rparr>)"
    using runnable kexec_kseq [OF disp res] by simp
  show ?thesis
    unfolding wake_dispatch_def scheduler_begin_def scheduler_end_def
    by (rule kexec_kseq, rule scheduler_return_owns, simp, rule kexec_kseq, rule release_head_owns,
        rule kexec_kseq, rule sti_owns, rule kexec_kseq, rule interrupt_owns, rule irq,
        rule kexec_kseq, rule kexec_kseq, rule sti_owns, rule acquire_owns, simp,
        rule kexec_kbind, rule kget_owns, simp, rule fin)
qed

lemma sleep_until_owns:
  assumes "lk \<noteq> LPtable" and "p < length (procs (pt s))" and "p < length (procs (pt s'))"
    and "krun (owns [] (None, False)) (s\<lparr>pt := slept p ch (pt s)\<rparr>) irq () (owns [] (None, False)) s'"
    and "p_state (proc_at s' p) = RUNNABLE"
    and "p_kstack (proc_at s' p) \<noteq> 0" and "p_pgdir (proc_at s' p) \<noteq> 0"
  shows "krun (owns [lk] (Some p, b)) s (sleep_until irq ch lk) () (owns [lk] (Some p, b))
    (s'\<lparr>pt := resumed p (pt s')\<rparr>)"
proof (rule krunI)
  fix t assume "owns [lk] (Some p, b) s t"
  then obtain t1 where 1: "myproc t = Inr (Some p, t1)" "owns [lk] (Some p, b) s t1"
    by (auto elim: krunE [OF myproc_owns])
  obtain c where c: "this_cpu (hw t1) = Some c" "intena (cpus (hw t1) ! c) = b"
    by (rule mycpu_in_owns [OF 1(2)]) auto
  obtain t2 where 2: "sleep ch lk t1 = Inl (Switch t2)"
    "owns [LPtable] (Some p, b) (s\<lparr>pt := slept p ch (pt s)\<rparr>) t2"
    using kexecD [OF sleep_owns [OF assms(1,2)] 1(2)] by (auto simp: switches_def)
  obtain t3 where 3: "wake_dispatch irq b p lk t2 = Inr ((), t3)"
    "owns [lk] (Some p, b) (s'\<lparr>pt := resumed p (pt s')\<rparr>) t3"
    using krunE [OF wake_dispatch_owns [OF assms(1,3-7)] 2(2)] by blast
  from 1(1) c 2(1) 3 show "\<exists>t'. sleep_until irq ch lk t = Inr ((), t') \<and>
      owns [lk] (Some p, b) (s'\<lparr>pt := resumed p (pt s')\<rparr>) t'"
    by (simp add: sleep_until_def null_check_def)
qed

end
