(* ===== verification/Sleeplock.thy ===== *)
theory Sleeplock
  imports Sched
begin

text \<open>
  Sleep locks (\<open>sleeplock.c\<close>): a lock word and the pid of the holder, both guarded by a spin lock. A
  process that finds the lock taken gives up the CPU; \<open>acquiresleep_resume\<close> is what it does when the
  scheduler runs it again.
\<close>

section \<open>Operations\<close>

definition initsleeplock :: "slid \<Rightarrow> string \<Rightarrow> unit kern" where
  "initsleeplock l name =
     kseq (initlock (LSleep l) ''sleep lock'')
     (kmod (\<lambda>s. set_sleeplock l \<lparr>sl_locked = False, sl_name = name, sl_pid = 0\<rparr> s))"

text \<open>The body of \<open>acquiresleep\<close> from the test of its loop on, with the spin lock held.\<close>

definition acquiresleep_loop :: "slid \<Rightarrow> unit kern" where
  "acquiresleep_loop l =
     kbind (kget (\<lambda>s. sl_locked (sleeplock_of s l))) (\<lambda>taken.
     if taken then sleep (ChSleep l) (LSleep l)
     else
       kseq (kmod (\<lambda>s. set_sleeplock l ((sleeplock_of s l)\<lparr>sl_locked := True\<rparr>) s)) (
       kbind myproc (\<lambda>po.
       kbind (null_check po) (\<lambda>p.
       kseq (kmod (\<lambda>s. set_sleeplock l ((sleeplock_of s l)\<lparr>sl_pid := p_pid (proc_at s p)\<rparr>) s))
       (release (LSleep l))))))"

definition acquiresleep :: "slid \<Rightarrow> unit kern" where
  "acquiresleep l = kseq (acquire (LSleep l)) (acquiresleep_loop l)"

definition acquiresleep_resume :: "bool \<Rightarrow> nat \<Rightarrow> slid \<Rightarrow> unit kern" where
  "acquiresleep_resume ie p l = kseq (sleep_resume ie p (LSleep l)) (acquiresleep_loop l)"

definition releasesleep :: "slid \<Rightarrow> unit kern" where
  "releasesleep l =
     kseq (acquire (LSleep l)) (
     kseq (kmod (\<lambda>s. set_sleeplock l ((sleeplock_of s l)\<lparr>sl_locked := False, sl_pid := 0\<rparr>) s)) (
     kseq (wakeup (ChSleep l))
     (release (LSleep l))))"

definition holdingsleep :: "slid \<Rightarrow> bool kern" where
  "holdingsleep l =
     kseq (acquire (LSleep l)) (
     kbind (kget (\<lambda>s. sleeplock_of s l)) (\<lambda>k.
     kbind (if sl_locked k
            then kbind myproc (\<lambda>po. kbind (null_check po) (\<lambda>p. kget (\<lambda>s. sl_pid k = p_pid (proc_at s p))))
            else kret False) (\<lambda>r.
     kseq (release (LSleep l)) (kret r))))"

section \<open>Running them\<close>

definition take_lock :: "int \<Rightarrow> sleeplock \<Rightarrow> sleeplock" where
  "take_lock pid k = k\<lparr>sl_locked := True, sl_pid := pid\<rparr>"

definition drop_lock :: "sleeplock \<Rightarrow> sleeplock" where
  "drop_lock k = k\<lparr>sl_locked := False, sl_pid := 0\<rparr>"

lemma sleeplock_of_hw [simp]: "sleeplock_of (s\<lparr>hw := h\<rparr>) l = sleeplock_of s l"
  by (cases l) simp_all

lemma sleeplock_of_pt [simp]: "sleeplock_of (s\<lparr>pt := q\<rparr>) l = sleeplock_of s l"
  by (cases l) simp_all

lemma set_sleeplock_hw [simp]: "set_sleeplock l k (s\<lparr>hw := h\<rparr>) = (set_sleeplock l k s)\<lparr>hw := h\<rparr>"
  by (cases l) simp_all

lemma pt_set_sleeplock [simp]: "pt (set_sleeplock l k s) = pt s"
  by (cases l) simp_all

lemma sleeplock_of_set [simp]:
  "slid_in_range s l \<Longrightarrow> sleeplock_of (set_sleeplock l k s) l = k"
  by (cases l) simp_all

lemma set_sleeplock_twice [simp]:
  "set_sleeplock l k (set_sleeplock l k' s) = set_sleeplock l k s"
  by (cases l) (auto simp: list_update_beyond nth_list_update_if)

lemma null_check_owns [krule]: "krun (owns H th) s (null_check (Some p)) p (owns H th) s"
  unfolding null_check_def option.case by (rule kexec_kret)

lemma acquiresleep_owns [krule]:
  assumes "slid_in_range s l" and "\<not> sl_locked (sleeplock_of s l)" and "LSleep l \<notin> set H"
  shows "krun (owns H (Some p, b)) s (acquiresleep l) () (owns H (Some p, b))
    (set_sleeplock l (take_lock (p_pid (proc_at s p)) (sleeplock_of s l)) s)"
proof -
  let ?s1 = "set_sleeplock l ((sleeplock_of s l)\<lparr>sl_locked := True\<rparr>) s"
  have "krun (owns (LSleep l # H) (Some p, b)) ?s1
      (kbind myproc (\<lambda>po. kbind (null_check po) (\<lambda>p.
       kseq (kmod (\<lambda>s. set_sleeplock l ((sleeplock_of s l)\<lparr>sl_pid := p_pid (proc_at s p)\<rparr>) s))
       (release (LSleep l))))) () (owns H (Some p, b))
      (set_sleeplock l (take_lock (p_pid (proc_at s p)) (sleeplock_of s l)) s)"
    by (rule kexec_kbind, rule myproc_owns, unfold fst_conv, rule kexec_kbind, rule null_check_owns,
        rule kexec_kseq, rule kmod_self_owns, simp, rule krun_cong, rule release_head_owns)
      (use assms(1) in \<open>simp_all add: take_lock_def\<close>)
  then have loop: "krun (owns (LSleep l # H) (Some p, b)) s (acquiresleep_loop l) () (owns H (Some p, b))
      (set_sleeplock l (take_lock (p_pid (proc_at s p)) (sleeplock_of s l)) s)"
    unfolding acquiresleep_loop_def
    by (rule_tac kexec_kbind, rule_tac kget_owns)
      (use assms(2) in \<open>auto intro!: kexec_kseq kmod_self_owns\<close>)
  show ?thesis
    unfolding acquiresleep_def by (rule kexec_kseq, rule acquire_owns, rule assms(3), rule loop)
qed

lemma acquiresleep_taken_owns:
  assumes "sl_locked (sleeplock_of s l)" and "p < length (procs (pt s))"
  shows "kexec (owns [] (Some p, b)) s (acquiresleep l)
    (switches (owns [LPtable] (Some p, b)) (s\<lparr>pt := slept p (ChSleep l) (pt s)\<rparr>))"
  unfolding acquiresleep_def acquiresleep_loop_def
  by (rule kexec_kseq, rule acquire_owns, simp, rule kexec_kbind, rule kget_owns, simp)
    (use assms sleep_owns [of "LSleep l" p s b "ChSleep l"] in simp)

lemma releasesleep_owns [krule]:
  assumes "LSleep l \<notin> set H" and "LPtable \<notin> set H"
  shows "krun (owns H th) s (releasesleep l) () (owns H th)
    ((set_sleeplock l (drop_lock (sleeplock_of s l)) s)\<lparr>pt := woken (ChSleep l) (pt s)\<rparr>)"
  unfolding releasesleep_def drop_lock_def
  by (rule kexec_kseq, rule acquire_owns, rule assms(1), rule kexec_kseq, rule kmod_self_owns, simp,
      rule kexec_kseq, rule wakeup_owns, simp add: assms(2), rule krun_cong, rule release_head_owns)
    simp_all

lemma holdingsleep_owns [krule]:
  assumes "LSleep l \<notin> set H"
  shows "krun (owns H (Some p, b)) s (holdingsleep l)
    (sl_locked (sleeplock_of s l) \<and> sl_pid (sleeplock_of s l) = p_pid (proc_at s p)) (owns H (Some p, b)) s"
proof -
  let ?k = "sleeplock_of s l"
  let ?v = "sl_locked ?k \<and> sl_pid ?k = p_pid (proc_at s p)"
  have "krun (owns (LSleep l # H) (Some p, b)) s
      (kbind myproc (\<lambda>po. kbind (null_check po) (\<lambda>p. kget (\<lambda>s. sl_pid ?k = p_pid (proc_at s p)))))
      (sl_pid ?k = p_pid (proc_at s p)) (owns (LSleep l # H) (Some p, b)) s"
    by (rule kexec_kbind, rule myproc_owns, unfold fst_conv, rule kexec_kbind, rule null_check_owns,
        rule kget_owns) simp
  then have "krun (owns (LSleep l # H) (Some p, b)) s
      (if sl_locked ?k
       then kbind myproc (\<lambda>po. kbind (null_check po) (\<lambda>p. kget (\<lambda>s. sl_pid ?k = p_pid (proc_at s p))))
       else kret False) ?v (owns (LSleep l # H) (Some p, b)) s"
    using kexec_kret [of "owns (LSleep l # H) (Some p, b)" s False]
    by (cases "sl_locked ?k") (simp_all del: kret_run)
  then show ?thesis
    unfolding holdingsleep_def
    by (rule_tac kexec_kseq, rule_tac acquire_owns, rule_tac assms, rule_tac kexec_kbind,
        rule_tac kget_owns, simp, rule_tac kexec_kbind, assumption)
      (rule kexec_kseq, rule release_head_owns, rule kexec_kret)
qed

end
