(* ===== verification/Ide.thy ===== *)
theory Ide
  imports Sleeplock
begin

text \<open>
  The disk drivers: \<open>ide.c\<close> with the part of the controller it relies on, and the memory disk
  \<open>memide.c\<close>. Writing the write command and the 512 data bytes stores a sector at the address held in
  the controller's registers; reading fetches it from there. The status register is constant during
  a run, so waiting for a controller that is not ready never ends (outcome \<open>Spin\<close>).
\<close>

section \<open>Buffer flags\<close>

definition valid_flag :: "u32 \<Rightarrow> bool" where
  "valid_flag f \<longleftrightarrow> f AND B_VALID \<noteq> 0"

definition dirty_flag :: "u32 \<Rightarrow> bool" where
  "dirty_flag f \<longleftrightarrow> f AND B_DIRTY \<noteq> 0"

lemma valid_flag_bit: "valid_flag f \<longleftrightarrow> bit f 1"
  using and_exp_eq_0_iff_not_bit [of f 1] by (simp add: valid_flag_def B_VALID_def)

lemma dirty_flag_bit: "dirty_flag f \<longleftrightarrow> bit f 2"
  using and_exp_eq_0_iff_not_bit [of f 2] by (simp add: dirty_flag_def B_DIRTY_def)

lemma bit_B_VALID: "bit B_VALID n \<longleftrightarrow> n = 1" and bit_B_DIRTY: "bit B_DIRTY n \<longleftrightarrow> n = 2"
  using bit_exp_iff [where 'a = u32, of 1 n] bit_exp_iff [where 'a = u32, of 2 n]
  by (auto simp: B_VALID_def B_DIRTY_def)

lemma flags_simps [simp]:
  "valid_flag (f OR B_VALID)" "dirty_flag (f OR B_VALID) \<longleftrightarrow> dirty_flag f"
  "dirty_flag (f OR B_DIRTY)" "valid_flag (f OR B_DIRTY) \<longleftrightarrow> valid_flag f"
  "\<not> dirty_flag (f AND NOT B_DIRTY)" "valid_flag (f AND NOT B_DIRTY) \<longleftrightarrow> valid_flag f"
  "\<not> valid_flag 0" "\<not> dirty_flag 0" "valid_flag B_VALID" "\<not> dirty_flag B_VALID"
  by (simp_all add: valid_flag_bit dirty_flag_bit bit_simps bit_B_VALID bit_B_DIRTY)

lemma flags_both_iff: "f AND (B_VALID OR B_DIRTY) = B_VALID \<longleftrightarrow> valid_flag f \<and> \<not> dirty_flag f"
proof
  assume "f AND (B_VALID OR B_DIRTY) = B_VALID"
  then have "bit (f AND (B_VALID OR B_DIRTY)) n \<longleftrightarrow> n = 1" for n by (simp add: bit_B_VALID)
  from this [of 1] this [of 2] show "valid_flag f \<and> \<not> dirty_flag f"
    by (simp add: valid_flag_bit dirty_flag_bit bit_simps bit_B_VALID bit_B_DIRTY)
next
  assume "valid_flag f \<and> \<not> dirty_flag f"
  then show "f AND (B_VALID OR B_DIRTY) = B_VALID"
    by (intro bit_word_eqI)
      (auto simp: valid_flag_bit dirty_flag_bit bit_simps bit_B_VALID bit_B_DIRTY)
qed

section \<open>The controller\<close>

definition IDE_BSY :: u8 where "IDE_BSY = 0x80"
definition IDE_DRDY :: u8 where "IDE_DRDY = 0x40"
definition IDE_DF :: u8 where "IDE_DF = 0x20"
definition IDE_ERR :: u8 where "IDE_ERR = 0x01"

definition upd_ide :: "(idestate \<Rightarrow> idestate) \<Rightarrow> kstate \<Rightarrow> kstate" where
  "upd_ide f s = s\<lparr>ide := f (ide s)\<rparr>"

text \<open>The drive and sector that the registers address.\<close>

definition ide_sel :: "idestate \<Rightarrow> u32" where
  "ide_sel i = ucast (drop_bit 4 (ide_drive i)) AND 1"

definition ide_sector :: "idestate \<Rightarrow> u32" where
  "ide_sector i = ucast (ide_lba0 i) OR push_bit 8 (ucast (ide_lba1 i)) OR
     push_bit 16 (ucast (ide_lba2 i)) OR push_bit 24 (ucast (ide_drive i AND 0x0f))"

text \<open>\<open>outsl(0x1f0, data, BSIZE/4)\<close> after a write command, and \<open>insl\<close> after a read command.\<close>

definition put_sector :: "block \<Rightarrow> idestate \<Rightarrow> idestate" where
  "put_sector d i =
     i\<lparr>disks := (disks i)(ide_sel i := (disks i (ide_sel i))(ide_sector i := d)),
       ide_trace := ide_trace i @ [(ide_sel i, ide_sector i, d)]\<rparr>"

definition get_sector :: "idestate \<Rightarrow> block" where
  "get_sector i = disks i (ide_sel i) (ide_sector i)"

section \<open>The driver\<close>

definition idewait :: "bool \<Rightarrow> int kern" where
  "idewait checkerr =
     kbind (kget (\<lambda>s. ide_status (ide s) (ide_sel (ide s)))) (\<lambda>r.
     if r AND (IDE_BSY OR IDE_DRDY) \<noteq> IDE_DRDY then kstop Spin
     else if checkerr \<and> r AND (IDE_DF OR IDE_ERR) \<noteq> 0 then kret (- 1)
     else kret 0)"

definition ideinit :: "unit kern" where
  "ideinit =
     kseq (initlock LIde ''ide'') (
     kseq (idewait False) (
     kseq (kmod (upd_ide (\<lambda>i. i\<lparr>ide_drive := 0xe0 OR push_bit 4 1\<rparr>))) (
     kseq (kmod (upd_ide (\<lambda>i. if ide_status i (ide_sel i) \<noteq> 0 then i\<lparr>havedisk1 := True\<rparr> else i)))
     (kmod (upd_ide (\<lambda>i. i\<lparr>ide_drive := 0xe0 OR push_bit 4 0\<rparr>))))))"

definition idestart :: "nat option \<Rightarrow> unit kern" where
  "idestart bo =
     (case bo of None \<Rightarrow> panic ''idestart''
      | Some b \<Rightarrow>
        kbind (kget (\<lambda>s. bufs s ! b)) (\<lambda>bf.
        if FSSIZE \<le> unat (b_blockno bf) then panic ''incorrect blockno''
        else let sector = b_blockno bf in
          kseq (idewait False) (
          kseq (kmod (upd_ide (\<lambda>i. i\<lparr>ide_lba0 := ucast (sector AND 0xff)\<rparr>))) (
          kseq (kmod (upd_ide (\<lambda>i. i\<lparr>ide_lba1 := ucast (drop_bit 8 sector AND 0xff)\<rparr>))) (
          kseq (kmod (upd_ide (\<lambda>i. i\<lparr>ide_lba2 := ucast (drop_bit 16 sector AND 0xff)\<rparr>))) (
          kseq (kmod (upd_ide (\<lambda>i. i\<lparr>ide_drive := 0xe0 OR ucast (push_bit 4 (b_dev bf AND 1)) OR
            ucast (drop_bit 24 sector AND 0x0f)\<rparr>)))
          (kwhen (dirty_flag (b_flags bf)) (kmod (upd_ide (put_sector (b_data bf)))))))))))"

definition ideintr :: "unit kern" where
  "ideintr =
     kseq (acquire LIde) (
     kbind (kget (\<lambda>s. idequeue (ide s))) (\<lambda>q.
     case q of
       [] \<Rightarrow> release LIde
     | b # rest \<Rightarrow>
       kseq (kmod (upd_ide (\<lambda>i. i\<lparr>idequeue := rest\<rparr>))) (
       kbind (kget (\<lambda>s. bufs s ! b)) (\<lambda>bf.
       kseq (kwhen (\<not> dirty_flag (b_flags bf))
         (kbind (idewait True) (\<lambda>r.
          kwhen (0 \<le> r) (kmod (\<lambda>s. upd_buf b (\<lambda>f. f\<lparr>b_data := get_sector (ide s)\<rparr>) s))))) (
       kseq (kmod (upd_buf b (\<lambda>f. f\<lparr>b_flags := b_flags f OR B_VALID\<rparr>))) (
       kseq (kmod (upd_buf b (\<lambda>f. f\<lparr>b_flags := b_flags f AND NOT B_DIRTY\<rparr>))) (
       kseq (wakeup (ChBuf b)) (
       kseq (kwhen (rest \<noteq> []) (idestart (Some (hd rest))))
       (release LIde)))))))))"

text \<open>
  The wait loop of \<open>iderw\<close>. Every interrupt completes the request at the head of the queue, so a
  request is done after as many interrupts as it has requests up to itself in the queue.
\<close>

fun iderw_wait :: "nat \<Rightarrow> nat \<Rightarrow> unit kern" where
  "iderw_wait 0 b = kstop Spin"
| "iderw_wait (Suc n) b =
     kbind (kget (\<lambda>s. b_flags (bufs s ! b))) (\<lambda>f.
     if f AND (B_VALID OR B_DIRTY) = B_VALID then kret ()
     else kseq (sleep_until ideintr (ChBuf b) LIde) (iderw_wait n b))"

definition iderw :: "nat \<Rightarrow> unit kern" where
  "iderw b =
     kbind (holdingsleep (SLBuf b)) (\<lambda>held.
     if \<not> held then panic ''iderw: buf not locked''
     else kbind (kget (\<lambda>s. bufs s ! b)) (\<lambda>bf.
     if b_flags bf AND (B_VALID OR B_DIRTY) = B_VALID then panic ''iderw: nothing to do''
     else kbind (kget (\<lambda>s. havedisk1 (ide s))) (\<lambda>have1.
     if b_dev bf \<noteq> 0 \<and> \<not> have1 then panic ''iderw: ide disk 1 not present''
     else
       kseq (acquire LIde) (
       kseq (kmod (upd_ide (\<lambda>i. i\<lparr>idequeue := idequeue i @ [b]\<rparr>))) (
       kbind (kget (\<lambda>s. idequeue (ide s))) (\<lambda>q.
       kseq (kwhen (hd q = b) (idestart (Some b))) (
       kseq (iderw_wait (Suc (length q)) b)
       (release LIde))))))))"

section \<open>Register round trip\<close>

definition ide_regs :: "u32 \<Rightarrow> u32 \<Rightarrow> idestate \<Rightarrow> idestate" where
  "ide_regs dev sector i = i\<lparr>ide_lba0 := ucast (sector AND 0xff),
     ide_lba1 := ucast (drop_bit 8 sector AND 0xff), ide_lba2 := ucast (drop_bit 16 sector AND 0xff),
     ide_drive := 0xe0 OR ucast (push_bit 4 (dev AND 1)) OR ucast (drop_bit 24 sector AND 0x0f)\<rparr>"

lemma byte_masks: "(0xff :: u32) = mask 8" "(0x0f :: u32) = mask 4" "(0x0f :: u8) = mask 4"
  "(0xe0 :: u8) = push_bit 5 (mask 3)"
  by (simp_all add: mask_eq_exp_minus_1)

lemma ide_sel_regs: "ide_sel (ide_regs dev sector i) = dev AND 1"
  by (rule bit_word_eqI)
    (auto simp: ide_sel_def ide_regs_def byte_masks bit_simps)

lemma bit_high_clear:
  assumes "unat (w :: u32) < 2 ^ m" and "m \<le> n"
  shows "\<not> bit w n"
proof
  assume "bit w n"
  then have "bit (unat w) n" by (simp add: bit_unsigned_iff bit_imp_le_length)
  moreover have "take_bit m (unat w) = unat w" using assms(1) by (rule take_bit_nat_eq_self)
  ultimately have "bit (take_bit m (unat w)) n" by simp
  with assms(2) show False by (simp add: bit_take_bit_iff)
qed

lemma ide_sector_regs:
  assumes "unat sector < 2 ^ 28"
  shows "ide_sector (ide_regs dev sector i) = sector"
proof (rule bit_word_eqI)
  fix n :: nat
  consider "n < 8" | m where "n = m + 8" "m < 8" | m where "n = m + 16" "m < 8"
    | m where "n = m + 24" "m < 4" | m where "n = m + 28"
  proof -
    have "\<exists>m. n < 8 \<or> n = m + 8 \<and> m < 8 \<or> n = m + 16 \<and> m < 8 \<or> n = m + 24 \<and> m < 4 \<or> n = m + 28"
      by presburger
    then show ?thesis using that by blast
  qed
  then show "bit (ide_sector (ide_regs dev sector i)) n \<longleftrightarrow> bit sector n"
    by cases (use bit_high_clear [OF assms, of n] in
      \<open>simp_all add: ide_sector_def ide_regs_def byte_masks bit_simps add.commute\<close>)
qed

section \<open>Running the driver\<close>

text \<open>A controller that is ready and reports no error.\<close>

definition ide_ready :: "idestate \<Rightarrow> bool" where
  "ide_ready i \<longleftrightarrow> (\<forall>d. ide_status i d AND (IDE_BSY OR IDE_DRDY) = IDE_DRDY \<and>
     ide_status i d AND (IDE_DF OR IDE_ERR) = 0)"

lemma idewait_owns:
  assumes "ide_ready (ide s)"
  shows "krun (owns H th) s (idewait e) 0 (owns H th) s"
  unfolding idewait_def
  by (rule kexec_kbind, rule kget_owns, simp)
    (use assms kexec_kret [of "owns H th" s 0] in \<open>simp add: ide_ready_def del: kret_run\<close>)

definition ide_issue :: "buf \<Rightarrow> idestate \<Rightarrow> idestate" where
  "ide_issue bf i =
     (let i' = ide_regs (b_dev bf) (b_blockno bf) i
      in if dirty_flag (b_flags bf) then put_sector (b_data bf) i' else i')"

lemma kwhen_owns:
  assumes "b \<Longrightarrow> krun (owns H th) s m () (owns H th) s'" and "\<not> b \<Longrightarrow> s' = s"
  shows "krun (owns H th) s (kwhen b m) () (owns H th) s'"
  using assms kexec_kwhen_False [of b "owns H th" s m] by (cases b) (auto intro: kexec_kwhen_True)

lemma idestart_owns:
  assumes "ide_ready (ide s)" and "unat (b_blockno (bufs s ! b)) < FSSIZE"
  shows "krun (owns H th) s (idestart (Some b)) () (owns H th) (upd_ide (ide_issue (bufs s ! b)) s)"
proof -
  have fin: "krun (owns H th) (upd_ide (ide_regs (b_dev (bufs s ! b)) (b_blockno (bufs s ! b))) s)
      (kwhen (dirty_flag (b_flags (bufs s ! b))) (kmod (upd_ide (put_sector (b_data (bufs s ! b)))))) ()
      (owns H th) (upd_ide (ide_issue (bufs s ! b)) s)"
    by (rule kwhen_owns, rule kmod_owns) (simp_all add: upd_ide_def ide_issue_def Let_def)
  show ?thesis
    unfolding idestart_def option.case
    apply (rule kexec_kbind, rule kget_owns, simp)
    apply (subst if_not_P, use assms(2) in simp, unfold Let_def)
    apply (rule kexec_kseq, rule idewait_owns, rule assms(1))
    apply (rule kexec_kseq, rule kmod_self_owns, simp add: upd_ide_def)+
    apply (rule kexec_state, rule fin, simp add: upd_ide_def ide_regs_def)
    done
qed

definition io_done :: "idestate \<Rightarrow> buf \<Rightarrow> buf" where
  "io_done i bf =
     bf\<lparr>b_data := (if dirty_flag (b_flags bf) then b_data bf else get_sector i),
        b_flags := (b_flags bf OR B_VALID) AND NOT B_DIRTY\<rparr>"

lemma ideintr_owns:
  assumes "idequeue (ide s) = [b]" and "ide_ready (ide s)" and "b < length (bufs s)"
    and "LIde \<notin> set H" and "LPtable \<notin> set H"
  shows "krun (owns H th) s ideintr () (owns H th)
    (s\<lparr>pt := woken (ChBuf b) (pt s), ide := (ide s)\<lparr>idequeue := []\<rparr>,
       bufs := (bufs s)[b := io_done (ide s) (bufs s ! b)]\<rparr>)"
proof -
  let ?s1 = "s\<lparr>ide := (ide s)\<lparr>idequeue := []\<rparr>\<rparr>"
  let ?bf = "bufs s ! b"
  let ?s2 = "?s1\<lparr>bufs := (bufs s)[b := ?bf\<lparr>b_data :=
      if dirty_flag (b_flags ?bf) then b_data ?bf else get_sector (ide s)\<rparr>]\<rparr>"
  have "get_sector ((ide s)\<lparr>idequeue := []\<rparr>) = get_sector (ide s)"
    by (simp add: get_sector_def ide_sel_def ide_sector_def)
  then have rd: "krun (owns (LIde # H) th) ?s1 (kwhen (\<not> dirty_flag (b_flags ?bf))
      (kbind (idewait True) (\<lambda>r. kwhen (0 \<le> r)
        (kmod (\<lambda>s. upd_buf b (\<lambda>f. f\<lparr>b_data := get_sector (ide s)\<rparr>) s))))) () (owns (LIde # H) th) ?s2"
    by (intro kwhen_owns kexec_kbind [OF idewait_owns] kmod_owns)
      (use assms(2,3) in \<open>auto simp: upd_buf_def ide_ready_def\<close>)
  have nil: "krun R t (kwhen ([] \<noteq> ([] :: nat list)) m) () R t" for R t and m :: "unit kern"
    by (rule kexec_kwhen_False) simp
  show ?thesis
    unfolding ideintr_def
    by (rule kexec_kseq, rule acquire_owns, rule assms(4), rule get_owns, simp, rule assms(1),
        unfold list.case, rule mod_owns, simp add: upd_ide_def, simp add: upd_ide_def,
        rule get_owns, simp, simp, rule kexec_kseq, rule rd,
        (rule mod_owns, simp add: upd_buf_def, simp add: upd_buf_def)+,
        rule kexec_kseq, rule wakeup_owns, simp add: assms(5), rule kexec_kseq, rule nil,
        rule krun_cong, rule release_head_owns)
      (use assms(3) in \<open>simp_all add: io_done_def\<close>)
qed

text \<open>What waiting for a wakeup on \<open>ch\<close> does to the process table.\<close>

definition io_wait :: "nat \<Rightarrow> chan \<Rightarrow> ptable \<Rightarrow> ptable" where
  "io_wait p ch t = resumed p (woken ch (slept p ch t))"

definition io_buf :: "idestate \<Rightarrow> buf \<Rightarrow> buf" where
  "io_buf i bf =
     bf\<lparr>b_data := (if dirty_flag (b_flags bf) then b_data bf else disks i (b_dev bf AND 1) (b_blockno bf)),
        b_flags := (b_flags bf OR B_VALID) AND NOT B_DIRTY\<rparr>"

definition can_wait :: "kstate \<Rightarrow> nat \<Rightarrow> bool" where
  "can_wait s p \<longleftrightarrow> p < length (procs (pt s)) \<and> p_kstack (proc_at s p) \<noteq> 0 \<and> p_pgdir (proc_at s p) \<noteq> 0"

definition io_ok :: "kstate \<Rightarrow> nat \<Rightarrow> nat \<Rightarrow> bool" where
  "io_ok s p b \<longleftrightarrow> b < length (bufs s) \<and> idequeue (ide s) = [] \<and> ide_ready (ide s) \<and> can_wait s p \<and>
     unat (b_blockno (bufs s ! b)) < FSSIZE \<and> (b_dev (bufs s ! b) \<noteq> 0 \<longrightarrow> havedisk1 (ide s))"

lemma ide_regs_fields [simp]:
  "disks (ide_regs d n i) = disks i" "ide_trace (ide_regs d n i) = ide_trace i"
  "idequeue (ide_regs d n i) = idequeue i" "ide_status (ide_regs d n i) = ide_status i"
  "havedisk1 (ide_regs d n i) = havedisk1 i"
  by (simp_all add: ide_regs_def)

lemma ide_issue_fields [simp]:
  "idequeue (ide_issue bf i) = idequeue i" "ide_status (ide_issue bf i) = ide_status i"
  "havedisk1 (ide_issue bf i) = havedisk1 i"
  by (simp_all add: ide_issue_def put_sector_def Let_def)

lemma ide_issue_queue: "ide_issue bf (i\<lparr>idequeue := q\<rparr>) = (ide_issue bf i)\<lparr>idequeue := q\<rparr>"
  by (simp add: ide_issue_def put_sector_def ide_regs_def Let_def ide_sel_def ide_sector_def)

lemma FSSIZE_sector: "unat n < FSSIZE \<Longrightarrow> unat (n :: u32) < 2 ^ 28"
  by (simp add: FSSIZE_def)

lemma ide_issue_disk:
  assumes "unat (b_blockno bf) < FSSIZE"
  shows "disks (ide_issue bf i) = (if dirty_flag (b_flags bf)
      then (disks i)(b_dev bf AND 1 := (disks i (b_dev bf AND 1))(b_blockno bf := b_data bf)) else disks i)"
    and "ide_trace (ide_issue bf i) = ide_trace i @
      (if dirty_flag (b_flags bf) then [(b_dev bf AND 1, b_blockno bf, b_data bf)] else [])"
  using FSSIZE_sector [OF assms]
  by (simp_all add: ide_issue_def put_sector_def Let_def ide_sel_regs ide_sector_regs)

lemma io_done_issue:
  assumes "unat (b_blockno bf) < FSSIZE"
  shows "io_done (ide_issue bf i) bf = io_buf i bf"
  using FSSIZE_sector [OF assms]
  by (simp add: io_done_def io_buf_def ide_issue_def Let_def get_sector_def ide_sel_regs ide_sector_regs)

lemma io_buf_queue [simp]: "io_buf (i\<lparr>idequeue := q\<rparr>) bf = io_buf i bf"
  by (simp add: io_buf_def)

lemma iderw_body_owns:
  assumes ok: "io_ok s p b"
    and todo: "\<not> (valid_flag (b_flags (bufs s ! b)) \<and> \<not> dirty_flag (b_flags (bufs s ! b)))"
  shows "krun (owns [LIde] (Some p, i)) (s\<lparr>ide := ide_issue (bufs s ! b) ((ide s)\<lparr>idequeue := [b]\<rparr>)\<rparr>)
    (iderw_wait 2 b) () (owns [LIde] (Some p, i))
    (s\<lparr>pt := io_wait p (ChBuf b) (pt s), ide := ide_issue (bufs s ! b) (ide s),
       bufs := (bufs s)[b := io_buf (ide s) (bufs s ! b)]\<rparr>)"
proof -
  let ?bf = "bufs s ! b"
  let ?s1 = "s\<lparr>ide := ide_issue ?bf ((ide s)\<lparr>idequeue := [b]\<rparr>)\<rparr>"
  let ?s2 = "s\<lparr>pt := woken (ChBuf b) (slept p (ChBuf b) (pt s)), ide := ide_issue ?bf (ide s),
       bufs := (bufs s)[b := io_buf (ide s) ?bf]\<rparr>"
  have q: "(ide_issue ?bf ((ide s)\<lparr>idequeue := [b]\<rparr>))\<lparr>idequeue := []\<rparr> = ide_issue ?bf (ide s)"
    using ok by (simp add: ide_issue_queue io_ok_def)
  have "krun (owns [] (None, False)) (?s1\<lparr>pt := slept p (ChBuf b) (pt s)\<rparr>) ideintr ()
      (owns [] (None, False)) ?s2"
    using ideintr_owns [of "?s1\<lparr>pt := slept p (ChBuf b) (pt s)\<rparr>" b "[]" "(None, False)"] ok
    by (simp add: q io_done_issue io_ok_def ide_ready_def)
  moreover have "p_state (proc_at ?s2 p) = RUNNABLE" "p_kstack (proc_at ?s2 p) \<noteq> 0"
    "p_pgdir (proc_at ?s2 p) \<noteq> 0"
    using ok by (auto simp: io_ok_def can_wait_def wakeup_proc_def)
  ultimately have sl: "krun (owns [LIde] (Some p, i)) ?s1 (sleep_until ideintr (ChBuf b) LIde) ()
      (owns [LIde] (Some p, i)) (?s2\<lparr>pt := io_wait p (ChBuf b) (pt s)\<rparr>)"
    using sleep_until_owns [of LIde p ?s1 ?s2 "ChBuf b" ideintr i] ok
    by (simp add: io_ok_def can_wait_def io_wait_def)
  have fl: "valid_flag (b_flags ((bufs s)[b := io_buf (ide s) ?bf] ! b)) \<and>
      \<not> dirty_flag (b_flags ((bufs s)[b := io_buf (ide s) ?bf] ! b))"
    using ok by (simp add: io_buf_def io_ok_def)
  show ?thesis
    unfolding numeral_2_eq_2 iderw_wait.simps flags_both_iff
    by (rule get_owns, simp, simp, subst if_not_P, rule todo, rule kexec_kseq, rule sl,
        rule get_owns, simp, simp, subst if_P, rule fl, rule krun_cong, rule kexec_kret) simp_all
qed

text \<open>
  \<open>iderw\<close> writes a dirty buffer to its sector and reads any other from it; either way the buffer ends
  up valid and clean.
\<close>

lemma iderw_owns:
  assumes ok: "io_ok s p b"
    and todo: "\<not> (valid_flag (b_flags (bufs s ! b)) \<and> \<not> dirty_flag (b_flags (bufs s ! b)))"
    and held: "sl_locked (b_lock (bufs s ! b))" "sl_pid (b_lock (bufs s ! b)) = p_pid (proc_at s p)"
  shows "krun (owns [] (Some p, i)) s (iderw b) () (owns [] (Some p, i))
    (s\<lparr>pt := io_wait p (ChBuf b) (pt s), ide := ide_issue (bufs s ! b) (ide s),
       bufs := (bufs s)[b := io_buf (ide s) (bufs s ! b)]\<rparr>)"
proof -
  let ?bf = "bufs s ! b"
  let ?s1 = "s\<lparr>ide := (ide s)\<lparr>idequeue := [b]\<rparr>\<rparr>"
  have start: "krun (owns [LIde] (Some p, i)) ?s1 (kwhen (hd [b] = b) (idestart (Some b))) ()
      (owns [LIde] (Some p, i)) (s\<lparr>ide := ide_issue ?bf ((ide s)\<lparr>idequeue := [b]\<rparr>)\<rparr>)"
    using idestart_owns [of ?s1 b "[LIde]" "(Some p, i)"] ok
    by (intro kexec_kwhen_True) (simp_all add: upd_ide_def io_ok_def ide_ready_def)
  have n: "Suc (length [b]) = 2" by simp
  have have1: "\<not> (b_dev ?bf \<noteq> 0 \<and> \<not> havedisk1 (ide s))" using ok by (auto simp: io_ok_def)
  have "krun (owns [] (Some p, i)) s (holdingsleep (SLBuf b)) True (owns [] (Some p, i)) s"
    using holdingsleep_owns [of "SLBuf b" "[]" p i s] held by simp
  then show ?thesis
    unfolding iderw_def flags_both_iff
    by (rule_tac kexec_kbind, assumption, simp only: simp_thms if_False, rule_tac get_owns, simp, rule_tac refl,
        subst if_not_P, rule_tac todo, rule_tac get_owns, simp, rule_tac refl,
        subst if_not_P, rule_tac have1, rule_tac kexec_kseq, rule_tac acquire_owns, simp,
        rule_tac mod_owns, simp add: upd_ide_def, use ok in \<open>simp add: upd_ide_def io_ok_def\<close>,
        rule_tac get_owns, simp, simp, rule_tac kexec_kseq, rule_tac start, unfold n,
        rule_tac kexec_kseq, rule_tac iderw_body_owns [OF ok todo], rule_tac release_head_owns)
qed

section \<open>The memory disk\<close>

text \<open>The file-system image linked into the kernel is disk 1, in blocks.\<close>

definition memide_ideinit :: "u32 \<Rightarrow> unit kern" where
  "memide_ideinit fs_img_size = kmod (upd_ide (\<lambda>i. i\<lparr>disksize := fs_img_size div of_nat BSIZE\<rparr>))"

definition memide_ideintr :: "unit kern" where
  "memide_ideintr = kret ()"

definition memide_iderw :: "nat \<Rightarrow> unit kern" where
  "memide_iderw b =
     kbind (holdingsleep (SLBuf b)) (\<lambda>held.
     if \<not> held then panic ''iderw: buf not locked''
     else kbind (kget (\<lambda>s. bufs s ! b)) (\<lambda>bf.
     if b_flags bf AND (B_VALID OR B_DIRTY) = B_VALID then panic ''iderw: nothing to do''
     else if b_dev bf \<noteq> 1 then panic ''iderw: request not for disk 1''
     else kbind (kget (\<lambda>s. disksize (ide s))) (\<lambda>n.
     if n \<le> b_blockno bf then panic ''iderw: block out of range''
     else
       kseq (if dirty_flag (b_flags bf)
         then kseq (kmod (upd_buf b (\<lambda>f. f\<lparr>b_flags := b_flags f AND NOT B_DIRTY\<rparr>)))
           (kmod (upd_ide (\<lambda>i. i\<lparr>disks := (disks i)(1 := (disks i 1)(b_blockno bf := b_data bf)),
              ide_trace := ide_trace i @ [(1, b_blockno bf, b_data bf)]\<rparr>)))
         else kmod (\<lambda>s. upd_buf b (\<lambda>f. f\<lparr>b_data := disks (ide s) 1 (b_blockno bf)\<rparr>) s))
       (kmod (upd_buf b (\<lambda>f. f\<lparr>b_flags := b_flags f OR B_VALID\<rparr>))))))"

definition mem_ok :: "kstate \<Rightarrow> nat \<Rightarrow> nat \<Rightarrow> bool" where
  "mem_ok s p b \<longleftrightarrow> b < length (bufs s) \<and> b_dev (bufs s ! b) = 1 \<and> b_blockno (bufs s ! b) < disksize (ide s)"

definition disk_after :: "buf \<Rightarrow> (u32 \<Rightarrow> u32 \<Rightarrow> block) \<Rightarrow> u32 \<Rightarrow> u32 \<Rightarrow> block" where
  "disk_after bf d =
     (if dirty_flag (b_flags bf)
      then d(b_dev bf AND 1 := (d (b_dev bf AND 1))(b_blockno bf := b_data bf)) else d)"

lemma memide_iderw_owns:
  assumes ok: "mem_ok s p b"
    and todo: "\<not> (valid_flag (b_flags (bufs s ! b)) \<and> \<not> dirty_flag (b_flags (bufs s ! b)))"
    and held: "sl_locked (b_lock (bufs s ! b))" "sl_pid (b_lock (bufs s ! b)) = p_pid (proc_at s p)"
  shows "krun (owns [] (Some p, i)) s (memide_iderw b) () (owns [] (Some p, i))
    (s\<lparr>ide := (ide s)\<lparr>disks := disk_after (bufs s ! b) (disks (ide s)), ide_trace := ide_trace (ide s) @
         (if dirty_flag (b_flags (bufs s ! b)) then [(1, b_blockno (bufs s ! b), b_data (bufs s ! b))] else [])\<rparr>,
       bufs := (bufs s)[b := io_buf (ide s) (bufs s ! b)]\<rparr>)"
proof -
  let ?bf = "bufs s ! b"
  have dev: "\<not> b_dev ?bf \<noteq> 1" and n: "\<not> disksize (ide s) \<le> b_blockno ?bf" and b: "b < length (bufs s)"
    using ok by (auto simp: mem_ok_def)
  have hold: "krun (owns [] (Some p, i)) s (holdingsleep (SLBuf b)) True (owns [] (Some p, i)) s"
    using holdingsleep_owns [of "SLBuf b" "[]" p i s] held by simp
  have comm: "f AND NOT B_DIRTY OR B_VALID = (f OR B_VALID) AND NOT B_DIRTY" for f
    by (rule bit_word_eqI) (auto simp: bit_simps bit_B_VALID bit_B_DIRTY)
  have clean: "\<not> dirty_flag f \<Longrightarrow> (f OR B_VALID) AND NOT B_DIRTY = f OR B_VALID" for f
    by (rule bit_word_eqI) (auto simp: dirty_flag_bit bit_simps bit_B_VALID bit_B_DIRTY)
  show ?thesis
  proof (cases "dirty_flag (b_flags ?bf)")
    case True
    then show ?thesis
      unfolding memide_iderw_def flags_both_iff
      by (rule_tac kexec_kbind, rule_tac hold, simp only: simp_thms if_False, rule_tac get_owns, simp,
          rule_tac refl, subst if_not_P, rule_tac todo, subst if_not_P, rule_tac dev, rule_tac get_owns, simp,
          rule_tac refl, subst if_not_P, rule_tac n, simp only: if_True, rule_tac kexec_kseq,
          rule_tac mod_owns, simp add: upd_buf_def, simp add: upd_buf_def, rule_tac kmod_self_owns,
          simp add: upd_ide_def, rule_tac kmod_owns)
        (use b dev comm in \<open>simp add: upd_buf_def upd_ide_def disk_after_def io_buf_def\<close>)
  next
    case False
    then show ?thesis
      unfolding memide_iderw_def flags_both_iff
      by (rule_tac kexec_kbind, rule_tac hold, simp only: simp_thms if_False, rule_tac get_owns, simp,
          rule_tac refl, subst if_not_P, rule_tac todo, subst if_not_P, rule_tac dev, rule_tac get_owns, simp,
          rule_tac refl, subst if_not_P, rule_tac n, simp only: if_False, rule_tac kexec_kseq,
          rule_tac kmod_self_owns, simp add: upd_buf_def, rule_tac kmod_owns)
        (use b dev clean in \<open>simp add: upd_buf_def upd_ide_def disk_after_def io_buf_def\<close>)
  qed
qed

section \<open>What a disk driver promises\<close>

text \<open>
  The contract \<open>bio.c\<close> relies on, which both drivers meet: for a buffer that is locked and has
  something to do, \<open>iderw\<close> returns with the buffer valid and clean, the sector written if the buffer was
  dirty and the buffer filled from the sector if not, and no other buffer touched.
\<close>

definition rw_request :: "kstate \<Rightarrow> nat \<Rightarrow> nat \<Rightarrow> bool" where
  "rw_request s p b \<longleftrightarrow>
     \<not> (valid_flag (b_flags (bufs s ! b)) \<and> \<not> dirty_flag (b_flags (bufs s ! b))) \<and>
     sl_locked (b_lock (bufs s ! b)) \<and> sl_pid (b_lock (bufs s ! b)) = p_pid (proc_at s p)"

locale disk_driver =
  fixes rw :: "nat \<Rightarrow> unit kern" and ready :: "kstate \<Rightarrow> nat \<Rightarrow> nat \<Rightarrow> bool"
  assumes ready_buf: "ready s p b \<Longrightarrow> b < length (bufs s)"
    and ready_upd: "ready s p b \<Longrightarrow> ready (upd_buf b (\<lambda>f. f\<lparr>b_flags := fl, b_data := d\<rparr>) s) p b"
    and rw_run: "ready s p b \<Longrightarrow> rw_request s p b \<Longrightarrow>
      \<exists>s'. krun (owns [] (Some p, i)) s (rw b) () (owns [] (Some p, i)) s' \<and>
        bufs s' = (bufs s)[b := io_buf (ide s) (bufs s ! b)] \<and>
        disks (ide s') = disk_after (bufs s ! b) (disks (ide s)) \<and>
        ready s' p b \<and> p_pid (proc_at s' p) = p_pid (proc_at s p)"
begin

text \<open>A dirty buffer that is written, dropped and read again has the data it had.\<close>

lemma write_read:
  assumes "ready s p b" and "rw_request s p b" and "dirty_flag (b_flags (bufs s ! b))"
  shows "\<exists>s'. krun (owns [] (Some p, i)) s
      (kseq (rw b) (kseq (kmod (upd_buf b (\<lambda>f. f\<lparr>b_flags := 0, b_data := junk\<rparr>))) (rw b))) ()
      (owns [] (Some p, i)) s' \<and>
    b_data (bufs s' ! b) = b_data (bufs s ! b) \<and> valid_flag (b_flags (bufs s' ! b))"
proof -
  let ?u = "upd_buf b (\<lambda>f. f\<lparr>b_flags := 0, b_data := junk\<rparr>)"
  have b: "b < length (bufs s)" using assms(1) by (rule ready_buf)
  obtain s1 where 1: "krun (owns [] (Some p, i)) s (rw b) () (owns [] (Some p, i)) s1"
    "bufs s1 = (bufs s)[b := io_buf (ide s) (bufs s ! b)]"
    "disks (ide s1) = disk_after (bufs s ! b) (disks (ide s))"
    "ready s1 p b" "p_pid (proc_at s1 p) = p_pid (proc_at s p)"
    using rw_run [OF assms(1,2)] by blast
  have req: "rw_request (?u s1) p b"
    using assms(2) b 1(2,5) by (simp add: rw_request_def upd_buf_def io_buf_def)
  obtain s2 where 2: "krun (owns [] (Some p, i)) (?u s1) (rw b) () (owns [] (Some p, i)) s2"
    "bufs s2 = (bufs (?u s1))[b := io_buf (ide (?u s1)) (bufs (?u s1) ! b)]"
    using rw_run [OF ready_upd [OF 1(4)] req] by blast
  have "krun (owns [] (Some p, i)) s (kseq (rw b) (kseq (kmod ?u) (rw b))) () (owns [] (Some p, i)) s2"
    by (rule kexec_kseq, rule 1(1), rule kexec_kseq, rule kmod_self_owns, simp add: upd_buf_def, rule 2(1))
  moreover have "b_data (bufs s2 ! b) = b_data (bufs s ! b)" "valid_flag (b_flags (bufs s2 ! b))"
    using 1(2,3) 2(2) b assms(3) by (simp_all add: upd_buf_def io_buf_def disk_after_def)
  ultimately show ?thesis by blast
qed

end

lemma io_wait_fields:
  assumes "p < length (procs t)"
  shows "length (procs (io_wait p ch t)) = length (procs t)"
    and "procs (io_wait p ch t) ! p = (procs t ! p)\<lparr>p_state := RUNNING, p_chan := None\<rparr>"
    and "nextpid (io_wait p ch t) = nextpid t" and "initproc (io_wait p ch t) = initproc t"
    and "q < length (procs t) \<Longrightarrow> q \<noteq> p \<Longrightarrow> procs (io_wait p ch t) ! q = wakeup_proc ch (procs t ! q)"
  using assms by (simp_all add: io_wait_def wakeup_proc_def)

interpretation ide_disk: disk_driver iderw io_ok
proof unfold_locales
  fix s p b fl d i
  assume ok: "io_ok s p b"
  then show "b < length (bufs s)" by (simp add: io_ok_def)
  from ok show "io_ok (upd_buf b (\<lambda>f. f\<lparr>b_flags := fl, b_data := d\<rparr>) s) p b"
    by (simp add: io_ok_def upd_buf_def can_wait_def)
  assume req: "rw_request s p b"
  let ?s' = "s\<lparr>pt := io_wait p (ChBuf b) (pt s), ide := ide_issue (bufs s ! b) (ide s),
       bufs := (bufs s)[b := io_buf (ide s) (bufs s ! b)]\<rparr>"
  have "krun (owns [] (Some p, i)) s (iderw b) () (owns [] (Some p, i)) ?s'"
    using iderw_owns [OF ok] req by (simp add: rw_request_def)
  moreover have "disks (ide ?s') = disk_after (bufs s ! b) (disks (ide s))"
    using ok by (simp add: ide_issue_disk io_ok_def disk_after_def)
  moreover have "io_ok ?s' p b" "p_pid (proc_at ?s' p) = p_pid (proc_at s p)"
    using ok by (auto simp: io_ok_def can_wait_def io_wait_fields io_buf_def ide_ready_def)
  ultimately show "\<exists>s'. krun (owns [] (Some p, i)) s (iderw b) () (owns [] (Some p, i)) s' \<and>
        bufs s' = (bufs s)[b := io_buf (ide s) (bufs s ! b)] \<and>
        disks (ide s') = disk_after (bufs s ! b) (disks (ide s)) \<and>
        io_ok s' p b \<and> p_pid (proc_at s' p) = p_pid (proc_at s p)"
    by (intro exI [of _ ?s']) simp
qed

interpretation mem_disk: disk_driver memide_iderw mem_ok
proof unfold_locales
  fix s p b fl d i
  assume ok: "mem_ok s p b"
  then show "b < length (bufs s)" by (simp add: mem_ok_def)
  from ok show "mem_ok (upd_buf b (\<lambda>f. f\<lparr>b_flags := fl, b_data := d\<rparr>) s) p b"
    by (simp add: mem_ok_def upd_buf_def)
  assume req: "rw_request s p b"
  let ?s' = "s\<lparr>ide := (ide s)\<lparr>disks := disk_after (bufs s ! b) (disks (ide s)), ide_trace := ide_trace (ide s) @
         (if dirty_flag (b_flags (bufs s ! b)) then [(1, b_blockno (bufs s ! b), b_data (bufs s ! b))] else [])\<rparr>,
       bufs := (bufs s)[b := io_buf (ide s) (bufs s ! b)]\<rparr>"
  have "krun (owns [] (Some p, i)) s (memide_iderw b) () (owns [] (Some p, i)) ?s'"
    using memide_iderw_owns [OF ok] req by (simp add: rw_request_def)
  moreover have "mem_ok ?s' p b"
    using ok by (simp add: mem_ok_def io_buf_def)
  ultimately show "\<exists>s'. krun (owns [] (Some p, i)) s (memide_iderw b) () (owns [] (Some p, i)) s' \<and>
        bufs s' = (bufs s)[b := io_buf (ide s) (bufs s ! b)] \<and>
        disks (ide s') = disk_after (bufs s ! b) (disks (ide s)) \<and>
        mem_ok s' p b \<and> p_pid (proc_at s' p) = p_pid (proc_at s p)"
    by (intro exI [of _ ?s']) simp
qed

section \<open>Properties\<close>

text \<open>
  C3. The disk driver round trip: a locked dirty buffer handed to \<open>iderw\<close>, then reused (its flags
  cleared and its data overwritten) and handed to \<open>iderw\<close> again, comes back valid with the data that was
  written. Both calls return: the sleep in \<open>iderw\<close> ends with the interrupt that completes the request.
\<close>

theorem iderw_write_read:
  assumes "crit (hw s) [] (Some p, i)" and "io_ok s p b" and "rw_request s p b"
    and "dirty_flag (b_flags (bufs s ! b))"
  shows "\<exists>t. kseq (iderw b) (kseq (kmod (upd_buf b (\<lambda>f. f\<lparr>b_flags := 0, b_data := junk\<rparr>))) (iderw b)) s =
      Inr ((), t) \<and> b_data (bufs t ! b) = b_data (bufs s ! b) \<and> valid_flag (b_flags (bufs t ! b))"
proof -
  obtain s' where s': "krun (owns [] (Some p, i)) s
      (kseq (iderw b) (kseq (kmod (upd_buf b (\<lambda>f. f\<lparr>b_flags := 0, b_data := junk\<rparr>))) (iderw b))) ()
      (owns [] (Some p, i)) s'"
    "b_data (bufs s' ! b) = b_data (bufs s ! b)" "valid_flag (b_flags (bufs s' ! b))"
    using ide_disk.write_read [OF assms(2-4)] by blast
  obtain t where "kseq (iderw b) (kseq (kmod (upd_buf b (\<lambda>f. f\<lparr>b_flags := 0, b_data := junk\<rparr>))) (iderw b)) s =
      Inr ((), t)" "owns [] (Some p, i) s' t"
    using krunE [OF s'(1) owns_self [OF assms(1)]] by blast
  with s' show ?thesis by (auto simp: owns_def)
qed

definition dirty_kernel :: kstate where
  "dirty_kernel = upd_buf 0 (\<lambda>f. f\<lparr>b_flags := B_DIRTY, b_dev := 1, b_blockno := 77,
     b_lock := \<lparr>sl_locked = True, sl_name = [], sl_pid = 1\<rparr>, b_data := replicate BSIZE 5\<rparr>) zero_kernel"

theorem iderw_write_read_witness:
  "\<exists>t. kseq (iderw 0) (kseq (kmod (upd_buf 0 (\<lambda>f. f\<lparr>b_flags := 0, b_data := []\<rparr>))) (iderw 0)) dirty_kernel =
      Inr ((), t) \<and> b_data (bufs t ! 0) = replicate BSIZE 5"
proof -
  have "crit (hw dirty_kernel) [] (Some 0, True)"
    using zero_kernel_crit by (simp add: dirty_kernel_def upd_buf_def)
  moreover have "io_ok dirty_kernel 0 0" "rw_request dirty_kernel 0 0"
    "dirty_flag (b_flags (bufs dirty_kernel ! 0))" "b_data (bufs dirty_kernel ! 0) = replicate BSIZE 5"
    by (simp_all add: io_ok_def rw_request_def dirty_kernel_def upd_buf_def zero_kernel_def zero_ide_def
        ide_ready_def can_wait_def first_proc_def FSSIZE_def IDE_BSY_def IDE_DRDY_def IDE_DF_def IDE_ERR_def
        dirty_flag_def B_DIRTY_def)
  ultimately show ?thesis using iderw_write_read [of dirty_kernel 0 True 0 "[]"] by auto
qed

end
