(* ===== verification/Ring.thy ===== *)
theory Ring
  imports Prelude
begin

text \<open>
  Circular doubly linked lists through a head node, as \<open>bio.c\<close> threads its buffers and \<open>kalloc.c\<close> the
  resident pages. \<open>path\<close> follows one pointer, \<open>ring\<close> says that the \<open>next\<close> and \<open>prev\<close> pointers of a store
  describe the sequence \<open>xs\<close> around the head \<open>h\<close>, and the locale \<open>linked_store\<close> shows once what the
  pointer assignments of an unlink and of an insertion at the front do to that sequence.
\<close>

fun path :: "('n \<Rightarrow> 'n) \<Rightarrow> 'n \<Rightarrow> 'n list \<Rightarrow> 'n \<Rightarrow> bool" where
  "path nx a [] b \<longleftrightarrow> nx a = b"
| "path nx a (x # xs) b \<longleftrightarrow> nx a = x \<and> path nx x xs b"

lemma path_append: "path nx a (xs @ y # ys) b \<longleftrightarrow> path nx a xs y \<and> path nx y ys b"
  by (induction xs arbitrary: a) auto

lemma path_upd_other: "c \<notin> set (a # xs) \<Longrightarrow> path (nx(c := v)) a xs b \<longleftrightarrow> path nx a xs b"
  by (induction xs arbitrary: a) auto

lemma path_upd_last:
  assumes "path nx a xs b" and "distinct (a # xs)"
  shows "path (nx(last (a # xs) := v)) a xs v"
  using assms by (induction xs arbitrary: a) (auto simp: path_upd_other)

lemma path_last: "path nx a xs b \<Longrightarrow> nx (last (a # xs)) = b"
  by (induction xs arbitrary: a) auto

text \<open>A loop \<open>for(b = head.next; b != &head; b = b->next) if(cond) return b;\<close> with a bound on its rounds.\<close>

fun scan :: "nat \<Rightarrow> ('n \<Rightarrow> 'n) \<Rightarrow> 'n \<Rightarrow> ('n \<Rightarrow> bool) \<Rightarrow> 'n \<Rightarrow> 'n option option" where
  "scan 0 nx h P b = None"
| "scan (Suc n) nx h P b =
     (if b = h then Some None else if P b then Some (Some b) else scan n nx h P (nx b))"

lemma scan_path:
  "path nx a xs h \<Longrightarrow> h \<notin> set xs \<Longrightarrow> length xs < n \<Longrightarrow> scan n nx h P (nx a) = Some (find P xs)"
proof (induction xs arbitrary: a n)
  case Nil
  then show ?case by (cases n) auto
next
  case (Cons x xs)
  then obtain m where "n = Suc m" by (cases n) auto
  with Cons.prems Cons.IH [of x m] show ?case by auto
qed

definition ring :: "('n \<Rightarrow> 'n) \<Rightarrow> ('n \<Rightarrow> 'n) \<Rightarrow> 'n \<Rightarrow> 'n list \<Rightarrow> bool" where
  "ring nx pv h xs \<longleftrightarrow> distinct (h # xs) \<and> path nx h xs h \<and> path pv h (rev xs) h"

lemma ring_scan_next: "ring nx pv h xs \<Longrightarrow> length xs < n \<Longrightarrow> scan n nx h P (nx h) = Some (find P xs)"
  by (auto simp: ring_def intro: scan_path)

lemma ring_scan_prev: "ring nx pv h xs \<Longrightarrow> length xs < n \<Longrightarrow> scan n pv h P (pv h) = Some (find P (rev xs))"
  by (rule scan_path) (auto simp: ring_def)

lemma ring_empty: "nx h = h \<Longrightarrow> pv h = h \<Longrightarrow> ring nx pv h []"
  by (simp add: ring_def)

lemma ring_push:
  assumes "ring nx pv h xs" and "b \<notin> set (h # xs)"
  shows "ring (nx(b := nx h, h := b)) (pv(b := h, nx h := b)) h (b # xs)"
proof (cases xs)
  case Nil
  with assms show ?thesis by (auto simp: ring_def)
next
  case (Cons x ys)
  then have x: "nx h = x" "path nx x ys h" "x \<noteq> h" "x \<noteq> b" "b \<noteq> h" "b \<notin> set ys" "h \<notin> set ys"
    "distinct (x # ys)" and pv: "path pv h (rev ys) x" "pv x = h"
    using assms by (auto simp: ring_def path_append)
  have "path (nx(b := x, h := b)) x ys h"
    using x by (simp add: path_upd_other)
  moreover have "path (pv(b := h, x := b)) h (rev ys) x"
    using x pv(1) by (simp add: path_upd_other)
  ultimately show ?thesis
    using x Cons by (auto simp: ring_def path_append)
qed

lemma path_skip:
  assumes "path nx a (xs @ b # ys) c" and "distinct (a # xs @ b # ys)"
  shows "path (nx(last (a # xs) := nx b)) a (xs @ ys) c"
proof -
  from assms have 1: "path nx a xs b" "path nx b ys c" by (simp_all add: path_append)
  have l: "last (a # xs) \<in> set (a # xs)" by (rule last_in_set) simp
  show ?thesis
  proof (cases ys)
    case Nil
    then show ?thesis using path_upd_last [OF 1(1)] 1(2) assms(2) by simp
  next
    case (Cons y zs)
    have "path (nx(last (a # xs) := nx b)) y zs c"
      using 1(2) Cons assms(2) l by (subst path_upd_other) auto
    then show ?thesis
      using path_upd_last [OF 1(1), of "nx b"] 1(2) Cons assms(2) by (simp add: path_append)
  qed
qed

lemma ring_unlink:
  assumes "ring nx pv h xs" and "b \<in> set xs"
  shows "ring (nx(pv b := nx b)) (pv(nx b := pv b)) h (remove1 b xs)"
proof -
  from assms(2) obtain ys zs where xs: "xs = ys @ b # zs" by (meson split_list)
  with assms(1) have d: "distinct (h # ys @ b # zs)" "path nx h (ys @ b # zs) h"
    "path pv h (rev zs @ b # rev ys) h"
    by (auto simp: ring_def)
  have pvb: "pv b = last (h # ys)"
  proof (cases ys rule: rev_cases)
    case Nil
    then show ?thesis using d(3) by (simp add: path_append)
  next
    case (snoc us u)
    then show ?thesis using d(3) by (simp add: path_append)
  qed
  have nxb: "nx b = last (h # rev zs)"
  proof (cases zs)
    case Nil
    then show ?thesis using d(2) by (simp add: path_append)
  next
    case (Cons z us)
    then show ?thesis using d(2) by (simp add: path_append)
  qed
  have "path (nx(pv b := nx b)) h (ys @ zs) h"
    unfolding pvb using path_skip [OF d(2)] d(1) by simp
  moreover have "distinct (h # rev zs @ b # rev ys)" using d(1) by auto
  then have "path (pv(nx b := pv b)) h (rev zs @ rev ys) h"
    unfolding nxb by (rule path_skip [OF d(3)])
  moreover have "remove1 b xs = ys @ zs" using d(1) xs by (simp add: remove1_append)
  ultimately show ?thesis using d(1) by (simp add: ring_def)
qed

section \<open>Pointer assignments in a store\<close>

definition ring_in :: "('n \<Rightarrow> 'n) \<Rightarrow> ('n \<Rightarrow> 'n) \<Rightarrow> ('n \<Rightarrow> bool) \<Rightarrow> 'n \<Rightarrow> 'n list \<Rightarrow> bool" where
  "ring_in nx pv nd h xs \<longleftrightarrow> ring nx pv h xs \<and> (\<forall>x \<in> set (h # xs). nd x)"

locale linked_store =
  fixes next_of :: "'s \<Rightarrow> nat \<Rightarrow> nat" and prev_of :: "'s \<Rightarrow> nat \<Rightarrow> nat"
    and set_next :: "nat \<Rightarrow> nat \<Rightarrow> 's \<Rightarrow> 's" and set_prev :: "nat \<Rightarrow> nat \<Rightarrow> 's \<Rightarrow> 's"
    and node :: "'s \<Rightarrow> nat \<Rightarrow> bool"
  assumes next_set_next: "node s i \<Longrightarrow> next_of (set_next i v s) = (next_of s)(i := v)"
    and prev_set_prev: "node s i \<Longrightarrow> prev_of (set_prev i v s) = (prev_of s)(i := v)"
    and next_set_prev: "next_of (set_prev i v s) = next_of s"
    and prev_set_next: "prev_of (set_next i v s) = prev_of s"
    and node_set_next: "node (set_next i v s) j = node s j"
    and node_set_prev: "node (set_prev i v s) j = node s j"
begin

lemmas store_laws = next_set_next prev_set_prev next_set_prev prev_set_next node_set_next node_set_prev

lemma neighbours:
  assumes "ring_in (next_of s) (prev_of s) (node s) h xs" and "b \<in> set (h # xs)"
  shows "next_of s b \<in> set (h # xs)" and "prev_of s b \<in> set (h # xs)"
proof -
  have *: "nx b \<in> set (h # xs)" if "path nx a xs h" "b \<in> set (a # xs)" for nx a and xs :: "nat list"
    using that
  proof (induction xs arbitrary: a)
    case (Cons x xs)
    then show ?case by (cases "b = a") auto
  qed simp
  from assms have "path (next_of s) h xs h" "path (prev_of s) h (rev xs) h" by (simp_all add: ring_in_def ring_def)
  with * [of "next_of s" h xs] * [of "prev_of s" h "rev xs"] assms(2)
  show "next_of s b \<in> set (h # xs)" "prev_of s b \<in> set (h # xs)" by auto
qed

text \<open>
  \<open>b->next = head.next; b->prev = &head; head.next->prev = b; head.next = b;\<close>
\<close>

lemma insert_front:
  assumes "ring_in (next_of s) (prev_of s) (node s) h xs" and "b \<notin> set (h # xs)" and "node s b"
  defines "s1 \<equiv> set_prev b h (set_next b (next_of s h) s)"
  defines "s2 \<equiv> set_prev (next_of s1 h) b s1"
  shows "ring_in (next_of (set_next h b s2)) (prev_of (set_next h b s2)) (node (set_next h b s2)) h (b # xs)"
proof -
  have n: "node s h" "node s (next_of s h)" and nb: "next_of s h \<in> set (h # xs)"
    using neighbours [OF assms(1), of h] assms(1) by (auto simp: ring_in_def)
  have "next_of s1 h = next_of s h"
    using assms(2,3) by (auto simp: s1_def store_laws)
  then have "next_of (set_next h b s2) = (next_of s)(b := next_of s h, h := b)"
    "prev_of (set_next h b s2) = (prev_of s)(b := h, next_of s h := b)"
    using n assms(3) by (simp_all add: s1_def s2_def store_laws)
  with ring_push [of "next_of s" "prev_of s" h xs b] assms(1-3) show ?thesis
    by (auto simp: ring_in_def s1_def s2_def store_laws)
qed

text \<open>\<open>b->next->prev = b->prev; b->prev->next = b->next;\<close>\<close>

lemma unlink:
  assumes "ring_in (next_of s) (prev_of s) (node s) h xs" and "b \<in> set xs"
  defines "s1 \<equiv> set_prev (next_of s b) (prev_of s b) s"
  shows "ring_in (next_of (set_next (prev_of s1 b) (next_of s1 b) s1)) (prev_of (set_next (prev_of s1 b) (next_of s1 b) s1)) (node (set_next (prev_of s1 b) (next_of s1 b) s1)) h (remove1 b xs)"
proof -
  have n: "node s (next_of s b)" "node s (prev_of s b)" "node s b"
    using neighbours [OF assms(1), of b] assms(1,2) by (auto simp: ring_in_def)
  have "next_of s b \<noteq> b"
  proof
    assume eq: "next_of s b = b"
    from assms(2) obtain ys zs where xs: "xs = ys @ b # zs" by (meson split_list)
    with assms(1) eq show False
      by (cases zs) (auto simp: ring_in_def ring_def path_append)
  qed
  then have "prev_of s1 b = prev_of s b" "next_of s1 b = next_of s b"
    using n by (simp_all add: s1_def store_laws)
  then have "next_of (set_next (prev_of s1 b) (next_of s1 b) s1) = (next_of s)(prev_of s b := next_of s b)"
    "prev_of (set_next (prev_of s1 b) (next_of s1 b) s1) = (prev_of s)(next_of s b := prev_of s b)"
    using n by (simp_all add: s1_def store_laws)
  with ring_unlink [of "next_of s" "prev_of s" h xs b] assms(1,2) show ?thesis
    by (auto simp: ring_in_def s1_def store_laws dest: in_set_remove1 set_remove1_subset [THEN subsetD])
qed

end

end
