(* ===== verification/Bio.thy ===== *)
theory Bio
  imports Ide Ring
begin

text \<open>
  The buffer cache \<open>bio.c\<close>. \<open>bufs\<close> holds the \<open>NBUF\<close> buffers of \<open>bcache.buf\<close> and, at index \<open>NBUF\<close>, the
  node \<open>bcache.head\<close>; the \<open>prev\<close> and \<open>next\<close> pointers are modelled as they are, and \<open>bcache_ok s xs\<close> says
  that they thread the buffers in the order \<open>xs\<close>, most recently used first. The second half of the theory
  abstracts the cache to a disk with held and pinned blocks.
\<close>

section \<open>Operations\<close>

abbreviation bhead :: nat where
  "bhead \<equiv> NBUF"

definition bnext :: "kstate \<Rightarrow> nat \<Rightarrow> nat" where
  "bnext s i = b_next (bufs s ! i)"

definition bprev :: "kstate \<Rightarrow> nat \<Rightarrow> nat" where
  "bprev s i = b_prev (bufs s ! i)"

definition set_bnext :: "nat \<Rightarrow> nat \<Rightarrow> kstate \<Rightarrow> kstate" where
  "set_bnext i v = upd_buf i (\<lambda>f. f\<lparr>b_next := v\<rparr>)"

definition set_bprev :: "nat \<Rightarrow> nat \<Rightarrow> kstate \<Rightarrow> kstate" where
  "set_bprev i v = upd_buf i (\<lambda>f. f\<lparr>b_prev := v\<rparr>)"

text \<open>Insertion behind the head, shared by \<open>binit\<close> and \<open>brelse\<close> up to the place of \<open>initsleeplock\<close>.\<close>

definition binit_buf :: "nat \<Rightarrow> unit kern" where
  "binit_buf b =
     kseq (kmod (\<lambda>s. set_bnext b (bnext s bhead) s)) (
     kseq (kmod (set_bprev b bhead)) (
     kseq (initsleeplock (SLBuf b) ''buffer'') (
     kseq (kmod (\<lambda>s. set_bprev (bnext s bhead) b s))
     (kmod (set_bnext bhead b)))))"

definition binit :: "unit kern" where
  "binit =
     kseq (initlock LBcache ''bcache'') (
     kseq (kmod (set_bprev bhead bhead)) (
     kseq (kmod (set_bnext bhead bhead))
     (kfor [0..<NBUF] binit_buf)))"

definition bget_cached :: "kstate \<Rightarrow> u32 \<Rightarrow> u32 \<Rightarrow> nat option option" where
  "bget_cached s dev blockno =
     scan (Suc NBUF) (bnext s) bhead (\<lambda>b. b_dev (bufs s ! b) = dev \<and> b_blockno (bufs s ! b) = blockno)
       (bnext s bhead)"

definition bget_unused :: "kstate \<Rightarrow> nat option option" where
  "bget_unused s =
     scan (Suc NBUF) (bprev s) bhead (\<lambda>b. b_refcnt (bufs s ! b) = 0 \<and> \<not> dirty_flag (b_flags (bufs s ! b)))
       (bprev s bhead)"

definition bget :: "u32 \<Rightarrow> u32 \<Rightarrow> nat kern" where
  "bget dev blockno =
     kseq (acquire LBcache) (
     kbind (kget (\<lambda>s. bget_cached s dev blockno)) (\<lambda>r.
     case r of
       None \<Rightarrow> kstop Spin
     | Some (Some b) \<Rightarrow>
         kseq (kmod (upd_buf b (\<lambda>f. f\<lparr>b_refcnt := b_refcnt f + 1\<rparr>))) (
         kseq (release LBcache) (
         kseq (acquiresleep (SLBuf b))
         (kret b)))
     | Some None \<Rightarrow>
         kbind (kget bget_unused) (\<lambda>r'.
         case r' of
           None \<Rightarrow> kstop Spin
         | Some (Some b) \<Rightarrow>
             kseq (kmod (upd_buf b (\<lambda>f. f\<lparr>b_dev := dev, b_blockno := blockno, b_flags := 0, b_refcnt := 1\<rparr>))) (
             kseq (release LBcache) (
             kseq (acquiresleep (SLBuf b))
             (kret b)))
         | Some None \<Rightarrow> panic ''bget: no buffers'')))"

definition bread :: "u32 \<Rightarrow> u32 \<Rightarrow> nat kern" where
  "bread dev blockno =
     kbind (bget dev blockno) (\<lambda>b.
     kbind (kget (\<lambda>s. b_flags (bufs s ! b))) (\<lambda>f.
     kseq (kwhen (\<not> valid_flag f) (iderw b))
     (kret b)))"

definition bwrite :: "nat \<Rightarrow> unit kern" where
  "bwrite b =
     kbind (holdingsleep (SLBuf b)) (\<lambda>h.
     if \<not> h then panic ''bwrite''
     else
       kseq (kmod (upd_buf b (\<lambda>f. f\<lparr>b_flags := b_flags f OR B_DIRTY\<rparr>)))
       (iderw b))"

definition brelse :: "nat \<Rightarrow> unit kern" where
  "brelse b =
     kbind (holdingsleep (SLBuf b)) (\<lambda>h.
     if \<not> h then panic ''brelse''
     else
       kseq (releasesleep (SLBuf b)) (
       kseq (acquire LBcache) (
       kseq (kmod (upd_buf b (\<lambda>f. f\<lparr>b_refcnt := b_refcnt f - 1\<rparr>))) (
       kbind (kget (\<lambda>s. b_refcnt (bufs s ! b))) (\<lambda>r.
       kseq (kwhen (r = 0) (
         kseq (kmod (\<lambda>s. set_bprev (bnext s b) (bprev s b) s)) (
         kseq (kmod (\<lambda>s. set_bnext (bprev s b) (bnext s b) s)) (
         kseq (kmod (\<lambda>s. set_bnext b (bnext s bhead) s)) (
         kseq (kmod (set_bprev b bhead)) (
         kseq (kmod (\<lambda>s. set_bprev (bnext s bhead) b s))
         (kmod (set_bnext bhead b))))))))
       (release LBcache))))))"

section \<open>The ring of buffers\<close>

definition buf_node :: "kstate \<Rightarrow> nat \<Rightarrow> bool" where
  "buf_node s i \<longleftrightarrow> i < length (bufs s)"

interpretation buf_ring: linked_store bnext bprev set_bnext set_bprev buf_node
  by unfold_locales
    (auto simp: bnext_def bprev_def set_bnext_def set_bprev_def upd_buf_def buf_node_def nth_list_update_if)

definition bcache_ok :: "kstate \<Rightarrow> nat list \<Rightarrow> bool" where
  "bcache_ok s xs \<longleftrightarrow> length (bufs s) = Suc NBUF \<and> ring (bnext s) (bprev s) bhead xs \<and> set xs = {..<NBUF}"

lemma bcache_ring_in: "bcache_ok s xs \<Longrightarrow> ring_in (bnext s) (bprev s) (buf_node s) bhead xs"
  by (auto simp: bcache_ok_def ring_in_def buf_node_def)

lemma bcache_ok_length: "bcache_ok s xs \<Longrightarrow> length xs = NBUF"
  by (metis bcache_ok_def card_lessThan distinct.simps(2) distinct_card ring_def)

lemma bget_cached_find:
  "bcache_ok s xs \<Longrightarrow> bget_cached s dev blockno =
     Some (find (\<lambda>b. b_dev (bufs s ! b) = dev \<and> b_blockno (bufs s ! b) = blockno) xs)"
  unfolding bget_cached_def by (rule ring_scan_next) (auto simp: bcache_ok_length, auto simp: bcache_ok_def)

lemma bget_unused_find:
  "bcache_ok s xs \<Longrightarrow> bget_unused s =
     Some (find (\<lambda>b. b_refcnt (bufs s ! b) = 0 \<and> \<not> dirty_flag (b_flags (bufs s ! b))) (rev xs))"
  unfolding bget_unused_def by (rule ring_scan_prev) (auto simp: bcache_ok_length, auto simp: bcache_ok_def)

text \<open>The order depends on the pointers only.\<close>

lemma bcache_ok_upd:
  "b_next f = b_next (bufs s ! b) \<Longrightarrow> b_prev f = b_prev (bufs s ! b) \<Longrightarrow>
    bcache_ok (s\<lparr>bufs := (bufs s)[b := f]\<rparr>) xs \<longleftrightarrow> bcache_ok s xs"
proof -
  assume f: "b_next f = b_next (bufs s ! b)" "b_prev f = b_prev (bufs s ! b)"
  then have "bnext (s\<lparr>bufs := (bufs s)[b := f]\<rparr>) = bnext s" "bprev (s\<lparr>bufs := (bufs s)[b := f]\<rparr>) = bprev s"
    by (auto simp: bnext_def bprev_def nth_list_update_if)
  then show ?thesis by (simp add: bcache_ok_def)
qed

lemma bcache_ok_fields [simp]:
  "bcache_ok (s\<lparr>hw := h\<rparr>) xs \<longleftrightarrow> bcache_ok s xs" "bcache_ok (s\<lparr>pt := t\<rparr>) xs \<longleftrightarrow> bcache_ok s xs"
  "bcache_ok (s\<lparr>ide := i\<rparr>) xs \<longleftrightarrow> bcache_ok s xs"
  by (simp_all add: bcache_ok_def bnext_def [abs_def] bprev_def [abs_def])

section \<open>Running the operations\<close>

lemma bget_fields [simp]:
  "bget_cached (s\<lparr>hw := h\<rparr>) d n = bget_cached s d n" "bget_unused (s\<lparr>hw := h\<rparr>) = bget_unused s"
  "bnext (s\<lparr>hw := h\<rparr>) = bnext s" "bprev (s\<lparr>hw := h\<rparr>) = bprev s"
  by (simp_all add: bget_cached_def bget_unused_def bnext_def [abs_def] bprev_def [abs_def])

text \<open>Both ways out of \<open>bget\<close> lock the buffer after the cache lock has been dropped.\<close>

lemma bget_lock_owns:
  assumes "b < length (bufs s)" and "\<not> sl_locked (b_lock (f (bufs s ! b)))"
  shows "krun (owns [LBcache] (Some p, i)) s
      (kseq (kmod (upd_buf b f)) (kseq (release LBcache) (kseq (acquiresleep (SLBuf b)) (kret b)))) b
      (owns [] (Some p, i))
      (s\<lparr>bufs := (bufs s)[b := (f (bufs s ! b))\<lparr>b_lock :=
         take_lock (p_pid (proc_at s p)) (b_lock (f (bufs s ! b)))\<rparr>]\<rparr>)"
  by (rule kexec_kseq, rule kmod_self_owns, simp add: upd_buf_def, rule kexec_kseq, rule release_head_owns,
      rule kexec_kseq, rule acquiresleep_owns, simp add: upd_buf_def assms(1),
      simp add: upd_buf_def assms, simp, rule krun_cong, rule kexec_kret)
    (simp_all add: upd_buf_def assms(1))

lemma bget_hit_owns:
  assumes "bcache_ok s xs" and "b < NBUF"
    and "find (\<lambda>b. b_dev (bufs s ! b) = dev \<and> b_blockno (bufs s ! b) = blockno) xs = Some b"
    and "\<not> sl_locked (b_lock (bufs s ! b))"
  shows "krun (owns [] (Some p, i)) s (bget dev blockno) b (owns [] (Some p, i))
      (s\<lparr>bufs := (bufs s)[b := (bufs s ! b)\<lparr>b_refcnt := b_refcnt (bufs s ! b) + 1, b_lock :=
         take_lock (p_pid (proc_at s p)) (b_lock (bufs s ! b))\<rparr>]\<rparr>)"
proof -
  have b: "b < length (bufs s)" using assms(1,2) by (simp add: bcache_ok_def)
  show ?thesis
    unfolding bget_def
    by (rule kexec_kseq, rule acquire_owns, simp, rule get_owns, simp, simp add: bget_cached_find [OF assms(1)] assms(3))
      (use bget_lock_owns [OF b, of "\<lambda>f. f\<lparr>b_refcnt := b_refcnt f + 1\<rparr>" p i] assms(4) in simp)
qed

lemma bget_miss_owns:
  assumes "bcache_ok s xs" and "b < NBUF"
    and "find (\<lambda>b. b_dev (bufs s ! b) = dev \<and> b_blockno (bufs s ! b) = blockno) xs = None"
    and "find (\<lambda>b. b_refcnt (bufs s ! b) = 0 \<and> \<not> dirty_flag (b_flags (bufs s ! b))) (rev xs) = Some b"
    and "\<not> sl_locked (b_lock (bufs s ! b))"
  shows "krun (owns [] (Some p, i)) s (bget dev blockno) b (owns [] (Some p, i))
      (s\<lparr>bufs := (bufs s)[b := (bufs s ! b)\<lparr>b_dev := dev, b_blockno := blockno, b_flags := 0, b_refcnt := 1,
         b_lock := take_lock (p_pid (proc_at s p)) (b_lock (bufs s ! b))\<rparr>]\<rparr>)"
proof -
  have b: "b < length (bufs s)" using assms(1,2) by (simp add: bcache_ok_def)
  show ?thesis
    unfolding bget_def
    by (rule kexec_kseq, rule acquire_owns, simp, rule get_owns, simp,
        simp add: bget_cached_find [OF assms(1)] assms(3), unfold option.case, rule get_owns, simp,
        simp add: bget_unused_find [OF assms(1)] assms(4))
      (use bget_lock_owns [OF b, of
        "\<lambda>f. f\<lparr>b_dev := dev, b_blockno := blockno, b_flags := 0, b_refcnt := 1\<rparr>" p i] assms(5) in simp)
qed

lemma bget_exhausted_owns:
  assumes "bcache_ok s xs"
    and "find (\<lambda>b. b_dev (bufs s ! b) = dev \<and> b_blockno (bufs s ! b) = blockno) xs = None"
    and "find (\<lambda>b. b_refcnt (bufs s ! b) = 0 \<and> \<not> dirty_flag (b_flags (bufs s ! b))) (rev xs) = None"
  shows "kpanics (owns [] (Some p, i)) s (bget dev blockno) ''bget: no buffers''"
  unfolding bget_def
  by (rule kexec_kseq, rule acquire_owns, simp, rule get_owns, simp,
      simp add: bget_cached_find [OF assms(1)] assms(2), unfold option.case, rule get_owns, simp,
      simp add: bget_unused_find [OF assms(1)] assms(3), unfold option.case, rule kpanics_panic)

lemma bwrite_owns:
  assumes ok: "io_ok s p b"
    and held: "sl_locked (b_lock (bufs s ! b))" "sl_pid (b_lock (bufs s ! b)) = p_pid (proc_at s p)"
  defines "bf \<equiv> (bufs s ! b)\<lparr>b_flags := b_flags (bufs s ! b) OR B_DIRTY\<rparr>"
  shows "krun (owns [] (Some p, i)) s (bwrite b) () (owns [] (Some p, i))
    (s\<lparr>pt := io_wait p (ChBuf b) (pt s), ide := ide_issue bf (ide s), bufs := (bufs s)[b := io_buf (ide s) bf]\<rparr>)"
proof -
  let ?s1 = "s\<lparr>bufs := (bufs s)[b := bf]\<rparr>"
  have b: "b < length (bufs s)" using ok by (simp add: io_ok_def)
  have hold: "krun (owns [] (Some p, i)) s (holdingsleep (SLBuf b)) True (owns [] (Some p, i)) s"
    using holdingsleep_owns [of "SLBuf b" "[]" p i s] held by simp
  have "io_ok ?s1 p b" using ok by (simp add: io_ok_def bf_def can_wait_def)
  from iderw_owns [OF this, of i] held b
  have rw: "krun (owns [] (Some p, i)) ?s1 (iderw b) () (owns [] (Some p, i))
      (s\<lparr>pt := io_wait p (ChBuf b) (pt s), ide := ide_issue bf (ide s), bufs := (bufs s)[b := io_buf (ide s) bf]\<rparr>)"
    by (simp add: bf_def)
  show ?thesis
    unfolding bwrite_def
    by (rule kexec_kbind, rule hold, simp only: simp_thms if_False, rule mod_owns, simp add: upd_buf_def,
        simp add: upd_buf_def, fold bf_def, rule rw)
qed

text \<open>The relinking in \<open>brelse\<close> moves the buffer to the front and changes nothing but pointers.\<close>

definition brelse_relink :: "nat \<Rightarrow> kstate \<Rightarrow> kstate" where
  "brelse_relink b s =
     (let s1 = set_bprev (bnext s b) (bprev s b) s;
          s2 = set_bnext (bprev s1 b) (bnext s1 b) s1;
          s3 = set_bnext b (bnext s2 bhead) s2;
          s4 = set_bprev b bhead s3;
          s5 = set_bprev (bnext s4 bhead) b s4
      in set_bnext bhead b s5)"

definition nolink :: "buf \<Rightarrow> buf" where
  "nolink f = f\<lparr>b_prev := 0, b_next := 0\<rparr>"

definition relinked :: "buf list \<Rightarrow> buf list \<Rightarrow> bool" where
  "relinked fs gs \<longleftrightarrow> map nolink fs = map nolink gs"

lemma relinked_upd: "nolink f = nolink (gs ! i) \<Longrightarrow> relinked gs (gs[i := f])"
  by (auto simp: relinked_def nth_list_update_if intro!: nth_equalityI)

lemma relinked_trans: "relinked fs gs \<Longrightarrow> relinked gs hs \<Longrightarrow> relinked fs hs"
  by (simp add: relinked_def)

lemma relinkedD:
  assumes "relinked fs gs"
  shows "length gs = length fs" and "i < length fs \<Longrightarrow> nolink (gs ! i) = nolink (fs ! i)"
  using assms by (auto simp: relinked_def dest: map_eq_imp_length_eq) (metis map_eq_imp_length_eq nth_map)

lemma nolink_eqD:
  assumes "nolink f = nolink g"
  shows "b_flags f = b_flags g" "b_dev f = b_dev g" "b_blockno f = b_blockno g" "b_lock f = b_lock g"
    "b_refcnt f = b_refcnt g" "b_data f = b_data g"
  using assms by (cases f; cases g; simp add: nolink_def)+

lemma set_ptr_bufs:
  "\<exists>fs. set_bnext i v s = s\<lparr>bufs := fs\<rparr> \<and> relinked (bufs s) fs"
  "\<exists>fs. set_bprev i v s = s\<lparr>bufs := fs\<rparr> \<and> relinked (bufs s) fs"
  by (auto simp: set_bnext_def set_bprev_def upd_buf_def nolink_def intro!: relinked_upd)

lemma relink_compose:
  assumes "\<exists>fs. t = s\<lparr>bufs := fs\<rparr> \<and> relinked (bufs s) fs" and "\<exists>fs. u = t\<lparr>bufs := fs\<rparr> \<and> relinked (bufs t) fs"
  shows "\<exists>fs. u = s\<lparr>bufs := fs\<rparr> \<and> relinked (bufs s) fs"
proof -
  from assms obtain fs gs where "t = s\<lparr>bufs := fs\<rparr>" "relinked (bufs s) fs" "u = t\<lparr>bufs := gs\<rparr>"
    "relinked (bufs t) gs" by blast
  then have "u = s\<lparr>bufs := gs\<rparr>" "relinked (bufs s) gs" by (auto intro: relinked_trans)
  then show ?thesis by blast
qed

lemma brelse_relink_bufs: "\<exists>fs. brelse_relink b s = s\<lparr>bufs := fs\<rparr> \<and> relinked (bufs s) fs"
  unfolding brelse_relink_def Let_def by (rule relink_compose [OF _ set_ptr_bufs(1)] relink_compose [OF _ set_ptr_bufs(2)] set_ptr_bufs)+

lemma brelse_relink_ok:
  assumes "bcache_ok s xs" and "b < NBUF"
  shows "bcache_ok (brelse_relink b s) (b # remove1 b xs)"
proof -
  let ?s1 = "set_bprev (bnext s b) (bprev s b) s"
  let ?s2 = "set_bnext (bprev ?s1 b) (bnext ?s1 b) ?s1"
  have b: "b \<in> set xs" and d: "distinct xs" "NBUF \<notin> set xs" using assms by (auto simp: bcache_ok_def ring_def)
  have r2: "ring_in (bnext ?s2) (bprev ?s2) (buf_node ?s2) bhead (remove1 b xs)"
    by (rule buf_ring.unlink [OF bcache_ring_in [OF assms(1)] b])
  have n: "b \<notin> set (bhead # remove1 b xs)" using assms(2) d by simp
  have "buf_node s b" using assms by (simp add: buf_node_def bcache_ok_def)
  then have "buf_node ?s2 b" unfolding buf_ring.node_set_next buf_ring.node_set_prev .
  from buf_ring.insert_front [OF r2 n this]
  have "ring_in (bnext (brelse_relink b s)) (bprev (brelse_relink b s)) (buf_node (brelse_relink b s))
      bhead (b # remove1 b xs)"
    unfolding brelse_relink_def Let_def .
  moreover obtain fs where "brelse_relink b s = s\<lparr>bufs := fs\<rparr>" "relinked (bufs s) fs"
    using brelse_relink_bufs by blast
  then have "length (bufs (brelse_relink b s)) = Suc NBUF"
    using assms(1) by (simp add: bcache_ok_def relinkedD(1))
  moreover have "set (b # remove1 b xs) = {..<NBUF}"
    using assms b d by (auto simp: bcache_ok_def)
  ultimately show ?thesis by (simp add: bcache_ok_def ring_in_def)
qed

lemma set_ptr_hw [simp]:
  "set_bnext i v (s\<lparr>hw := h\<rparr>) = (set_bnext i v s)\<lparr>hw := h\<rparr>"
  "set_bprev i v (s\<lparr>hw := h\<rparr>) = (set_bprev i v s)\<lparr>hw := h\<rparr>"
  by (simp_all add: set_bnext_def set_bprev_def upd_buf_def)

lemma brelse_owns:
  assumes b: "b < length (bufs s)" and ref: "b_refcnt (bufs s ! b) = 1"
    and held: "sl_locked (b_lock (bufs s ! b))" "sl_pid (b_lock (bufs s ! b)) = p_pid (proc_at s p)"
  shows "krun (owns [] (Some p, i)) s (brelse b) () (owns [] (Some p, i))
    (brelse_relink b (s\<lparr>pt := woken (ChSleep (SLBuf b)) (pt s), bufs := (bufs s)[b := (bufs s ! b)\<lparr>
       b_lock := drop_lock (b_lock (bufs s ! b)), b_refcnt := 0\<rparr>]\<rparr>))"
proof -
  let ?s1 = "s\<lparr>pt := woken (ChSleep (SLBuf b)) (pt s), bufs := (bufs s)[b := (bufs s ! b)\<lparr>
       b_lock := drop_lock (b_lock (bufs s ! b)), b_refcnt := 0\<rparr>]\<rparr>"
  have hold: "krun (owns [] (Some p, i)) s (holdingsleep (SLBuf b)) True (owns [] (Some p, i)) s"
    using holdingsleep_owns [of "SLBuf b" "[]" p i s] held by simp
  have relink: "krun (owns [LBcache] (Some p, i)) ?s1 (kwhen (0 = (0 :: u32)) (
         kseq (kmod (\<lambda>s. set_bprev (bnext s b) (bprev s b) s)) (
         kseq (kmod (\<lambda>s. set_bnext (bprev s b) (bnext s b) s)) (
         kseq (kmod (\<lambda>s. set_bnext b (bnext s bhead) s)) (
         kseq (kmod (set_bprev b bhead)) (
         kseq (kmod (\<lambda>s. set_bprev (bnext s bhead) b s))
         (kmod (set_bnext bhead b)))))))) () (owns [LBcache] (Some p, i)) (brelse_relink b ?s1)"
    unfolding brelse_relink_def Let_def
    by (rule kexec_kwhen_True, simp, (rule kexec_kseq, rule kmod_self_owns, simp del: kstate_update_sort)+,
        rule kmod_self_owns, simp del: kstate_update_sort)
  show ?thesis
    unfolding brelse_def
    by (rule kexec_kbind, rule hold, simp only: simp_thms if_False, rule kexec_kseq, rule releasesleep_owns,
        simp, simp, rule kexec_kseq, rule acquire_owns, simp, rule mod_owns, simp add: upd_buf_def,
        simp add: upd_buf_def b ref, rule get_owns, simp, simp add: b, rule kexec_kseq, rule relink,
        rule release_head_owns)
qed

end
