(* ===== verification/Blocks.thy ===== *)
theory Blocks
  imports Bio
begin

text \<open>
  The buffer cache as the layers above see it: a disk, the blocks this process holds locked
  (\<open>bs_held\<close>, by buffer), and the blocks that are newer in the cache than on disk and must not be
  evicted (\<open>bs_pin\<close>). \<open>brep\<close> relates this abstract state to the kernel state and hides buffer order,
  lock state, controller registers and the scheduling state of processes; the rules at the end say
  what \<open>bread\<close>, \<open>bwrite\<close> and \<open>brelse\<close> do to it.
\<close>

section \<open>Abstract state\<close>

datatype blkid = Blk (blk_dev: u32) (blk_no: u32)

datatype hbuf = Held (h_key: blkid) (h_data: block) (h_dirty: bool)

record bstate =
  bs_disk :: "blkid \<Rightarrow> block"
  bs_pin :: "blkid \<Rightarrow> block option"
  bs_held :: "nat \<Rightarrow> hbuf option"
  bs_trace :: "(blkid \<times> block) list"

definition bs_view :: "bstate \<Rightarrow> blkid \<Rightarrow> block" where
  "bs_view B k = (case bs_pin B k of Some x \<Rightarrow> x | None \<Rightarrow> bs_disk B k)"

definition bs_free :: "bstate \<Rightarrow> blkid \<Rightarrow> bool" where
  "bs_free B k \<longleftrightarrow> (\<forall>b v. bs_held B b = Some v \<longrightarrow> h_key v \<noteq> k)"

definition bs_room :: "bstate \<Rightarrow> bool" where
  "bs_room B \<longleftrightarrow> card (dom (bs_held B)) + card (dom (bs_pin B)) < NBUF"

definition key_ok :: "blkid \<Rightarrow> bool" where
  "key_ok k \<longleftrightarrow> k \<noteq> Blk 0 0 \<and> blk_dev k AND 1 = blk_dev k \<and> unat (blk_no k) < FSSIZE"

section \<open>Representation\<close>

definition bkey :: "buf \<Rightarrow> blkid" where
  "bkey f = Blk (b_dev f) (b_blockno f)"

definition buf_rep :: "int \<Rightarrow> bstate \<Rightarrow> nat \<Rightarrow> buf \<Rightarrow> bool" where
  "buf_rep pid B b f \<longleftrightarrow>
     length (b_data f) = BSIZE \<and> (valid_flag (b_flags f) \<or> dirty_flag (b_flags f) \<longrightarrow> key_ok (bkey f)) \<and>
     (case bs_held B b of
        Some v \<Rightarrow> bkey f = h_key v \<and> b_data f = h_data v \<and> valid_flag (b_flags f) \<and>
          dirty_flag (b_flags f) = h_dirty v \<and> b_refcnt f = 1 \<and> sl_locked (b_lock f) \<and>
          sl_pid (b_lock f) = pid \<and> bs_pin B (bkey f) = None
      | None \<Rightarrow> b_refcnt f = 0 \<and> \<not> sl_locked (b_lock f) \<and>
          (dirty_flag (b_flags f) \<longrightarrow> valid_flag (b_flags f)) \<and>
          bs_pin B (bkey f) = (if dirty_flag (b_flags f) then Some (b_data f) else None) \<and>
          (valid_flag (b_flags f) \<and> \<not> dirty_flag (b_flags f) \<longrightarrow> b_data f = bs_disk B (bkey f)))"

definition bview :: "int \<Rightarrow> bstate \<Rightarrow> buf list \<Rightarrow> bool" where
  "bview pid B bs \<longleftrightarrow>
     dom (bs_held B) \<subseteq> {..<NBUF} \<and> (\<forall>k. length (bs_disk B k) = BSIZE) \<and>
     (\<forall>b < NBUF. buf_rep pid B b (bs ! b)) \<and>
     (\<forall>b < NBUF. \<forall>c < NBUF. b \<noteq> c \<longrightarrow> bkey (bs ! b) = bkey (bs ! c) \<longrightarrow> bkey (bs ! b) = Blk 0 0) \<and>
     (\<forall>k. bs_pin B k \<noteq> None \<longrightarrow>
        (\<exists>b < NBUF. bkey (bs ! b) = k \<and> bs_held B b = None \<and> dirty_flag (b_flags (bs ! b))))"

text \<open>The process table up to scheduling: states and channels may change, nothing else.\<close>

definition pstatic :: "proc \<Rightarrow> proc" where
  "pstatic r = r\<lparr>p_state := UNUSED, p_chan := None\<rparr>"

definition pt_upto :: "ptable \<Rightarrow> ptable \<Rightarrow> bool" where
  "pt_upto t t' \<longleftrightarrow> nextpid t = nextpid t' \<and> initproc t = initproc t' \<and>
     map pstatic (procs t) = map pstatic (procs t')"

text \<open>Everything but the CPUs, the process table, the disk and the buffers.\<close>

definition same_rest :: "kstate \<Rightarrow> kstate \<Rightarrow> bool" where
  "same_rest s u \<longleftrightarrow> log u = log s \<and> sb u = sb s \<and> inodes u = inodes s \<and> files u = files s \<and>
     pipes u = pipes s \<and> kmem u = kmem s \<and> mem u = mem s \<and> ticks u = ticks s \<and>
     nr_sectors_read u = nr_sectors_read s \<and> nr_sectors_write u = nr_sectors_write s \<and>
     cons u = cons s \<and> devsw u = devsw s"

definition bst :: "nat \<Rightarrow> bstate \<times> kstate \<Rightarrow> kstate \<Rightarrow> bool" where
  "bst p A u \<longleftrightarrow>
     same_rest (snd A) u \<and> pt_upto (pt (snd A)) (pt u) \<and> can_wait u p \<and>
     idequeue (ide u) = [] \<and> ide_ready (ide u) \<and> havedisk1 (ide u) \<and>
     (\<lambda>k. disks (ide u) (blk_dev k) (blk_no k)) = bs_disk (fst A) \<and>
     map (\<lambda>(d, n, x). (Blk d n, x)) (ide_trace (ide u)) = bs_trace (fst A) \<and>
     (\<exists>xs. bcache_ok u xs) \<and> bview (p_pid (proc_at (snd A) p)) (fst A) (bufs u)"

definition brep :: "lockid list \<Rightarrow> nat \<Rightarrow> bool \<Rightarrow> bstate \<times> kstate \<Rightarrow> kstate \<Rightarrow> bool" where
  "brep H p i A t \<longleftrightarrow> (\<exists>u. bst p A u \<and> owns H (Some p, i) u t)"

lemma pstaticD:
  assumes "pstatic r = pstatic r'"
  shows "p_pid r = p_pid r'" "p_kstack r = p_kstack r'" "p_pgdir r = p_pgdir r'"
  using assms [unfolded pstatic_def, THEN arg_cong [of _ _ p_pid]]
    assms [unfolded pstatic_def, THEN arg_cong [of _ _ p_kstack]]
    assms [unfolded pstatic_def, THEN arg_cong [of _ _ p_pgdir]] by simp_all

lemma pt_upto_refl [simp]: "pt_upto t t"
  by (simp add: pt_upto_def)

lemma pt_upto_trans: "pt_upto t t' \<Longrightarrow> pt_upto t' t'' \<Longrightarrow> pt_upto t t''"
  by (simp add: pt_upto_def)

lemma pt_upto_woken: "pt_upto t (woken ch t)"
  by (simp add: pt_upto_def wakeup_proc_def pstatic_def)

lemma pt_upto_io_wait: "p < length (procs t) \<Longrightarrow> pt_upto t (io_wait p ch t)"
  by (auto simp: pt_upto_def io_wait_def wakeup_proc_def pstatic_def nth_list_update_if intro!: nth_equalityI)

lemma pt_upto_length: "pt_upto t t' \<Longrightarrow> length (procs t') = length (procs t)"
  by (auto simp: pt_upto_def dest: map_eq_imp_length_eq)

lemma pt_upto_proc:
  assumes "pt_upto t t'" and "q < length (procs t)"
  shows "pstatic (procs t ! q) = pstatic (procs t' ! q)"
proof -
  have "map pstatic (procs t) ! q = map pstatic (procs t') ! q" using assms(1) by (simp add: pt_upto_def)
  then show ?thesis using assms(2) pt_upto_length [OF assms(1)] by simp
qed

section \<open>Changing one buffer\<close>

lemma bviewD:
  assumes "bview pid B bs"
  shows "b < NBUF \<Longrightarrow> buf_rep pid B b (bs ! b)"
    and "b < NBUF \<Longrightarrow> c < NBUF \<Longrightarrow> bkey (bs ! b) = bkey (bs ! c) \<Longrightarrow> bkey (bs ! b) \<noteq> Blk 0 0 \<Longrightarrow> b = c"
    and "bs_pin B k \<noteq> None \<Longrightarrow>
      \<exists>b < NBUF. bkey (bs ! b) = k \<and> bs_held B b = None \<and> dirty_flag (b_flags (bs ! b))"
    and "length (bs_disk B k) = BSIZE" and "bs_held B b = Some v \<Longrightarrow> b < NBUF"
  using assms by (auto simp: bview_def)

text \<open>
  Replacing the buffer \<open>b\<close> by \<open>f\<close> while the abstract state changes only at \<open>b\<close> and at the new key.
\<close>

lemma bview_upd:
  assumes V: "bview pid B bs" and b: "b < NBUF" and len: "length bs = Suc NBUF"
    and held: "\<And>c. c \<noteq> b \<Longrightarrow> bs_held B' c = bs_held B c"
    and pin: "\<And>k. k \<noteq> bkey f \<Longrightarrow> bs_pin B' k = bs_pin B k"
    and disk: "\<And>k. k \<noteq> bkey f \<Longrightarrow> bs_disk B' k = bs_disk B k"
    and dlen: "\<And>k. length (bs_disk B' k) = BSIZE"
    and rep: "buf_rep pid B' b f" and k0: "bkey f \<noteq> Blk 0 0"
    and fresh: "\<And>c. c < NBUF \<Longrightarrow> c \<noteq> b \<Longrightarrow> bkey (bs ! c) \<noteq> bkey f"
    and old: "bkey (bs ! b) \<noteq> bkey f \<Longrightarrow> bs_pin B (bkey (bs ! b)) = None"
    and new: "bs_pin B' (bkey f) \<noteq> None \<Longrightarrow> bs_held B' b = None \<and> dirty_flag (b_flags f)"
  shows "bview pid B' (bs[b := f])"
  unfolding bview_def
proof (intro conjI allI impI)
  have nth: "bs[b := f] ! c = (if c = b then f else bs ! c)" if "c < NBUF" for c
    using that b len by simp
  show "dom (bs_held B') \<subseteq> {..<NBUF}"
    using V b held by (auto simp: bview_def) (metis domI lessThan_iff subsetD)
  show "length (bs_disk B' k) = BSIZE" for k by (rule dlen)
  show "buf_rep pid B' c (bs[b := f] ! c)" if c: "c < NBUF" for c
  proof (cases "c = b")
    case True
    then show ?thesis using rep c nth by simp
  next
    case False
    with fresh [OF c] pin disk have "bs_pin B' (bkey (bs ! c)) = bs_pin B (bkey (bs ! c))"
      "bs_disk B' (bkey (bs ! c)) = bs_disk B (bkey (bs ! c))"
      by auto
    with False bviewD(1) [OF V c] held [OF False] show ?thesis
      by (auto simp: nth [OF c] buf_rep_def split: option.splits)
  qed
  show "bkey (bs[b := f] ! c) = Blk 0 0"
    if "c < NBUF" "c' < NBUF" "c \<noteq> c'" "bkey (bs[b := f] ! c) = bkey (bs[b := f] ! c')" for c c'
  proof (rule ccontr)
    assume "bkey (bs[b := f] ! c) \<noteq> Blk 0 0"
    with that bviewD(2) [OF V that(1,2)] fresh [OF that(1)] fresh [OF that(2)] show False
      by (auto simp: nth split: if_splits)
  qed
  show "\<exists>c < NBUF. bkey (bs[b := f] ! c) = k \<and> bs_held B' c = None \<and> dirty_flag (b_flags (bs[b := f] ! c))"
    if k: "bs_pin B' k \<noteq> None" for k
  proof (cases "k = bkey f")
    case True
    with k new b nth show ?thesis by (intro exI [of _ b]) simp
  next
    case False
    with k pin have "bs_pin B k \<noteq> None" by metis
    then obtain c where c: "c < NBUF" "bkey (bs ! c) = k" "bs_held B c = None" "dirty_flag (b_flags (bs ! c))"
      using bviewD(3) [OF V] by blast
    with False old \<open>bs_pin B k \<noteq> None\<close> have "c \<noteq> b" by auto
    with c held show ?thesis by (intro exI [of _ c]) (simp add: nth)
  qed
qed

lemma bview_unused:
  assumes V: "bview pid B bs" and "bs_room B"
  shows "\<exists>b < NBUF. b_refcnt (bs ! b) = 0 \<and> \<not> dirty_flag (b_flags (bs ! b))"
proof (rule ccontr)
  assume none: "\<not> ?thesis"
  let ?D = "{b. b < NBUF \<and> bs_held B b = None}"
  have dirty: "bs_pin B (bkey (bs ! b)) \<noteq> None \<and> key_ok (bkey (bs ! b))" if "b \<in> ?D" for b
    using that none bviewD(1) [OF V, of b] by (auto simp: buf_rep_def)
  have inj: "inj_on (\<lambda>b. bkey (bs ! b)) ?D"
    by (rule inj_onI) (use dirty bviewD(2) [OF V] in \<open>auto simp: key_ok_def\<close>)
  have sub: "(\<lambda>b. bkey (bs ! b)) ` ?D \<subseteq> dom (bs_pin B)"
    using dirty by auto
  have fin: "finite (dom (bs_pin B))"
    by (rule finite_subset [of _ "(\<lambda>b. bkey (bs ! b)) ` {..<NBUF}"])
      (use bviewD(3) [OF V] in \<open>fastforce simp: image_iff\<close>, simp)
  have "card ?D \<le> card (dom (bs_pin B))"
    using card_mono [OF fin sub] card_image [OF inj] by simp
  moreover have "{..<NBUF} = dom (bs_held B) \<union> ?D" using bviewD(5) [OF V] by auto
  then have "NBUF \<le> card (dom (bs_held B)) + card ?D"
    by (metis card_Un_le card_lessThan)
  ultimately show False using assms(2) by (simp add: bs_room_def)
qed

section \<open>Stepping through the representation\<close>

lemma kexec_brep: "(\<And>u. bst p A u \<Longrightarrow> kexec (owns H (Some p, i)) u m Q) \<Longrightarrow> kexec (brep H p i) A m Q"
  by (auto simp: kexec_def brep_def)

lemma krun_brep:
  assumes "\<And>u. bst p A u \<Longrightarrow> \<exists>u'. krun (owns H (Some p, i)) u m x (owns H' (Some p, i)) u' \<and> bst p A' u'"
  shows "krun (brep H p i) A m x (brep H' p i) A'"
proof (rule kexec_brep)
  fix u assume "bst p A u"
  then obtain u' where "krun (owns H (Some p, i)) u m x (owns H' (Some p, i)) u'" "bst p A' u'"
    using assms by blast
  then show "kexec (owns H (Some p, i)) u m (returns x (brep H' p i) A')"
    unfolding kexec_def returns_def brep_def by blast
qed

lemma kexec_brep_ex:
  assumes "krun (owns H (Some p, i)) u m x (owns H' (Some p, i)) u'" and "bst p A u'" and "P x A"
  shows "kexec (owns H (Some p, i)) u m (\<lambda>r. \<exists>x A. P x A \<and> returns x (brep H' p i) A r)"
proof (rule kexecI)
  fix t assume "owns H (Some p, i) u t"
  with assms(1) obtain t' where "m t = Inr (x, t')" "owns H' (Some p, i) u' t'" by (rule krunE)
  with assms(2,3) show "\<exists>x A. P x A \<and> returns x (brep H' p i) A (m t)"
    by (intro exI [of _ x] exI [of _ A]) (auto simp: returns_def brep_def)
qed

text \<open>An outcome that leaves the result and the state to be named later.\<close>

lemma kexec_kbind_ex:
  assumes "kexec R s m (\<lambda>r. \<exists>x s'. P x s' \<and> returns x R' s' r)" and "\<And>x s'. P x s' \<Longrightarrow> kexec R' s' (f x) Q"
  shows "kexec R s (kbind m f) Q"
proof (rule kexecI)
  fix t assume "R s t"
  with assms(1) obtain x s' t' where "P x s'" "m t = Inr (x, t')" "R' s' t'"
    by (auto simp: kexec_def returns_def)
  with kexecD [OF assms(2)] show "Q (kbind m f t)" by simp
qed

lemma bstD:
  assumes "bst p A u"
  shows "can_wait u p" "idequeue (ide u) = []" "ide_ready (ide u)" "havedisk1 (ide u)"
    "bview (p_pid (proc_at (snd A) p)) (fst A) (bufs u)" "\<exists>xs. bcache_ok u xs"
    "p_pid (proc_at u p) = p_pid (proc_at (snd A) p)" "length (bufs u) = Suc NBUF"
    "disks (ide u) (blk_dev k) (blk_no k) = bs_disk (fst A) k"
proof -
  have pt: "pt_upto (pt (snd A)) (pt u)" and w: "can_wait u p" using assms by (simp_all add: bst_def)
  then have p: "p < length (procs (pt (snd A)))" using pt_upto_length [OF pt] by (simp add: can_wait_def)
  show "p_pid (proc_at u p) = p_pid (proc_at (snd A) p)"
    by (rule pstaticD(1) [OF pt_upto_proc [OF pt p], symmetric])
  have "(\<lambda>k. disks (ide u) (blk_dev k) (blk_no k)) = bs_disk (fst A)" using assms by (simp add: bst_def)
  then show "disks (ide u) (blk_dev k) (blk_no k) = bs_disk (fst A) k" by (rule fun_cong)
  show "length (bufs u) = Suc NBUF" using assms by (auto simp: bst_def bcache_ok_def)
qed (use assms in \<open>simp_all add: bst_def\<close>)

lemma io_ok_bst: "bst p A u \<Longrightarrow> b < NBUF \<Longrightarrow> key_ok (bkey (bufs u ! b)) \<Longrightarrow> io_ok u p b"
  using bstD [of p A u] by (auto simp: io_ok_def key_ok_def bkey_def)

lemma can_wait_upto: "pt_upto t t' \<Longrightarrow> can_wait (u\<lparr>pt := t\<rparr>) p \<Longrightarrow> can_wait (u\<lparr>pt := t'\<rparr>) p"
  using pt_upto_proc [of t t' p] pt_upto_length [of t t'] pstaticD [of "procs t ! p" "procs t' ! p"]
  by (auto simp: can_wait_def)

text \<open>Replacing the cache and the controller state and moving the process table on.\<close>

lemma bst_step:
  assumes "bst p (B, s) u" and "bview (p_pid (proc_at s p)) B' bs" and "\<exists>xs. bcache_ok (u\<lparr>bufs := bs\<rparr>) xs"
    and "(\<lambda>k. disks i (blk_dev k) (blk_no k)) = bs_disk B'"
    and "map (\<lambda>(d, n, x). (Blk d n, x)) (ide_trace i) = bs_trace B'"
    and "idequeue i = []" and "ide_ready i" and "havedisk1 i" and "pt_upto (pt u) t"
  shows "bst p (B', s) (u\<lparr>pt := t, ide := i, bufs := bs\<rparr>)"
proof -
  have "can_wait (u\<lparr>pt := t\<rparr>) p"
    using can_wait_upto [OF assms(9), of u p] assms(1) by (simp add: bst_def)
  moreover have "bcache_ok (u\<lparr>pt := t, ide := i, bufs := bs\<rparr>) xs = bcache_ok (u\<lparr>bufs := bs\<rparr>) xs" for xs
    by (simp add: bcache_ok_def bnext_def [abs_def] bprev_def [abs_def])
  ultimately show ?thesis
    using assms pt_upto_trans [of "pt s" "pt u" t] by (auto simp: bst_def can_wait_def same_rest_def)
qed

lemma bst_bufs:
  assumes "bst p (B, s) u" and "bview (p_pid (proc_at s p)) B' bs" and "\<exists>xs. bcache_ok (u\<lparr>bufs := bs\<rparr>) xs"
    and "bs_disk B' = bs_disk B" and "bs_trace B' = bs_trace B"
  shows "bst p (B', s) (u\<lparr>bufs := bs\<rparr>)"
  using bst_step [OF assms(1-3), of "ide u" "pt u"] assms(1,4,5) by (simp add: bst_def)

lemma bst_sched:
  assumes "bst p A u" and "pt_upto (pt u) t"
  shows "bst p A (u\<lparr>pt := t\<rparr>)"
proof -
  have "can_wait (u\<lparr>pt := t\<rparr>) p"
    using can_wait_upto [OF assms(2), of u p] assms(1) by (simp add: bst_def)
  then show ?thesis
    using assms pt_upto_trans [of "pt (snd A)" "pt u" t] by (auto simp: bst_def same_rest_def)
qed

section \<open>bread\<close>

definition bs_read :: "nat \<Rightarrow> blkid \<Rightarrow> bstate \<Rightarrow> bstate" where
  "bs_read b k B = B\<lparr>bs_held := (bs_held B)(b \<mapsto> Held k (bs_view B k) (bs_pin B k \<noteq> None)),
     bs_pin := (bs_pin B)(k := None)\<rparr>"

text \<open>What \<open>bget\<close> leaves in the buffer it returns: the block if it was cached, an invalid buffer if not.\<close>

definition got_buf :: "int \<Rightarrow> bstate \<Rightarrow> blkid \<Rightarrow> buf \<Rightarrow> buf \<Rightarrow> bool" where
  "got_buf pid B k f g \<longleftrightarrow> bkey g = k \<and> b_refcnt g = 1 \<and> sl_locked (b_lock g) \<and> sl_pid (b_lock g) = pid \<and>
     b_next g = b_next f \<and> b_prev g = b_prev f \<and> length (b_data g) = BSIZE \<and>
     (bkey f \<noteq> k \<longrightarrow> bs_pin B (bkey f) = None) \<and>
     (if valid_flag (b_flags g) then b_data g = bs_view B k \<and> dirty_flag (b_flags g) = (bs_pin B k \<noteq> None)
      else \<not> dirty_flag (b_flags g) \<and> bs_pin B k = None)"

lemma find_SomeD: "find P xs = Some x \<Longrightarrow> x \<in> set xs \<and> P x"
  by (induction xs) (auto split: if_splits)

lemma bget_bst:
  assumes st: "bst p (B, s) u" and k: "key_ok k" and free: "bs_free B k"
    and room: "bs_pin B k = None \<longrightarrow> bs_room B"
  obtains b g where "krun (owns [] (Some p, i)) u (bget (blk_dev k) (blk_no k)) b (owns [] (Some p, i))
      (u\<lparr>bufs := (bufs u)[b := g]\<rparr>)"
    and "b < NBUF" and "bs_held B b = None" and "got_buf (p_pid (proc_at s p)) B k (bufs u ! b) g"
    and "\<And>c. c < NBUF \<Longrightarrow> c \<noteq> b \<Longrightarrow> bkey (bufs u ! c) \<noteq> k"
proof -
  note V = bstD(5) [OF st, simplified]
  obtain xs where xs: "bcache_ok u xs" using bstD(6) [OF st] by blast
  then have set_xs: "set xs = {..<NBUF}" by (simp add: bcache_ok_def)
  have pid: "p_pid (proc_at u p) = p_pid (proc_at s p)" using bstD(7) [OF st] by simp
  let ?m = "\<lambda>b. b_dev (bufs u ! b) = blk_dev k \<and> b_blockno (bufs u ! b) = blk_no k"
  have m: "?m b \<longleftrightarrow> bkey (bufs u ! b) = k" for b by (cases k) (simp add: bkey_def)
  show thesis
  proof (cases "find ?m xs")
    case (Some b)
    then have b: "b < NBUF" "bkey (bufs u ! b) = k" using find_SomeD [OF Some] set_xs m by auto
    with free bviewD(1) [OF V b(1)] have h: "bs_held B b = None"
      by (auto simp: bs_free_def buf_rep_def split: option.splits)
    show thesis
    proof (rule that [OF bget_hit_owns [OF xs b(1) Some]])
      show "\<not> sl_locked (b_lock (bufs u ! b))" using bviewD(1) [OF V b(1)] h by (simp add: buf_rep_def)
      show "got_buf (p_pid (proc_at s p)) B k (bufs u ! b) ((bufs u ! b)\<lparr>b_refcnt := b_refcnt (bufs u ! b) + 1,
          b_lock := take_lock (p_pid (proc_at u p)) (b_lock (bufs u ! b))\<rparr>)"
        using bviewD(1) [OF V b(1)] h b(2) pid
        by (auto simp: got_buf_def buf_rep_def bkey_def take_lock_def bs_view_def)
      show "bkey (bufs u ! c) \<noteq> k" if "c < NBUF" "c \<noteq> b" for c
        using bviewD(2) [OF V that(1) b(1)] that(2) b(2) k by (auto simp: key_ok_def)
    qed (use b h in auto)
  next
    case None
    then have nk: "bkey (bufs u ! c) \<noteq> k" if "c < NBUF" for c
      using that set_xs m by (auto simp: find_None_iff)
    then have pin: "bs_pin B k = None" using bviewD(3) [OF V, of k] by blast
    let ?free = "\<lambda>b. b_refcnt (bufs u ! b) = 0 \<and> \<not> dirty_flag (b_flags (bufs u ! b))"
    obtain b where Some: "find ?free (rev xs) = Some b"
      using bview_unused [OF V room [rule_format, OF pin]] set_xs by (cases "find ?free (rev xs)") (auto simp: find_None_iff)
    then have b: "b < NBUF" "?free b" using find_SomeD [OF Some] set_xs by auto
    then have h: "bs_held B b = None" using bviewD(1) [OF V b(1)] by (auto simp: buf_rep_def split: option.splits)
    show thesis
    proof (rule that [OF bget_miss_owns [OF xs b(1) None Some]])
      show "\<not> sl_locked (b_lock (bufs u ! b))" using bviewD(1) [OF V b(1)] h by (simp add: buf_rep_def)
      show "got_buf (p_pid (proc_at s p)) B k (bufs u ! b) ((bufs u ! b)\<lparr>b_dev := blk_dev k, b_blockno := blk_no k,
          b_flags := 0, b_refcnt := 1, b_lock := take_lock (p_pid (proc_at u p)) (b_lock (bufs u ! b))\<rparr>)"
        using bviewD(1) [OF V b(1)] h b(2) pid pin
        by (auto simp: got_buf_def buf_rep_def bkey_def take_lock_def)
    qed (use b h nk in auto)
  qed
qed

text \<open>Once the buffer holds the block, the state represents \<open>bs_read\<close>.\<close>

lemma bview_read:
  assumes V: "bview pid B (bufs u)" and b: "b < NBUF" and len: "length (bufs u) = Suc NBUF"
    and got: "got_buf pid B k (bufs u ! b) g" and valid: "valid_flag (b_flags g)"
    and h: "bs_held B b = None" and k: "key_ok k"
    and other: "\<And>c. c < NBUF \<Longrightarrow> c \<noteq> b \<Longrightarrow> bkey (bufs u ! c) \<noteq> k"
  shows "bview pid (bs_read b k B) ((bufs u)[b := g])"
proof (rule bview_upd [OF V b len])
  have g: "bkey g = k" "length (b_data g) = BSIZE" "b_data g = bs_view B k"
    "dirty_flag (b_flags g) = (bs_pin B k \<noteq> None)" "b_refcnt g = 1" "sl_locked (b_lock g)" "sl_pid (b_lock g) = pid"
    "bkey (bufs u ! b) \<noteq> k \<Longrightarrow> bs_pin B (bkey (bufs u ! b)) = None"
    using got valid by (auto simp: got_buf_def)
  show "buf_rep pid (bs_read b k B) b g"
    using g valid k by (simp add: buf_rep_def bs_read_def)
  show "bs_pin B (bkey (bufs u ! b)) = None" if "bkey (bufs u ! b) \<noteq> bkey g" using that g by simp
  show "bs_held (bs_read b k B) b = None \<and> dirty_flag (b_flags g)" if "bs_pin (bs_read b k B) (bkey g) \<noteq> None"
    using that g by (simp add: bs_read_def)
  show "length (bs_disk (bs_read b k B) j) = BSIZE" for j using bviewD(4) [OF V] by (simp add: bs_read_def)
  show "bkey g \<noteq> Blk 0 0" using k g by (simp add: key_ok_def)
  show "bkey (bufs u ! c) \<noteq> bkey g" if "c < NBUF" "c \<noteq> b" for c using other [OF that] g by simp
  show "bs_pin (bs_read b k B) j = bs_pin B j" if "j \<noteq> bkey g" for j using that g by (simp add: bs_read_def)
qed (simp_all add: bs_read_def)

lemma bread_brep:
  assumes k: "key_ok k" and free: "bs_free B k" and room: "bs_pin B k = None \<longrightarrow> bs_room B"
  shows "kexec (brep [] p i) (B, s) (bread (blk_dev k) (blk_no k))
    (\<lambda>r. \<exists>b A. (b < NBUF \<and> bs_held B b = None \<and> A = (bs_read b k B, s)) \<and> returns b (brep [] p i) A r)"
proof (rule kexec_brep)
  fix u assume st: "bst p (B, s) u"
  let ?pid = "p_pid (proc_at s p)"
  note V = bstD(5) [OF st, simplified]
  obtain b g where get: "krun (owns [] (Some p, i)) u (bget (blk_dev k) (blk_no k)) b (owns [] (Some p, i))
      (u\<lparr>bufs := (bufs u)[b := g]\<rparr>)"
    and b: "b < NBUF" "bs_held B b = None" and got: "got_buf ?pid B k (bufs u ! b) g"
    and other: "\<And>c. c < NBUF \<Longrightarrow> c \<noteq> b \<Longrightarrow> bkey (bufs u ! c) \<noteq> k"
    by (rule bget_bst [OF st k free room, where i = i]) (rule that)
  let ?u1 = "u\<lparr>bufs := (bufs u)[b := g]\<rparr>"
  have len: "b < length (bufs u)" using b bstD(8) [OF st] by simp
  have links: "\<exists>xs. bcache_ok (u\<lparr>bufs := (bufs u)[b := f]\<rparr>) xs" if "b_next f = b_next g" "b_prev f = b_prev g" for f
    using that got bstD(6) [OF st] bcache_ok_upd [of f u b] by (simp add: got_buf_def)
  have "\<exists>u'. krun (owns [] (Some p, i)) ?u1 (kwhen (\<not> valid_flag (b_flags g)) (iderw b)) ()
      (owns [] (Some p, i)) u' \<and> bst p (bs_read b k B, s) u'"
  proof (cases "valid_flag (b_flags g)")
    case True
    have "bst p (bs_read b k B, s) ?u1"
      by (rule bst_bufs [OF st bview_read [OF V b(1) bstD(8) [OF st] got True b(2) k other] links])
        (simp_all add: bs_read_def)
    moreover have "krun (owns [] (Some p, i)) ?u1 (kwhen (\<not> valid_flag (b_flags g)) (iderw b)) ()
        (owns [] (Some p, i)) ?u1"
      by (rule kexec_kwhen_False) (use True in simp)
    ultimately show ?thesis by blast
  next
    case False
    let ?g = "io_buf (ide u) g"
    let ?i = "ide_issue g (ide u)"
    have g: "\<not> dirty_flag (b_flags g)" "bs_pin B k = None" "bkey g = k" "unat (b_blockno g) < FSSIZE"
      "b_dev g AND 1 = b_dev g"
      using got False k by (auto simp: got_buf_def key_ok_def bkey_def)
    have data: "disks (ide u) (b_dev g) (b_blockno g) = bs_disk B k"
      using bstD(9) [OF st, of k] g(3) by (auto simp: bkey_def)
    have "io_ok ?u1 p b"
      using bstD(1-4) [OF st] g(4) len by (simp add: io_ok_def can_wait_def)
    from iderw_owns [OF this, of i] False got bstD(7) [OF st] len
    have rw: "krun (owns [] (Some p, i)) ?u1 (iderw b) () (owns [] (Some p, i))
        (u\<lparr>pt := io_wait p (ChBuf b) (pt u), ide := ?i, bufs := (bufs u)[b := ?g]\<rparr>)"
      by (simp add: got_buf_def)
    have got': "got_buf ?pid B k (bufs u ! b) ?g"
      using got False g data bviewD(4) [OF V, of k]
      by (auto simp: got_buf_def io_buf_def bkey_def bs_view_def)
    have "bst p (bs_read b k B, s) (u\<lparr>pt := io_wait p (ChBuf b) (pt u), ide := ?i, bufs := (bufs u)[b := ?g]\<rparr>)"
    proof (rule bst_step [OF st])
      show "bview ?pid (bs_read b k B) ((bufs u)[b := ?g])"
        by (rule bview_read [OF V b(1) bstD(8) [OF st] got' _ b(2) k other]) (simp_all add: io_buf_def)
      show "\<exists>xs. bcache_ok (u\<lparr>bufs := (bufs u)[b := ?g]\<rparr>) xs" by (rule links) (simp_all add: io_buf_def)
      show "pt_upto (pt u) (io_wait p (ChBuf b) (pt u))"
        by (rule pt_upto_io_wait) (use bstD(1) [OF st] in \<open>simp add: can_wait_def\<close>)
      show "(\<lambda>k. disks ?i (blk_dev k) (blk_no k)) = bs_disk (bs_read b k B)"
        "map (\<lambda>(d, n, x). (Blk d n, x)) (ide_trace ?i) = bs_trace (bs_read b k B)"
        using st g by (simp_all add: ide_issue_disk bs_read_def bst_def)
    qed (use bstD(2-4) [OF st] in \<open>simp_all add: ide_ready_def\<close>)
    with kexec_kwhen_True [OF False rw] show ?thesis by blast
  qed
  then obtain u' where 1: "krun (owns [] (Some p, i)) ?u1 (kwhen (\<not> valid_flag (b_flags g)) (iderw b)) ()
      (owns [] (Some p, i)) u'" "bst p (bs_read b k B, s) u'" by blast
  have "krun (owns [] (Some p, i)) u (bread (blk_dev k) (blk_no k)) b (owns [] (Some p, i)) u'"
    unfolding bread_def
    by (rule kexec_kbind, rule get, rule get_owns, simp, simp add: len, rule kexec_kseq, rule 1(1), rule kexec_kret)
  then show "kexec (owns [] (Some p, i)) u (bread (blk_dev k) (blk_no k))
      (\<lambda>r. \<exists>b A. (b < NBUF \<and> bs_held B b = None \<and> A = (bs_read b k B, s)) \<and> returns b (brep [] p i) A r)"
    by (rule kexec_brep_ex) (use 1(2) b in simp_all)
qed

section \<open>Changing, writing and releasing a held block\<close>

definition bs_set :: "nat \<Rightarrow> block \<Rightarrow> bool \<Rightarrow> bstate \<Rightarrow> bstate" where
  "bs_set b x dt B = B\<lparr>bs_held := (bs_held B)(b := map_option (\<lambda>v. Held (h_key v) x dt) (bs_held B b))\<rparr>"

definition bs_write :: "nat \<Rightarrow> bstate \<Rightarrow> bstate" where
  "bs_write b B =
     (case bs_held B b of None \<Rightarrow> B
      | Some v \<Rightarrow> B\<lparr>bs_held := (bs_held B)(b \<mapsto> Held (h_key v) (h_data v) False),
          bs_disk := (bs_disk B)(h_key v := h_data v), bs_trace := bs_trace B @ [(h_key v, h_data v)]\<rparr>)"

definition bs_release :: "nat \<Rightarrow> bstate \<Rightarrow> bstate" where
  "bs_release b B =
     (case bs_held B b of None \<Rightarrow> B
      | Some v \<Rightarrow> B\<lparr>bs_held := (bs_held B)(b := None),
          bs_pin := (bs_pin B)(h_key v := if h_dirty v then Some (h_data v) else None)\<rparr>)"

lemma held_buf:
  assumes "bview pid B bs" and "bs_held B b = Some v"
  shows "b < NBUF" "bkey (bs ! b) = h_key v" "b_data (bs ! b) = h_data v" "valid_flag (b_flags (bs ! b))"
    "dirty_flag (b_flags (bs ! b)) = h_dirty v" "b_refcnt (bs ! b) = 1" "sl_locked (b_lock (bs ! b))"
    "sl_pid (b_lock (bs ! b)) = pid" "bs_pin B (h_key v) = None" "key_ok (h_key v)" "length (h_data v) = BSIZE"
  using bviewD(1) [OF assms(1) bviewD(5) [OF assms]] bviewD(5) [OF assms] assms(2)
  by (auto simp: buf_rep_def)

lemma bview_held_upd:
  assumes V: "bview pid B bs" and len: "length bs = Suc NBUF" and v: "bs_held B b = Some v"
    and f: "bkey f = h_key v" "length (b_data f) = BSIZE" "valid_flag (b_flags f)" "b_refcnt f = 1"
      "sl_locked (b_lock f)" "sl_pid (b_lock f) = pid"
    and B': "bs_held B' = (bs_held B)(b \<mapsto> Held (h_key v) (b_data f) (dirty_flag (b_flags f)))"
      "bs_pin B' = bs_pin B" "\<And>k. k \<noteq> h_key v \<Longrightarrow> bs_disk B' k = bs_disk B k" "\<And>k. length (bs_disk B' k) = BSIZE"
  shows "bview pid B' (bs[b := f])"
proof (rule bview_upd [OF V _ len])
  note h = held_buf [OF V v]
  show "b < NBUF" by (rule h)
  show "buf_rep pid B' b f" using f B' h by (simp add: buf_rep_def)
  show "bkey f \<noteq> Blk 0 0" using f h by (simp add: key_ok_def)
  show "bkey (bs ! c) \<noteq> bkey f" if "c < NBUF" "c \<noteq> b" for c
    using bviewD(2) [OF V that(1) h(1)] that(2) h f by (auto simp: key_ok_def)
  show "bs_held B' b = None \<and> dirty_flag (b_flags f)" if "bs_pin B' (bkey f) \<noteq> None"
    using that B' f h by simp
  show "bs_pin B (bkey (bs ! b)) = None" if "bkey (bs ! b) \<noteq> bkey f" using that f h by simp
qed (use B' f in simp_all)

lemma kmod_buf_brep:
  assumes v: "bs_held B b = Some v"
    and f: "\<And>f. b_next (g f) = b_next f" "\<And>f. b_prev (g f) = b_prev f" "\<And>f. bkey (g f) = bkey f"
      "\<And>f. b_refcnt (g f) = b_refcnt f" "\<And>f. b_lock (g f) = b_lock f"
      "\<And>f. valid_flag (b_flags f) \<Longrightarrow> valid_flag (b_flags (g f))"
    and x: "\<And>f. b_data f = h_data v \<Longrightarrow> b_data (g f) = x" "length x = BSIZE"
    and dt: "\<And>f. dirty_flag (b_flags f) = h_dirty v \<Longrightarrow> dirty_flag (b_flags (g f)) = dt"
  shows "krun (brep H p i) (B, s) (kmod (upd_buf b g)) () (brep H p i) (bs_set b x dt B, s)"
proof (rule krun_brep)
  fix u assume st: "bst p (B, s) u"
  let ?u = "u\<lparr>bufs := (bufs u)[b := g (bufs u ! b)]\<rparr>"
  note V = bstD(5) [OF st, simplified]
  note h = held_buf [OF V v]
  have "bview (p_pid (proc_at s p)) (bs_set b x dt B) ((bufs u)[b := g (bufs u ! b)])"
    by (rule bview_held_upd [OF V bstD(8) [OF st] v]) (use f x dt h v bviewD(4) [OF V] in \<open>simp_all add: bs_set_def\<close>)
  then have "bst p (bs_set b x dt B, s) ?u"
    by (rule bst_bufs [OF st])
      (use bstD(6) [OF st] bcache_ok_upd [of "g (bufs u ! b)" u b] f in \<open>simp_all add: bs_set_def\<close>)
  moreover have "krun (owns H (Some p, i)) u (kmod (upd_buf b g)) () (owns H (Some p, i)) ?u"
    by (rule kmod_owns) (simp add: upd_buf_def)
  ultimately show "\<exists>u'. krun (owns H (Some p, i)) u (kmod (upd_buf b g)) () (owns H (Some p, i)) u' \<and>
      bst p (bs_set b x dt B, s) u'" by blast
qed

lemma bwrite_brep:
  assumes v: "bs_held B b = Some v"
  shows "krun (brep [] p i) (B, s) (bwrite b) () (brep [] p i) (bs_write b B, s)"
proof (rule krun_brep)
  fix u assume st: "bst p (B, s) u"
  note V = bstD(5) [OF st, simplified]
  note h = held_buf [OF V v]
  let ?f = "(bufs u ! b)\<lparr>b_flags := b_flags (bufs u ! b) OR B_DIRTY\<rparr>"
  let ?g = "io_buf (ide u) ?f"
  let ?i = "ide_issue ?f (ide u)"
  let ?u = "u\<lparr>pt := io_wait p (ChBuf b) (pt u), ide := ?i, bufs := (bufs u)[b := ?g]\<rparr>"
  have f: "unat (b_blockno ?f) < FSSIZE" "Blk (b_dev ?f AND 1) (b_blockno ?f) = h_key v"
    "b_dev ?f AND 1 = blk_dev (h_key v)" "b_blockno ?f = blk_no (h_key v)"
    using h(2,10) by (cases "h_key v", simp add: key_ok_def bkey_def)+
  have "krun (owns [] (Some p, i)) u (bwrite b) () (owns [] (Some p, i)) ?u"
    using bwrite_owns [OF io_ok_bst [OF st h(1)]] h bstD(7) [OF st] by simp
  moreover have "bst p (bs_write b B, s) ?u"
  proof (rule bst_step [OF st])
    show "bview (p_pid (proc_at s p)) (bs_write b B) ((bufs u)[b := ?g])"
      by (rule bview_held_upd [OF V bstD(8) [OF st] v])
        (use h v bviewD(4) [OF V] in \<open>simp_all add: bs_write_def io_buf_def bkey_def\<close>)
    show "\<exists>xs. bcache_ok (u\<lparr>bufs := (bufs u)[b := ?g]\<rparr>) xs"
      using bstD(6) [OF st] bcache_ok_upd [of ?g u b] by (simp add: io_buf_def)
    show "pt_upto (pt u) (io_wait p (ChBuf b) (pt u))"
      by (rule pt_upto_io_wait) (use bstD(1) [OF st] in \<open>simp add: can_wait_def\<close>)
    show "(\<lambda>k. disks ?i (blk_dev k) (blk_no k)) = bs_disk (bs_write b B)"
    proof
      fix k
      have "blk_dev k = blk_dev (h_key v) \<Longrightarrow> blk_no k = blk_no (h_key v) \<Longrightarrow> k = h_key v"
        by (cases k; cases "h_key v") auto
      then show "disks ?i (blk_dev k) (blk_no k) = bs_disk (bs_write b B) k"
        using bstD(9) [OF st, of k] ide_issue_disk(1) [OF f(1), of "ide u"] f(3,4) h(3) v
        by (auto simp: bs_write_def)
    qed
    show "map (\<lambda>(d, n, x). (Blk d n, x)) (ide_trace ?i) = bs_trace (bs_write b B)"
      using ide_issue_disk(2) [OF f(1), of "ide u"] st f(2) h(3) v by (simp add: bs_write_def bst_def)
  qed (use bstD(2-4) [OF st] in \<open>simp_all add: ide_ready_def\<close>)
  ultimately show "\<exists>u'. krun (owns [] (Some p, i)) u (bwrite b) () (owns [] (Some p, i)) u' \<and>
      bst p (bs_write b B, s) u'" by blast
qed

lemma bview_relinked:
  assumes V: "bview pid B fs" and r: "relinked fs gs" and len: "length fs = Suc NBUF"
  shows "bview pid B gs"
proof -
  have eq: "bkey (gs ! b) = bkey (fs ! b) \<and> b_flags (gs ! b) = b_flags (fs ! b) \<and>
      buf_rep pid B b (gs ! b) = buf_rep pid B b (fs ! b)" if "b < NBUF" for b
    using nolink_eqD [OF relinkedD(2) [OF r, of b]] that len
    by (cases "bs_held B b") (simp_all add: bkey_def buf_rep_def)
  show ?thesis using V eq unfolding bview_def by metis
qed

lemma bview_release:
  assumes V: "bview pid B bs" and len: "length bs = Suc NBUF" and v: "bs_held B b = Some v"
    and sync: "h_dirty v \<or> h_data v = bs_disk B (h_key v)"
  shows "bview pid (bs_release b B) (bs[b := (bs ! b)\<lparr>b_lock := drop_lock (b_lock (bs ! b)), b_refcnt := 0\<rparr>])"
    (is "bview pid ?B (bs[b := ?f])")
proof (rule bview_upd [OF V _ len])
  note h = held_buf [OF V v]
  have k: "bkey ?f = h_key v" using h by (simp add: bkey_def)
  have B: "bs_held ?B = (bs_held B)(b := None)" "bs_disk ?B = bs_disk B"
    "bs_pin ?B = (bs_pin B)(h_key v := if h_dirty v then Some (h_data v) else None)"
    using v by (simp_all add: bs_release_def)
  show "b < NBUF" by (rule h)
  show "buf_rep pid ?B b ?f" using h sync B k by (auto simp: buf_rep_def drop_lock_def)
  show "bkey ?f \<noteq> Blk 0 0" using k h by (simp add: key_ok_def)
  show "bkey (bs ! c) \<noteq> bkey ?f" if "c < NBUF" "c \<noteq> b" for c
    using bviewD(2) [OF V that(1) h(1)] that(2) h k by (auto simp: key_ok_def)
  show "bs_held ?B b = None \<and> dirty_flag (b_flags ?f)" if "bs_pin ?B (bkey ?f) \<noteq> None"
    using that B h k by (auto split: if_splits)
  show "bs_pin B (bkey (bs ! b)) = None" if "bkey (bs ! b) \<noteq> bkey ?f" using that h k by simp
  show "bs_pin ?B j = bs_pin B j" if "j \<noteq> bkey ?f" for j using that B k by simp
  show "length (bs_disk ?B j) = BSIZE" for j using bviewD(4) [OF V] B by simp
qed (use v in \<open>simp_all add: bs_release_def\<close>)

lemma brelse_brep:
  assumes v: "bs_held B b = Some v" and sync: "h_dirty v \<or> h_data v = bs_disk B (h_key v)"
  shows "krun (brep [] p i) (B, s) (brelse b) () (brep [] p i) (bs_release b B, s)"
proof (rule krun_brep)
  fix u assume st: "bst p (B, s) u"
  note V = bstD(5) [OF st, simplified]
  note h = held_buf [OF V v]
  obtain xs where xs: "bcache_ok u xs" using bstD(6) [OF st] by blast
  let ?f = "(bufs u ! b)\<lparr>b_lock := drop_lock (b_lock (bufs u ! b)), b_refcnt := 0\<rparr>"
  let ?u1 = "u\<lparr>pt := woken (ChSleep (SLBuf b)) (pt u), bufs := (bufs u)[b := ?f]\<rparr>"
  have ok1: "bcache_ok (u\<lparr>bufs := (bufs u)[b := ?f]\<rparr>) xs" using bcache_ok_upd [of ?f u b xs] xs by simp
  have "bst p (bs_release b B, s) (u\<lparr>bufs := (bufs u)[b := ?f]\<rparr>)"
    by (rule bst_bufs [OF st bview_release [OF V bstD(8) [OF st] v sync]])
      (use ok1 v in \<open>auto simp: bs_release_def\<close>)
  from bst_sched [OF this, of "woken (ChSleep (SLBuf b)) (pt u)"]
  have st1: "bst p (bs_release b B, s) ?u1" by (simp add: pt_upto_woken)
  obtain fs where fs: "brelse_relink b ?u1 = ?u1\<lparr>bufs := fs\<rparr>" "relinked (bufs ?u1) fs"
    using brelse_relink_bufs by blast
  have "\<exists>xs. bcache_ok ?u1 xs" using bstD(6) [OF st1] .
  then have ok2: "\<exists>xs. bcache_ok (?u1\<lparr>bufs := fs\<rparr>) xs" using brelse_relink_ok [OF _ h(1)] fs(1) by metis
  have "bview (p_pid (proc_at s p)) (bs_release b B) fs"
    by (rule bview_relinked [OF _ fs(2)]) (use bstD(5,8) [OF st1] in simp_all)
  then have "bst p (bs_release b B, s) (brelse_relink b ?u1)"
    unfolding fs(1) by (rule bst_bufs [OF st1 _ ok2]) simp_all
  moreover have "krun (owns [] (Some p, i)) u (brelse b) () (owns [] (Some p, i)) (brelse_relink b ?u1)"
    using brelse_owns [of b u p i] h bstD(7,8) [OF st] by simp
  ultimately show "\<exists>u'. krun (owns [] (Some p, i)) u (brelse b) () (owns [] (Some p, i)) u' \<and>
      bst p (bs_release b B, s) u'" by blast
qed

section \<open>Other code above the cache\<close>

lemma bst_cong:
  assumes "bst p (B, s) u" and "same_rest s' u'" and "pt s' = pt s" and "pt u' = pt u" and "ide u' = ide u"
    and "bufs u' = bufs u"
  shows "bst p (B, s') u'"
  using assms by (simp add: bst_def can_wait_def bcache_ok_def bnext_def [abs_def] bprev_def [abs_def])

lemma brep_state:
  assumes "brep H p i (B, s) t"
  obtains h q j b where "t = s\<lparr>hw := h, pt := q, ide := j, bufs := b\<rparr>"
proof -
  from assms obtain u h where u: "same_rest s u" "t = u\<lparr>hw := h\<rparr>" by (auto simp: brep_def bst_def owns_def)
  then have "t = s\<lparr>hw := h, pt := pt u, ide := ide u, bufs := bufs u\<rparr>"
    by (intro kstate.equality) (simp_all add: same_rest_def)
  then show ?thesis by (rule that)
qed

lemma acquire_brep: "l \<notin> set H \<Longrightarrow> krun (brep H p i) A (acquire l) () (brep (l # H) p i) A"
  by (rule krun_brep) (use acquire_owns in blast)

lemma release_brep: "krun (brep (l # H) p i) A (release l) () (brep H p i) A"
  by (rule krun_brep) (use release_head_owns in blast)

lemma myproc_brep: "krun (brep H p i) A myproc (Some p) (brep H p i) A"
  by (rule krun_brep) (use myproc_owns [of H "(Some p, i)"] in auto)

lemma wakeup_brep: "LPtable \<notin> set H \<Longrightarrow> krun (brep H p i) A (wakeup ch) () (brep H p i) A"
  by (rule krun_brep) (use wakeup_owns bst_sched pt_upto_woken in blast)

lemma get_brep:
  assumes "\<And>h q j b. g (s\<lparr>hw := h, pt := q, ide := j, bufs := b\<rparr>) = g s" and "g s = v"
    and "kexec (brep H p i) (B, s) (f v) Q"
  shows "kexec (brep H p i) (B, s) (kbind (kget g) f) Q"
proof (rule kexecI)
  fix t assume t: "brep H p i (B, s) t"
  then have "g t = g s" using assms(1) by (metis brep_state)
  with t assms(2) show "Q (kbind (kget g) f t)" using kexecD [OF assms(3)] by simp
qed

lemma kmod_brep:
  assumes "\<And>h q j b. f (s\<lparr>hw := h, pt := q, ide := j, bufs := b\<rparr>) = (f s)\<lparr>hw := h, pt := q, ide := j, bufs := b\<rparr>"
    and "pt (f s) = pt s"
  shows "krun (brep H p i) (B, s) (kmod f) () (brep H p i) (B, f s)"
proof (rule krunI)
  fix t assume "brep H p i (B, s) t"
  then obtain u h where u: "bst p (B, s) u" "t = u\<lparr>hw := h\<rparr>" "crit h H (Some p, i)"
    by (auto simp: brep_def owns_def)
  then have "t = s\<lparr>hw := h, pt := pt u, ide := ide u, bufs := bufs u\<rparr>"
    by (intro kstate.equality) (simp_all add: bst_def same_rest_def)
  then have ft: "f t = (f s)\<lparr>hw := h, pt := pt u, ide := ide u, bufs := bufs u\<rparr>" using assms(1) by simp
  have "bst p (B, f s) (f t)"
    by (rule bst_cong [OF u(1)]) (use assms(2) ft in \<open>simp_all add: same_rest_def\<close>)
  moreover have "owns H (Some p, i) (f t) (f t)" by (rule owns_self) (use ft u(3) in simp)
  ultimately show "\<exists>t'. kmod f t = Inr ((), t') \<and> brep H p i (B, f s) t'" by (auto simp: brep_def)
qed

lemma mod_brep:
  assumes "\<And>h q j b. f (s\<lparr>hw := h, pt := q, ide := j, bufs := b\<rparr>) = (f s)\<lparr>hw := h, pt := q, ide := j, bufs := b\<rparr>"
    and "f s = s'" and "pt s' = pt s" and "kexec (brep H p i) (B, s') m Q"
  shows "kexec (brep H p i) (B, s) (kseq (kmod f) m) Q"
  using kexec_kseq [OF kmod_brep [OF assms(1)]] assms(2-4) by simp

lemma get_data_brep:
  assumes "bs_held B b = Some v" and "kexec (brep H p i) (B, s) (f (g (h_data v))) Q"
  shows "kexec (brep H p i) (B, s) (kbind (kget (\<lambda>s. g (b_data (bufs s ! b)))) f) Q"
proof (rule kexecI)
  fix t assume t: "brep H p i (B, s) t"
  then obtain u where u: "bst p (B, s) u" "owns H (Some p, i) u t" by (auto simp: brep_def)
  have "b_data (bufs t ! b) = h_data v"
    using held_buf(3) [OF bstD(5) [OF u(1), simplified] assms(1)] u(2) by (auto simp: owns_def)
  with t show "Q (kbind (kget (\<lambda>s. g (b_data (bufs s ! b)))) f t)" using kexecD [OF assms(2)] by simp
qed

end
