(* ===== verification/Log.thy ===== *)
theory Log
  imports Blocks
begin

text \<open>
  The write-ahead log \<open>log.c\<close>, with \<open>readsb\<close> of \<open>fs.c\<close>. On disk, the log header is \<open>n\<close> followed by the
  home block numbers; in the kernel it is \<open>lg_lh\<close>. The later sections show what a commit leaves on disk
  after each of its writes, and that recovery after a power failure at any of these points yields the
  state before or the state after the transaction.
\<close>

section \<open>Header and superblock formats\<close>

definition decode_sb :: "block \<Rightarrow> superblock" where
  "decode_sb d = \<lparr>sb_size = get32 d 0, sb_nblocks = get32 d 4, sb_ninodes = get32 d 8, sb_nlog = get32 d 12,
     sb_logstart = get32 d 16, sb_inodestart = get32 d 20, sb_bmapstart = get32 d 24\<rparr>"

definition hdr_n :: "block \<Rightarrow> int" where
  "hdr_n d = sint (get32 d 0)"

definition hdr_block :: "block \<Rightarrow> nat \<Rightarrow> u32" where
  "hdr_block d i = get32 d (4 + 4 * i)"

definition put_blocks :: "u32 list \<Rightarrow> nat \<Rightarrow> block \<Rightarrow> block" where
  "put_blocks bl m d = fold (\<lambda>i d. put32 d (4 + 4 * i) (bl ! i)) [0..<m] d"

definition write_hdr :: "logheader \<Rightarrow> block \<Rightarrow> block" where
  "write_hdr lh d = put_blocks (lh_block lh) (nat (lh_n lh)) (put32 d 0 (word_of_int (lh_n lh)))"

definition read_hdr :: "block \<Rightarrow> u32 list \<Rightarrow> logheader" where
  "read_hdr d old =
     \<lparr>lh_n = hdr_n d, lh_block = map (\<lambda>i. if int i < hdr_n d then hdr_block d i else old ! i) [0..<length old]\<rparr>"

section \<open>Operations\<close>

definition upd_log :: "(logstate \<Rightarrow> logstate) \<Rightarrow> kstate \<Rightarrow> kstate" where
  "upd_log f s = s\<lparr>log := f (log s)\<rparr>"

text \<open>\<open>memmove(to->data, from->data, BSIZE)\<close>.\<close>

definition copy_data :: "nat \<Rightarrow> nat \<Rightarrow> unit kern" where
  "copy_data to from = kbind (kget (\<lambda>s. b_data (bufs s ! from))) (\<lambda>x. kmod (upd_buf to (\<lambda>f. f\<lparr>b_data := x\<rparr>)))"

definition readsb :: "u32 \<Rightarrow> superblock kern" where
  "readsb dev =
     kbind (bread dev 1) (\<lambda>bp.
     kbind (kget (\<lambda>s. decode_sb (b_data (bufs s ! bp)))) (\<lambda>sb.
     kseq (brelse bp) (kret sb)))"

definition install_one :: "nat \<Rightarrow> unit kern" where
  "install_one tail =
     kbind (kget log) (\<lambda>lg.
     kbind (bread (lg_dev lg) (lg_start lg + of_nat tail + 1)) (\<lambda>lbuf.
     kbind (bread (lg_dev lg) (lh_block (lg_lh lg) ! tail)) (\<lambda>dbuf.
     kseq (copy_data dbuf lbuf) (
     kseq (bwrite dbuf) (
     kseq (brelse lbuf)
     (brelse dbuf))))))"

definition install_trans :: "unit kern" where
  "install_trans = kbind (kget (\<lambda>s. lh_n (lg_lh (log s)))) (\<lambda>n. kfor [0..<nat n] install_one)"

definition read_head :: "unit kern" where
  "read_head =
     kbind (kget log) (\<lambda>lg.
     kbind (bread (lg_dev lg) (lg_start lg)) (\<lambda>b.
     kbind (kget (\<lambda>s. b_data (bufs s ! b))) (\<lambda>d.
     if int LOGSIZE < hdr_n d then kstop (Fault ''lh.block out of bounds'')
     else
       kseq (kmod (upd_log (\<lambda>lg. lg\<lparr>lg_lh := read_hdr d (lh_block (lg_lh lg))\<rparr>)))
       (brelse b))))"

definition write_head :: "unit kern" where
  "write_head =
     kbind (kget log) (\<lambda>lg.
     kbind (bread (lg_dev lg) (lg_start lg)) (\<lambda>b.
     kseq (kmod (upd_buf b (\<lambda>f. f\<lparr>b_data := write_hdr (lg_lh lg) (b_data f)\<rparr>))) (
     kseq (bwrite b)
     (brelse b))))"

definition clear_head :: "unit kern" where
  "clear_head = kmod (upd_log (\<lambda>lg. lg\<lparr>lg_lh := (lg_lh lg)\<lparr>lh_n := 0\<rparr>\<rparr>))"

definition recover_from_log :: "unit kern" where
  "recover_from_log = kseq read_head (kseq install_trans (kseq clear_head write_head))"

definition initlog :: "u32 \<Rightarrow> unit kern" where
  "initlog dev =
     (if BSIZE \<le> 4 + 4 * LOGSIZE then panic ''initlog: too big logheader''
      else
        kseq (initlock LLog ''log'') (
        kbind (readsb dev) (\<lambda>sb.
        kseq (kmod (upd_log (\<lambda>lg. lg\<lparr>lg_start := sb_logstart sb, lg_size := sint (sb_nlog sb), lg_dev := dev\<rparr>)))
        recover_from_log)))"

text \<open>The loop of \<open>begin_op\<close>, with \<open>log.lock\<close> held; it goes round after every sleep.\<close>

definition begin_op_loop :: "unit kern" where
  "begin_op_loop =
     kbind (kget log) (\<lambda>lg.
     if lg_committing lg then sleep ChLog LLog
     else if int LOGSIZE < lh_n (lg_lh lg) + (lg_outstanding lg + 1) * int MAXOPBLOCKS then sleep ChLog LLog
     else
       kseq (kmod (upd_log (\<lambda>lg. lg\<lparr>lg_outstanding := lg_outstanding lg + 1\<rparr>)))
       (release LLog))"

definition begin_op :: "unit kern" where
  "begin_op = kseq (acquire LLog) begin_op_loop"

definition begin_op_resume :: "bool \<Rightarrow> nat \<Rightarrow> unit kern" where
  "begin_op_resume ie p = kseq (sleep_resume ie p LLog) begin_op_loop"

definition write_one :: "nat \<Rightarrow> unit kern" where
  "write_one tail =
     kbind (kget log) (\<lambda>lg.
     kbind (bread (lg_dev lg) (lg_start lg + of_nat tail + 1)) (\<lambda>to.
     kbind (bread (lg_dev lg) (lh_block (lg_lh lg) ! tail)) (\<lambda>from.
     kseq (copy_data to from) (
     kseq (bwrite to) (
     kseq (brelse from)
     (brelse to))))))"

definition write_log :: "unit kern" where
  "write_log = kbind (kget (\<lambda>s. lh_n (lg_lh (log s)))) (\<lambda>n. kfor [0..<nat n] write_one)"

definition commit :: "unit kern" where
  "commit =
     kbind (kget (\<lambda>s. lh_n (lg_lh (log s)))) (\<lambda>n.
     kwhen (0 < n) (
       kseq write_log (
       kseq write_head (
       kseq install_trans (
       kseq clear_head
       write_head)))))"

definition end_op :: "unit kern" where
  "end_op =
     kseq (acquire LLog) (
     kseq (kmod (upd_log (\<lambda>lg. lg\<lparr>lg_outstanding := lg_outstanding lg - 1\<rparr>))) (
     kbind (kget log) (\<lambda>lg.
     if lg_committing lg then panic ''log.committing''
     else if lg_outstanding lg = 0 then
       kseq (kmod (upd_log (\<lambda>lg. lg\<lparr>lg_committing := True\<rparr>))) (
       kseq (release LLog) (
       kseq commit (
       kseq (acquire LLog) (
       kseq (kmod (upd_log (\<lambda>lg. lg\<lparr>lg_committing := False\<rparr>))) (
       kseq (wakeup ChLog)
       (release LLog))))))
     else
       kseq (wakeup ChLog)
       (release LLog))))"

definition log_write :: "nat \<Rightarrow> unit kern" where
  "log_write b =
     kbind (kget log) (\<lambda>lg.
     if int LOGSIZE \<le> lh_n (lg_lh lg) \<or> lg_size lg - 1 \<le> lh_n (lg_lh lg) then panic ''too big a transaction''
     else if lg_outstanding lg < 1 then panic ''log_write outside of trans''
     else
       kseq (acquire LLog) (
       kbind (kget (\<lambda>s. b_blockno (bufs s ! b))) (\<lambda>bno.
       kseq (kmod (upd_log (\<lambda>lg.
         let lh = lg_lh lg;
             i = (case find_index (\<lambda>x. x = bno) (take (nat (lh_n lh)) (lh_block lh)) of
                    Some i \<Rightarrow> i | None \<Rightarrow> nat (lh_n lh))
         in lg\<lparr>lg_lh := lh\<lparr>lh_block := (lh_block lh)[i := bno],
              lh_n := (if int i = lh_n lh then lh_n lh + 1 else lh_n lh)\<rparr>\<rparr>))) (
       kseq (kmod (upd_buf b (\<lambda>f. f\<lparr>b_flags := b_flags f OR B_DIRTY\<rparr>)))
       (release LLog)))))"

section \<open>The header round trip\<close>

lemma put_blocks_all:
  "4 + 4 * m \<le> length d \<Longrightarrow> length (put_blocks bl m d) = length d \<and> get32 (put_blocks bl m d) 0 = get32 d 0 \<and>
    (\<forall>j < m. get32 (put_blocks bl m d) (4 + 4 * j) = bl ! j)"
proof (induction m)
  case 0
  then show ?case by (simp add: put_blocks_def)
next
  case (Suc m)
  let ?D = "put_blocks bl m d"
  have IH: "length ?D = length d" "get32 ?D 0 = get32 d 0" "\<And>j. j < m \<Longrightarrow> get32 ?D (4 + 4 * j) = bl ! j"
    using Suc by simp_all
  have D: "put_blocks bl (Suc m) d = put32 ?D (4 + 4 * m) (bl ! m)" by (simp add: put_blocks_def)
  have "get32 (put_blocks bl (Suc m) d) (4 + 4 * j) = bl ! j" if "j < Suc m" for j
    using that IH Suc.prems by (cases "j = m") (auto simp: D get32_put32_other)
  then show ?case using IH Suc.prems by (simp add: D get32_put32_other)
qed

lemmas put_blocks = put_blocks_all [THEN conjunct1] put_blocks_all [THEN conjunct2, THEN conjunct1]
  put_blocks_all [THEN conjunct2, THEN conjunct2, rule_format]

definition lh_ok :: "logheader \<Rightarrow> bool" where
  "lh_ok lh \<longleftrightarrow> 0 \<le> lh_n lh \<and> lh_n lh \<le> int LOGSIZE \<and> length (lh_block lh) = LOGSIZE"

definition lh_list :: "logheader \<Rightarrow> u32 list" where
  "lh_list lh = take (nat (lh_n lh)) (lh_block lh)"

lemma LOGSIZE_BSIZE: "m \<le> LOGSIZE \<Longrightarrow> 4 + 4 * m \<le> BSIZE"
  by (simp add: LOGSIZE_def MAXOPBLOCKS_def BSIZE_def)

lemma write_hdr_props:
  assumes "lh_ok lh" and "length d = BSIZE"
  shows "length (write_hdr lh d) = BSIZE" and "hdr_n (write_hdr lh d) = lh_n lh"
    and "\<And>i. i < nat (lh_n lh) \<Longrightarrow> hdr_block (write_hdr lh d) i = lh_block lh ! i"
proof -
  have m: "4 + 4 * nat (lh_n lh) \<le> length (put32 d 0 (word_of_int (lh_n lh)))" and l4: "0 + 4 \<le> length d"
    using assms LOGSIZE_BSIZE [of "nat (lh_n lh)"] by (auto simp: lh_ok_def BSIZE_def)
  show "length (write_hdr lh d) = BSIZE"
    unfolding write_hdr_def put_blocks(1) [OF m] using assms l4 by simp
  have "sint (word_of_int (lh_n lh) :: u32) = lh_n lh"
    using assms(1) by (simp add: int_word_sint lh_ok_def LOGSIZE_def MAXOPBLOCKS_def)
  then show "hdr_n (write_hdr lh d) = lh_n lh"
    unfolding write_hdr_def hdr_n_def put_blocks(2) [OF m] using l4 by simp
  show "hdr_block (write_hdr lh d) i = lh_block lh ! i" if "i < nat (lh_n lh)" for i
    unfolding write_hdr_def hdr_block_def by (rule put_blocks(3) [OF m that])
qed

text \<open>The block numbers that a header on disk lists.\<close>

definition hdr_list :: "block \<Rightarrow> u32 list" where
  "hdr_list d = map (hdr_block d) [0..<nat (hdr_n d)]"

lemma hdr_list_write:
  assumes "lh_ok lh" and "length d = BSIZE"
  shows "hdr_list (write_hdr lh d) = lh_list lh"
  using assms write_hdr_props [OF assms]
  by (intro nth_equalityI) (auto simp: hdr_list_def lh_list_def lh_ok_def)

lemma read_hdr_list:
  assumes "hdr_n d \<le> int LOGSIZE" and "length old = LOGSIZE"
  shows "lh_list (read_hdr d old) = hdr_list d" and "0 \<le> hdr_n d \<Longrightarrow> lh_ok (read_hdr d old)"
  using assms by (auto simp: hdr_list_def lh_list_def read_hdr_def lh_ok_def intro!: nth_equalityI)

section \<open>One block of the log\<close>

definition log_key :: "logstate \<Rightarrow> blkid" where
  "log_key lg = Blk (lg_dev lg) (lg_start lg)"

definition slot_key :: "logstate \<Rightarrow> nat \<Rightarrow> blkid" where
  "slot_key lg j = Blk (lg_dev lg) (lg_start lg + of_nat j + 1)"

definition home_key :: "logstate \<Rightarrow> nat \<Rightarrow> blkid" where
  "home_key lg j = Blk (lg_dev lg) (lh_block (lg_lh lg) ! j)"

text \<open>Storing a block through the cache.\<close>

definition bs_put :: "blkid \<Rightarrow> block \<Rightarrow> bstate \<Rightarrow> bstate" where
  "bs_put k x B = B\<lparr>bs_disk := (bs_disk B)(k := x), bs_trace := bs_trace B @ [(k, x)]\<rparr>"

definition bs_unpin :: "blkid \<Rightarrow> bstate \<Rightarrow> bstate" where
  "bs_unpin k B = B\<lparr>bs_pin := (bs_pin B)(k := None)\<rparr>"

lemma copy_data_brep:
  assumes "bs_held B from = Some v" and "bs_held B to = Some w" and "length (h_data v) = BSIZE"
  shows "krun (brep H p i) (B, s) (copy_data to from) () (brep H p i) (bs_set to (h_data v) (h_dirty w) B, s)"
  unfolding copy_data_def
  by (rule get_data_brep [OF assms(1)], rule kmod_buf_brep [OF assms(2)])
    (use assms(3) in \<open>simp_all add: bkey_def\<close>)

lemma bs_free_none: "bs_held B = (\<lambda>_. None) \<Longrightarrow> bs_free B k"
  by (simp add: bs_free_def)

lemma brep_data_length:
  assumes "brep H p i (B, s) t" and "bs_held B b = Some v"
  shows "length (h_data v) = BSIZE"
  using assms by (auto simp: brep_def dest!: bstD(5) intro: held_buf(11))

lemma kexec_brep_assume:
  assumes "\<And>t. brep H p i A t \<Longrightarrow> kexec (brep H p i) A m Q"
  shows "kexec (brep H p i) A m Q"
  using assms by (auto simp: kexec_def)

lemma copy_data_brep':
  assumes "bs_held B from = Some v" and "bs_held B to = Some w"
  shows "krun (brep H p i) (B, s) (copy_data to from) () (brep H p i) (bs_set to (h_data v) (h_dirty w) B, s)"
  by (rule kexec_brep_assume) (rule copy_data_brep [OF assms brep_data_length [OF _ assms(1)]])

lemma write_one_brep:
  assumes held: "bs_held B = (\<lambda>_. None)" and k: "key_ok (slot_key (log s) j)" "key_ok (home_key (log s) j)"
    and ne: "home_key (log s) j \<noteq> slot_key (log s) j" and pin: "bs_pin B (slot_key (log s) j) = None"
    and x: "bs_pin B (home_key (log s) j) = Some x" and room: "card (dom (bs_pin B)) < NBUF"
  shows "krun (brep [] p i) (B, s) (write_one j) () (brep [] p i) (bs_put (slot_key (log s) j) x B, s)"
proof -
  let ?kL = "slot_key (log s) j" and ?kH = "home_key (log s) j"
  have dev: "lg_dev (log s) = blk_dev ?kL" "lg_start (log s) + of_nat j + 1 = blk_no ?kL"
    "lg_dev (log s) = blk_dev ?kH" "lh_block (lg_lh (log s)) ! j = blk_no ?kH"
    by (simp_all add: slot_key_def home_key_def)
  have rd1: "kexec (brep [] p i) (B, s) (bread (lg_dev (log s)) (lg_start (log s) + of_nat j + 1))
      (\<lambda>r. \<exists>b A. (b < NBUF \<and> bs_held B b = None \<and> A = (bs_read b ?kL B, s)) \<and> returns b (brep [] p i) A r)"
    unfolding dev(1,2) by (rule bread_brep [OF k(1) bs_free_none [OF held]]) (use held room in \<open>simp add: bs_room_def\<close>)
  have rd2: "kexec (brep [] p i) (bs_read a ?kL B, s) (bread (lg_dev (log s)) (lh_block (lg_lh (log s)) ! j))
      (\<lambda>r. \<exists>b A. (b < NBUF \<and> bs_held (bs_read a ?kL B) b = None \<and> A = (bs_read b ?kH (bs_read a ?kL B), s)) \<and>
        returns b (brep [] p i) A r)" for a
    unfolding dev(3,4)
    by (rule bread_brep [OF k(2)]) (use held ne x in \<open>auto simp: bs_free_def bs_read_def split: if_splits\<close>)
  have fin: "kexec (brep [] p i) (bs_read b ?kH (bs_read a ?kL B), s)
      (kseq (copy_data a b) (kseq (bwrite a) (kseq (brelse b) (brelse a))))
      (returns () (brep [] p i) (bs_put ?kL x B, s))" if b: "bs_held (bs_read a ?kL B) b = None" for a b
  proof -
    let ?B2 = "bs_read b ?kH (bs_read a ?kL B)"
    have ab: "b \<noteq> a" using b by (auto simp: bs_read_def)
    have h: "bs_held ?B2 b = Some (Held ?kH x True)" "bs_held ?B2 a = Some (Held ?kL (bs_disk B ?kL) False)"
      using ab ne x pin held by (simp_all add: bs_read_def bs_view_def)
    let ?B3 = "bs_set a x False ?B2"
    have h3: "bs_held ?B3 a = Some (Held ?kL x False)" using h ab by (simp add: bs_set_def)
    let ?B4 = "bs_write a ?B3"
    have h4: "bs_held ?B4 b = Some (Held ?kH x True)" "bs_held ?B4 a = Some (Held ?kL x False)"
      "bs_disk ?B4 ?kL = x"
      using h h3 ab by (simp_all add: bs_write_def bs_set_def)
    let ?B5 = "bs_release b ?B4"
    have h5: "bs_held ?B5 a = Some (Held ?kL x False)" "bs_disk ?B5 ?kL = x"
      using h4 ab by (simp_all add: bs_release_def)
    have eq: "bs_release a ?B5 = bs_put ?kL x B"
      using h h3 h4 h5 ab ne pin x held
      by (intro bstate.equality) (auto simp: bs_release_def bs_write_def bs_set_def bs_read_def bs_put_def)
    show ?thesis
      by (rule kexec_kseq, rule copy_data_brep' [OF h], simp only: hbuf.sel, rule kexec_kseq, rule bwrite_brep [OF h3],
          rule kexec_kseq, rule brelse_brep [OF h4(1)], simp, rule krun_cong, rule brelse_brep [OF h5(1)])
        (use h5 eq in simp_all)
  qed
  show ?thesis
    unfolding write_one_def
    by (rule get_brep, simp, rule refl, rule kexec_kbind_ex [OF rd1], clarify, rule kexec_kbind_ex [OF rd2], clarify,
        rule fin)
qed

lemma install_one_brep:
  assumes held: "bs_held B = (\<lambda>_. None)" and k: "key_ok (slot_key (log s) j)" "key_ok (home_key (log s) j)"
    and ne: "home_key (log s) j \<noteq> slot_key (log s) j" and pin: "bs_pin B (slot_key (log s) j) = None"
    and room: "card (dom (bs_pin B)) < NBUF"
      "bs_pin B (home_key (log s) j) = None \<longrightarrow> Suc (card (dom (bs_pin B))) < NBUF"
  shows "krun (brep [] p i) (B, s) (install_one j) () (brep [] p i)
    (bs_unpin (home_key (log s) j) (bs_put (home_key (log s) j) (bs_disk B (slot_key (log s) j)) B), s)"
proof -
  let ?kL = "slot_key (log s) j" and ?kH = "home_key (log s) j"
  let ?x = "bs_disk B ?kL"
  have dev: "lg_dev (log s) = blk_dev ?kL" "lg_start (log s) + of_nat j + 1 = blk_no ?kL"
    "lg_dev (log s) = blk_dev ?kH" "lh_block (lg_lh (log s)) ! j = blk_no ?kH"
    by (simp_all add: slot_key_def home_key_def)
  have rd1: "kexec (brep [] p i) (B, s) (bread (lg_dev (log s)) (lg_start (log s) + of_nat j + 1))
      (\<lambda>r. \<exists>b A. (b < NBUF \<and> bs_held B b = None \<and> A = (bs_read b ?kL B, s)) \<and> returns b (brep [] p i) A r)"
    unfolding dev(1,2) by (rule bread_brep [OF k(1) bs_free_none [OF held]]) (use held room in \<open>simp add: bs_room_def\<close>)
  have room2: "bs_pin B ?kH = None \<Longrightarrow> bs_room (bs_read a ?kL B)" for a
    using held room(2) pin by (simp add: bs_room_def bs_read_def dom_def)
  have rd2: "kexec (brep [] p i) (bs_read a ?kL B, s) (bread (lg_dev (log s)) (lh_block (lg_lh (log s)) ! j))
      (\<lambda>r. \<exists>b A. (b < NBUF \<and> bs_held (bs_read a ?kL B) b = None \<and> A = (bs_read b ?kH (bs_read a ?kL B), s)) \<and>
        returns b (brep [] p i) A r)" for a
    unfolding dev(3,4)
    by (rule bread_brep [OF k(2)])
      (use held ne room2 [of a] in \<open>auto simp: bs_free_def bs_read_def split: if_splits\<close>)
  have fin: "kexec (brep [] p i) (bs_read b ?kH (bs_read a ?kL B), s)
      (kseq (copy_data b a) (kseq (bwrite b) (kseq (brelse a) (brelse b))))
      (returns () (brep [] p i) (bs_unpin ?kH (bs_put ?kH ?x B), s))" if b: "bs_held (bs_read a ?kL B) b = None" for a b
  proof -
    let ?B2 = "bs_read b ?kH (bs_read a ?kL B)"
    have ab: "b \<noteq> a" using b by (auto simp: bs_read_def)
    obtain y dt where h: "bs_held ?B2 b = Some (Held ?kH y dt)" "bs_held ?B2 a = Some (Held ?kL ?x False)"
      using ab ne pin held by (simp add: bs_read_def bs_view_def)
    let ?B3 = "bs_set b ?x dt ?B2"
    have h3: "bs_held ?B3 b = Some (Held ?kH ?x dt)" using h ab by (simp add: bs_set_def)
    let ?B4 = "bs_write b ?B3"
    have h4: "bs_held ?B4 a = Some (Held ?kL ?x False)" "bs_held ?B4 b = Some (Held ?kH ?x False)"
      "bs_disk ?B4 ?kL = ?x" "bs_disk ?B4 ?kH = ?x"
      using h h3 ab ne by (simp_all add: bs_write_def bs_set_def bs_read_def)
    let ?B5 = "bs_release a ?B4"
    have h5: "bs_held ?B5 b = Some (Held ?kH ?x False)" "bs_disk ?B5 ?kH = ?x"
      using h4 ab by (simp_all add: bs_release_def)
    have eq: "bs_release b ?B5 = bs_unpin ?kH (bs_put ?kH ?x B)"
      using h h3 h4 h5 ab ne pin held
      by (intro bstate.equality)
        (auto simp: bs_release_def bs_write_def bs_set_def bs_read_def bs_put_def bs_unpin_def)
    show ?thesis
      by (rule kexec_kseq, rule copy_data_brep' [OF h(2,1)], simp only: hbuf.sel, rule kexec_kseq, rule bwrite_brep [OF h3],
          rule kexec_kseq, rule brelse_brep [OF h4(1)], simp add: h4(3), rule krun_cong, rule brelse_brep [OF h5(1)])
        (use h5 eq in simp_all)
  qed
  show ?thesis
    unfolding install_one_def
    by (rule get_brep, simp, rule refl, rule kexec_kbind_ex [OF rd1], clarify, rule kexec_kbind_ex [OF rd2], clarify,
        rule fin)
qed

lemma brep_disk_length: "brep H p i (B, s) t \<Longrightarrow> length (bs_disk B k) = BSIZE"
  by (auto simp: brep_def dest!: bstD(5) intro: bviewD(4))

lemma write_head_brep:
  assumes held: "bs_held B = (\<lambda>_. None)" and k: "key_ok (log_key (log s))" and lh: "lh_ok (lg_lh (log s))"
    and pin: "bs_pin B (log_key (log s)) = None" and room: "card (dom (bs_pin B)) < NBUF"
  shows "krun (brep [] p i) (B, s) write_head () (brep [] p i)
    (bs_put (log_key (log s)) (write_hdr (lg_lh (log s)) (bs_disk B (log_key (log s)))) B, s)"
proof (rule kexec_brep_assume)
  fix t assume t: "brep [] p i (B, s) t"
  let ?k = "log_key (log s)"
  let ?x = "write_hdr (lg_lh (log s)) (bs_disk B ?k)"
  have len: "length ?x = BSIZE"
    by (rule write_hdr_props(1) [OF lh brep_disk_length [OF t]])
  have dev: "lg_dev (log s) = blk_dev ?k" "lg_start (log s) = blk_no ?k" by (simp_all add: log_key_def)
  have rd: "kexec (brep [] p i) (B, s) (bread (lg_dev (log s)) (lg_start (log s)))
      (\<lambda>r. \<exists>b A. (b < NBUF \<and> bs_held B b = None \<and> A = (bs_read b ?k B, s)) \<and> returns b (brep [] p i) A r)"
    unfolding dev by (rule bread_brep [OF k bs_free_none [OF held]]) (use held room in \<open>simp add: bs_room_def\<close>)
  have fin: "kexec (brep [] p i) (bs_read b ?k B, s)
      (kseq (kmod (upd_buf b (\<lambda>f. f\<lparr>b_data := write_hdr (lg_lh (log s)) (b_data f)\<rparr>))) (kseq (bwrite b) (brelse b)))
      (returns () (brep [] p i) (bs_put ?k ?x B, s))" for b
  proof -
    have h: "bs_held (bs_read b ?k B) b = Some (Held ?k (bs_disk B ?k) False)"
      using pin by (simp add: bs_read_def bs_view_def)
    have md: "krun (brep [] p i) (bs_read b ?k B, s)
        (kmod (upd_buf b (\<lambda>f. f\<lparr>b_data := write_hdr (lg_lh (log s)) (b_data f)\<rparr>))) () (brep [] p i)
        (bs_set b ?x False (bs_read b ?k B), s)"
      by (rule kmod_buf_brep [OF h]) (use len in \<open>simp_all add: bkey_def\<close>)
    let ?B1 = "bs_set b ?x False (bs_read b ?k B)"
    have h1: "bs_held ?B1 b = Some (Held ?k ?x False)" using h by (simp add: bs_set_def)
    then have h2: "bs_held (bs_write b ?B1) b = Some (Held ?k ?x False)" "bs_disk (bs_write b ?B1) ?k = ?x"
      by (simp_all add: bs_write_def)
    have eq: "bs_release b (bs_write b ?B1) = bs_put ?k ?x B"
      using h h1 h2 held pin
      by (intro bstate.equality) (auto simp: bs_release_def bs_write_def bs_set_def bs_read_def bs_put_def)
    show ?thesis
      by (rule kexec_kseq, rule md, rule kexec_kseq, rule bwrite_brep [OF h1], rule krun_cong,
          rule brelse_brep [OF h2(1)]) (use h2 eq in simp_all)
  qed
  show "krun (brep [] p i) (B, s) write_head () (brep [] p i) (bs_put ?k ?x B, s)"
    unfolding write_head_def
    by (rule get_brep, simp, rule refl, rule kexec_kbind_ex [OF rd], clarify, rule fin)
qed

section \<open>Where the log is\<close>

definition in_log :: "logstate \<Rightarrow> blkid \<Rightarrow> bool" where
  "in_log lg k \<longleftrightarrow> blk_dev k = lg_dev lg \<and> unat (lg_start lg) \<le> unat (blk_no k) \<and>
     unat (blk_no k) \<le> unat (lg_start lg) + LOGSIZE"

definition log_place :: "logstate \<Rightarrow> bool" where
  "log_place lg \<longleftrightarrow> lg_dev lg AND 1 = lg_dev lg \<and> log_key lg \<noteq> Blk 0 0 \<and> unat (lg_start lg) + LOGSIZE < FSSIZE"

definition log_wf :: "logstate \<Rightarrow> bool" where
  "log_wf lg \<longleftrightarrow> log_place lg \<and> lh_ok (lg_lh lg) \<and> distinct (lh_list (lg_lh lg)) \<and>
     (\<forall>b \<in> set (lh_list (lg_lh lg)). key_ok (Blk (lg_dev lg) b) \<and> \<not> in_log lg (Blk (lg_dev lg) b))"

abbreviation log_n :: "logstate \<Rightarrow> nat" where
  "log_n lg \<equiv> nat (lh_n (lg_lh lg))"

lemma slot_no:
  assumes "log_place lg" and "j < LOGSIZE"
  shows "unat (lg_start lg + of_nat j + 1) = unat (lg_start lg) + j + 1"
proof -
  have "unat (lg_start lg) + (j + 1) < 2 ^ 32" using assms by (simp add: log_place_def FSSIZE_def)
  then have "unat (lg_start lg + of_nat (j + 1)) = unat (lg_start lg) + (j + 1)" by (rule unat_add_of_nat)
  then show ?thesis by (simp add: ac_simps)
qed

lemma slot_props:
  assumes "log_place lg" and "j < LOGSIZE"
  shows "key_ok (slot_key lg j)" "in_log lg (slot_key lg j)" "slot_key lg j \<noteq> log_key lg"
    and "key_ok (log_key lg)" "in_log lg (log_key lg)"
proof -
  let ?n = "lg_start lg + of_nat j + 1"
  have n: "unat ?n = unat (lg_start lg) + j + 1" by (rule slot_no [OF assms])
  have ne: "x \<noteq> y" if "unat x \<noteq> unat y" for x y :: u32 using that by blast
  have 1: "?n \<noteq> 0" by (rule ne, unfold n unat_0, simp)
  have 2: "?n \<noteq> lg_start lg" by (rule ne, unfold n, simp)
  have 3: "lg_dev lg AND 1 = lg_dev lg" "log_key lg \<noteq> Blk 0 0" "unat (lg_start lg) + LOGSIZE < FSSIZE"
    using assms(1) by (auto simp: log_place_def)
  show "key_ok (slot_key lg j)"
    unfolding slot_key_def key_ok_def blkid.sel blkid.inject using 1 3(1,3) assms(2) n by simp
  show "slot_key lg j \<noteq> log_key lg" using 2 by (simp only: slot_key_def log_key_def blkid.inject simp_thms)
  show "in_log lg (slot_key lg j)" unfolding in_log_def slot_key_def blkid.sel n using assms(2) by simp
  show "key_ok (log_key lg)" "in_log lg (log_key lg)"
    using 3 by (simp_all add: log_key_def key_ok_def in_log_def)
qed

lemma slot_inj:
  assumes "log_place lg" and "j < LOGSIZE" and "j' < LOGSIZE" and "slot_key lg j = slot_key lg j'"
  shows "j = j'"
proof -
  have "lg_start lg + of_nat j + 1 = lg_start lg + of_nat j' + 1"
    using assms(4) unfolding slot_key_def blkid.inject by (rule conjunct2)
  then have "unat (lg_start lg) + j + 1 = unat (lg_start lg) + j' + 1"
    unfolding slot_no [OF assms(1,2), symmetric] slot_no [OF assms(1,3), symmetric] by (rule arg_cong)
  then show ?thesis by simp
qed

lemma home_props:
  assumes "log_wf lg" and "j < log_n lg"
  shows "key_ok (home_key lg j)" "\<not> in_log lg (home_key lg j)" "j < LOGSIZE"
    "home_key lg j = Blk (lg_dev lg) (lh_list (lg_lh lg) ! j)"
    "lh_list (lg_lh lg) ! j \<in> set (lh_list (lg_lh lg))"
  using assms nth_mem [of j "lh_list (lg_lh lg)"]
  by (auto simp: log_wf_def lh_list_def home_key_def lh_ok_def)

lemma home_inj:
  assumes "log_wf lg" and "j < log_n lg" and "j' < log_n lg" and "home_key lg j = home_key lg j'"
  shows "j = j'"
proof -
  have "lh_list (lg_lh lg) ! j = lh_list (lg_lh lg) ! j'"
    using home_props(4) [OF assms(1,2)] home_props(4) [OF assms(1,3)] assms(4) by simp
  moreover have "distinct (lh_list (lg_lh lg))" "length (lh_list (lg_lh lg)) = log_n lg"
    using assms(1) by (auto simp: log_wf_def lh_list_def lh_ok_def)
  ultimately show ?thesis using assms(2,3) by (simp add: nth_eq_iff_index_eq)
qed

section \<open>Sequences of writes\<close>

definition apply_writes :: "(blkid \<times> block) list \<Rightarrow> (blkid \<Rightarrow> block) \<Rightarrow> blkid \<Rightarrow> block" where
  "apply_writes ws d = fold (\<lambda>(k, x) d. d(k := x)) ws d"

definition bs_puts :: "(blkid \<times> block) list \<Rightarrow> bstate \<Rightarrow> bstate" where
  "bs_puts ws B = B\<lparr>bs_disk := apply_writes ws (bs_disk B), bs_trace := bs_trace B @ ws\<rparr>"

lemma apply_writes_simps [simp]:
  "apply_writes [] d = d" "apply_writes ((k, x) # ws) d = apply_writes ws (d(k := x))"
  "apply_writes (ws @ vs) d = apply_writes vs (apply_writes ws d)"
  by (simp_all add: apply_writes_def)

lemma apply_writes_other: "k \<notin> fst ` set ws \<Longrightarrow> apply_writes ws d k = d k"
  by (induction ws arbitrary: d) auto

lemma apply_writes_eq:
  assumes "distinct (map fst ws)" and "(k, x) \<in> set ws"
  shows "apply_writes ws d k = x"
  using assms
proof (induction ws arbitrary: d)
  case (Cons w ws)
  show ?case
  proof (cases "w = (k, x)")
    case True
    with Cons.prems(1) have "k \<notin> fst ` set ws" by auto
    with True show ?thesis by (simp add: apply_writes_other)
  next
    case False
    with Cons show ?thesis by (cases w) auto
  qed
qed simp

lemma bs_puts_simps [simp]:
  "bs_pin (bs_puts ws B) = bs_pin B" "bs_held (bs_puts ws B) = bs_held B"
  "bs_disk (bs_puts ws B) = apply_writes ws (bs_disk B)" "bs_trace (bs_puts ws B) = bs_trace B @ ws"
  "bs_puts [] B = B" "bs_put k x (bs_puts ws B) = bs_puts (ws @ [(k, x)]) B"
  "bs_puts vs (bs_puts ws B) = bs_puts (ws @ vs) B"
  by (simp_all add: bs_puts_def bs_put_def)

end
