(* ===== verification/Inode.thy ===== *)
theory Inode
  imports Log
begin

text \<open>
  The lower half of \<open>fs.c\<close>: the block allocator (\<open>balloc\<close>, \<open>bfree\<close>), the on-disk inode format, the
  inode cache (\<open>iget\<close>, \<open>idup\<close>, \<open>ilock\<close>, \<open>iunlock\<close>, \<open>iput\<close>), and the block map of a file
  (\<open>bmap\<close>, \<open>itrunc\<close>). An inode pointer is an index into \<open>icache.inode\<close>. A call that has to wait for a
  sleep-lock stops in \<open>Switch\<close>, as in the lower layers.
\<close>

section \<open>Block allocator\<close>

definition BBLOCK :: "u32 \<Rightarrow> superblock \<Rightarrow> u32" where
  "BBLOCK b s = b div of_nat BPB + sb_bmapstart s"

definition bit_mask :: "nat \<Rightarrow> u8" where
  "bit_mask bi = push_bit (bi mod 8) 1"

definition bit_clear :: "block \<Rightarrow> nat \<Rightarrow> bool" where
  "bit_clear d bi \<longleftrightarrow> d ! (bi div 8) AND bit_mask bi = 0"

definition set_data :: "nat \<Rightarrow> (block \<Rightarrow> block) \<Rightarrow> unit kern" where
  "set_data b f = kmod (upd_buf b (\<lambda>x. x\<lparr>b_data := f (b_data x)\<rparr>))"

definition get_data :: "nat \<Rightarrow> (block \<Rightarrow> 'a) \<Rightarrow> 'a kern" where
  "get_data b f = kget (\<lambda>s. f (b_data (bufs s ! b)))"

definition bzero :: "u32 \<Rightarrow> u32 \<Rightarrow> unit kern" where
  "bzero dev bno =
     kbind (bread dev bno) (\<lambda>bp.
     kseq (set_data bp (\<lambda>_. replicate BSIZE 0)) (
     kseq (log_write bp)
     (brelse bp)))"

text \<open>The outer loop of \<open>balloc\<close> visits the first block number of each bitmap block.\<close>

fun balloc_loop :: "u32 \<Rightarrow> nat list \<Rightarrow> u32 kern" where
  "balloc_loop dev [] = panic ''balloc: out of blocks''"
| "balloc_loop dev (b # bs) =
     kbind (kget sb) (\<lambda>s.
     kbind (bread dev (BBLOCK (of_nat b) s)) (\<lambda>bp.
     kbind (get_data bp (\<lambda>d. find (bit_clear d) [0..<min BPB (unat (sb_size s) - b)])) (\<lambda>r.
     case r of
       Some bi \<Rightarrow>
         kseq (set_data bp (\<lambda>d. d[bi div 8 := d ! (bi div 8) OR bit_mask bi])) (
         kseq (log_write bp) (
         kseq (brelse bp) (
         kseq (bzero dev (of_nat (b + bi)))
         (kret (of_nat (b + bi))))))
     | None \<Rightarrow> kseq (brelse bp) (balloc_loop dev bs))))"

definition balloc :: "u32 \<Rightarrow> u32 kern" where
  "balloc dev = kbind (kget (\<lambda>s. unat (sb_size (sb s)))) (\<lambda>size.
     balloc_loop dev (map ((*) BPB) [0..<(size + BPB - 1) div BPB]))"

definition bfree :: "u32 \<Rightarrow> u32 \<Rightarrow> unit kern" where
  "bfree dev b =
     kbind (readsb dev) (\<lambda>s.
     kseq (kmod (\<lambda>k. k\<lparr>sb := s\<rparr>)) (
     kbind (bread dev (BBLOCK b s)) (\<lambda>bp.
     let bi = unat b mod BPB in
     kbind (get_data bp (\<lambda>d. bit_clear d bi)) (\<lambda>c.
     if c then panic ''freeing free block''
     else
       kseq (set_data bp (\<lambda>d. d[bi div 8 := d ! (bi div 8) AND NOT (bit_mask bi)])) (
       kseq (log_write bp)
       (brelse bp))))))"

section \<open>On-disk inodes\<close>

definition IBLOCK :: "u32 \<Rightarrow> superblock \<Rightarrow> u32" where
  "IBLOCK i s = i div of_nat IPB + sb_inodestart s"

definition dinode_off :: "u32 \<Rightarrow> nat" where
  "dinode_off inum = DINODE_SIZE * (unat inum mod IPB)"

definition get_dinode :: "block \<Rightarrow> nat \<Rightarrow> dinode" where
  "get_dinode d k = \<lparr>d_type = get16 d k, d_major = get16 d (k + 2), d_minor = get16 d (k + 4), d_nlink = get16 d (k + 6),
     d_size = get32 d (k + 8), d_addrs = map (\<lambda>i. get32 d (k + 12 + 4 * i)) [0..<NDIRECT + 1]\<rparr>"

definition dinode_bytes :: "dinode \<Rightarrow> u8 list" where
  "dinode_bytes x = bytes16 (d_type x) @ bytes16 (d_major x) @ bytes16 (d_minor x) @ bytes16 (d_nlink x) @
     bytes32 (d_size x) @ concat (map bytes32 (d_addrs x))"

definition put_dinode :: "block \<Rightarrow> nat \<Rightarrow> dinode \<Rightarrow> block" where
  "put_dinode d k x = patch d k (dinode_bytes x)"

section \<open>The inode cache\<close>

definition iinit :: "u32 \<Rightarrow> unit kern" where
  "iinit dev =
     kseq (initlock LIcache ''icache'') (
     kseq (kfor [0..<NINODE] (\<lambda>i. initsleeplock (SLInode i) ''inode'')) (
     kbind (readsb dev) (\<lambda>s. kmod (\<lambda>k. k\<lparr>sb := s\<rparr>))))"

definition iget :: "u32 \<Rightarrow> u32 \<Rightarrow> nat kern" where
  "iget dev inum =
     kseq (acquire LIcache) (
     kbind (kget inodes) (\<lambda>tab.
     case find_index (\<lambda>ip. 0 < i_ref ip \<and> i_dev ip = dev \<and> i_inum ip = inum) tab of
       Some i \<Rightarrow>
         kseq (kmod (upd_inode i (\<lambda>ip. ip\<lparr>i_ref := i_ref ip + 1\<rparr>))) (
         kseq (release LIcache)
         (kret i))
     | None \<Rightarrow>
         (case find_index (\<lambda>ip. i_ref ip = 0) tab of
            None \<Rightarrow> panic ''iget: no inodes''
          | Some i \<Rightarrow>
              kseq (kmod (upd_inode i (\<lambda>ip. ip\<lparr>i_dev := dev, i_inum := inum, i_ref := 1, i_valid := False\<rparr>))) (
              kseq (release LIcache)
              (kret i)))))"

fun ialloc_loop :: "u32 \<Rightarrow> u16 \<Rightarrow> nat list \<Rightarrow> nat kern" where
  "ialloc_loop dev type [] = panic ''ialloc: no inodes''"
| "ialloc_loop dev type (i # is) =
     kbind (kget sb) (\<lambda>s.
     kbind (bread dev (IBLOCK (of_nat i) s)) (\<lambda>bp.
     kbind (get_data bp (\<lambda>d. d_type (get_dinode d (dinode_off (of_nat i))))) (\<lambda>t.
     if t = 0 then
       kseq (set_data bp (\<lambda>d. put16 (patch d (dinode_off (of_nat i)) (replicate DINODE_SIZE 0)) (dinode_off (of_nat i)) type)) (
       kseq (log_write bp) (
       kseq (brelse bp)
       (iget dev (of_nat i))))
     else kseq (brelse bp) (ialloc_loop dev type is))))"

definition ialloc :: "u32 \<Rightarrow> u16 \<Rightarrow> nat kern" where
  "ialloc dev type = kbind (kget (\<lambda>s. unat (sb_ninodes (sb s)))) (\<lambda>n. ialloc_loop dev type [1..<n])"

definition inode_at :: "nat \<Rightarrow> kstate \<Rightarrow> inode" where
  "inode_at ip s = inodes s ! ip"

definition to_dinode :: "inode \<Rightarrow> dinode" where
  "to_dinode x = \<lparr>d_type = i_type x, d_major = i_major x, d_minor = i_minor x, d_nlink = i_nlink x,
     d_size = i_size x, d_addrs = i_addrs x\<rparr>"

definition from_dinode :: "dinode \<Rightarrow> inode \<Rightarrow> inode" where
  "from_dinode d x = x\<lparr>i_type := d_type d, i_major := d_major d, i_minor := d_minor d, i_nlink := d_nlink d,
     i_size := d_size d, i_addrs := d_addrs d\<rparr>"

definition iupdate :: "nat \<Rightarrow> unit kern" where
  "iupdate ip =
     kbind (kget (inode_at ip)) (\<lambda>x.
     kbind (kget sb) (\<lambda>s.
     kbind (bread (i_dev x) (IBLOCK (i_inum x) s)) (\<lambda>bp.
     kseq (set_data bp (\<lambda>d. put_dinode d (dinode_off (i_inum x)) (to_dinode x))) (
     kseq (log_write bp)
     (brelse bp)))))"

definition idup :: "nat \<Rightarrow> nat kern" where
  "idup ip =
     kseq (acquire LIcache) (
     kseq (kmod (upd_inode ip (\<lambda>x. x\<lparr>i_ref := i_ref x + 1\<rparr>))) (
     kseq (release LIcache)
     (kret ip)))"

definition ilock :: "nat option \<Rightarrow> unit kern" where
  "ilock ipo =
     (case ipo of None \<Rightarrow> panic ''ilock''
      | Some ip \<Rightarrow>
     kbind (kget (inode_at ip)) (\<lambda>x.
     if i_ref x < 1 then panic ''ilock''
     else
       kseq (acquiresleep (SLInode ip)) (
       kbind (kget (inode_at ip)) (\<lambda>x.
       if i_valid x then kret ()
       else
         kbind (kget sb) (\<lambda>s.
         kbind (bread (i_dev x) (IBLOCK (i_inum x) s)) (\<lambda>bp.
         kbind (get_data bp (\<lambda>d. get_dinode d (dinode_off (i_inum x)))) (\<lambda>d.
         kseq (kmod (upd_inode ip (from_dinode d))) (
         kseq (brelse bp) (
         kseq (kmod (upd_inode ip (\<lambda>x. x\<lparr>i_valid := True\<rparr>))) (
         if d_type d = 0 then panic ''ilock: no type'' else kret ()))))))))))"

definition iunlock :: "nat option \<Rightarrow> unit kern" where
  "iunlock ipo =
     (case ipo of None \<Rightarrow> panic ''iunlock''
      | Some ip \<Rightarrow>
     kbind (holdingsleep (SLInode ip)) (\<lambda>h.
     if \<not> h then panic ''iunlock''
     else
       kbind (kget (inode_at ip)) (\<lambda>x.
       if i_ref x < 1 then panic ''iunlock''
       else releasesleep (SLInode ip))))"

section \<open>Contents of a file\<close>

definition bmap :: "nat \<Rightarrow> u32 \<Rightarrow> u32 kern" where
  "bmap ip bn =
     kbind (kget (inode_at ip)) (\<lambda>x.
     if unat bn < NDIRECT then
       let addr = i_addrs x ! unat bn in
       if addr = 0 then
         kbind (balloc (i_dev x)) (\<lambda>addr.
         kseq (kmod (upd_inode ip (\<lambda>x. x\<lparr>i_addrs := (i_addrs x)[unat bn := addr]\<rparr>)))
         (kret addr))
       else kret addr
     else
       let bn = unat bn - NDIRECT in
       if bn < NINDIRECT then
         kbind (let addr = i_addrs x ! NDIRECT in
                if addr = 0 then
                  kbind (balloc (i_dev x)) (\<lambda>addr.
                  kseq (kmod (upd_inode ip (\<lambda>x. x\<lparr>i_addrs := (i_addrs x)[NDIRECT := addr]\<rparr>)))
                  (kret addr))
                else kret addr) (\<lambda>addr.
         kbind (bread (i_dev x) addr) (\<lambda>bp.
         kbind (get_data bp (\<lambda>d. get32 d (4 * bn))) (\<lambda>addr.
         kbind (if addr = 0 then
                  kbind (balloc (i_dev x)) (\<lambda>addr.
                  kseq (set_data bp (\<lambda>d. put32 d (4 * bn) addr)) (
                  kseq (log_write bp)
                  (kret addr)))
                else kret addr) (\<lambda>addr.
         kseq (brelse bp)
         (kret addr)))))
       else panic ''bmap: out of range'')"

definition itrunc_direct :: "nat \<Rightarrow> nat \<Rightarrow> unit kern" where
  "itrunc_direct ip i =
     kbind (kget (inode_at ip)) (\<lambda>x.
     kwhen (i_addrs x ! i \<noteq> 0) (
       kseq (bfree (i_dev x) (i_addrs x ! i))
       (kmod (upd_inode ip (\<lambda>x. x\<lparr>i_addrs := (i_addrs x)[i := 0]\<rparr>)))))"

definition itrunc :: "nat \<Rightarrow> unit kern" where
  "itrunc ip =
     kseq (kfor [0..<NDIRECT] (itrunc_direct ip)) (
     kbind (kget (inode_at ip)) (\<lambda>x.
     kseq (kwhen (i_addrs x ! NDIRECT \<noteq> 0) (
             kbind (bread (i_dev x) (i_addrs x ! NDIRECT)) (\<lambda>bp.
             kseq (kfor [0..<NINDIRECT] (\<lambda>j.
                     kbind (get_data bp (\<lambda>d. get32 d (4 * j))) (\<lambda>a. kwhen (a \<noteq> 0) (bfree (i_dev x) a)))) (
             kseq (brelse bp) (
             kseq (bfree (i_dev x) (i_addrs x ! NDIRECT))
             (kmod (upd_inode ip (\<lambda>x. x\<lparr>i_addrs := (i_addrs x)[NDIRECT := 0]\<rparr>)))))))) (
     kseq (kmod (upd_inode ip (\<lambda>x. x\<lparr>i_size := 0\<rparr>)))
     (iupdate ip))))"

definition iput :: "nat \<Rightarrow> unit kern" where
  "iput ip =
     kseq (acquiresleep (SLInode ip)) (
     kbind (kget (inode_at ip)) (\<lambda>x.
     kseq (kwhen (i_valid x \<and> i_nlink x = 0) (
             kseq (acquire LIcache) (
             kbind (kget (\<lambda>s. i_ref (inode_at ip s))) (\<lambda>r.
             kseq (release LIcache)
             (kwhen (r = 1) (
               kseq (itrunc ip) (
               kseq (kmod (upd_inode ip (\<lambda>x. x\<lparr>i_type := 0\<rparr>))) (
               kseq (iupdate ip)
               (kmod (upd_inode ip (\<lambda>x. x\<lparr>i_valid := False\<rparr>))))))))))) (
     kseq (releasesleep (SLInode ip)) (
     kseq (acquire LIcache) (
     kseq (kmod (upd_inode ip (\<lambda>x. x\<lparr>i_ref := i_ref x - 1\<rparr>)))
     (release LIcache))))))"

definition iunlockput :: "nat \<Rightarrow> unit kern" where
  "iunlockput ip = kseq (iunlock (Some ip)) (iput ip)"

definition stati :: "nat \<Rightarrow> stat kern" where
  "stati ip = kget (\<lambda>s. let x = inode_at ip s in
     \<lparr>st_type = i_type x, st_dev = i_dev x, st_ino = i_inum x, st_nlink = i_nlink x, st_size = i_size x\<rparr>)"

end
