(* ===== verification/Format.thy ===== *)
theory Format
  imports Cstring
begin

text \<open>
  Formatted output: \<open>printint\<close> and \<open>cprintf\<close> of \<open>console.c\<close> and \<open>printint\<close> and \<open>printf\<close> of \<open>printf.c\<close>, as functions
  from the format and the arguments to the bytes put out one after the other. An argument is a word, or a
  string that its pointer refers to (\<open>None\<close> for the null pointer); a missing argument, or a string where
  a number is asked for, would read what happens to be on the stack and is outside the model (\<open>None\<close>).
\<close>

section \<open>Numbers\<close>

definition digits_lower :: "u8 list" where
  "digits_lower = [0x30, 0x31, 0x32, 0x33, 0x34, 0x35, 0x36, 0x37, 0x38, 0x39, 0x61, 0x62, 0x63, 0x64, 0x65, 0x66]"

definition digits_upper :: "u8 list" where
  "digits_upper = [0x30, 0x31, 0x32, 0x33, 0x34, 0x35, 0x36, 0x37, 0x38, 0x39, 0x41, 0x42, 0x43, 0x44, 0x45, 0x46]"

text \<open>The \<open>do\<close> loop that fills \<open>buf\<close>, least significant digit first. The base is 10 or 16 in all calls.\<close>

function digits_rev :: "u8 list \<Rightarrow> nat \<Rightarrow> nat \<Rightarrow> u8 list" where
  "digits_rev ds base x =
     ds ! (x mod base) # (if base < 2 \<or> x div base = 0 then [] else digits_rev ds base (x div base))"
  by pat_completeness auto

termination digits_rev
  by (relation "measure (\<lambda>(ds, base, x). x)") (auto intro!: div_less_dividend simp: div_eq_0_iff)

declare digits_rev.simps [simp del]

definition int_buf :: "u8 list \<Rightarrow> u32 \<Rightarrow> nat \<Rightarrow> bool \<Rightarrow> u8 list" where
  "int_buf ds xx base sg =
     (let neg = sg \<and> sint xx < 0; x = (if neg then - xx else xx)
      in digits_rev ds base (unat x) @ (if neg then [0x2D] else []))"

text \<open>What \<open>printint\<close> puts out, in the kernel and in the user library: \<open>buf\<close> backwards.\<close>

definition printint :: "u32 \<Rightarrow> nat \<Rightarrow> bool \<Rightarrow> u8 list" where
  "printint xx base sign = rev (int_buf digits_lower xx base sign)"

definition printint_u :: "u32 \<Rightarrow> nat \<Rightarrow> bool \<Rightarrow> u8 list" where
  "printint_u xx base sg = rev (int_buf digits_upper xx base sg)"

section \<open>Formats\<close>

datatype farg = AWord u32 | AStr "u8 list option"

definition null_text :: "u8 list" where
  "null_text = [0x28, 0x6E, 0x75, 0x6C, 0x6C, 0x29]"

fun cformat :: "u8 list \<Rightarrow> farg list \<Rightarrow> u8 list option" where
  "cformat [] args = Some []"
| "cformat (c # fmt) args =
     (if c = 0 then Some []
      else if c \<noteq> 0x25 then map_option ((#) c) (cformat fmt args)
      else case fmt of
        [] \<Rightarrow> Some []
      | d # fmt' \<Rightarrow>
          if d = 0 then Some []
          else if d = 0x64 then
            (case args of AWord v # as \<Rightarrow> map_option ((@) (printint v 10 True)) (cformat fmt' as) | _ \<Rightarrow> None)
          else if d = 0x78 \<or> d = 0x70 then
            (case args of AWord v # as \<Rightarrow> map_option ((@) (printint v 16 False)) (cformat fmt' as) | _ \<Rightarrow> None)
          else if d = 0x73 then
            (case args of AStr so # as \<Rightarrow>
               map_option ((@) (case so of None \<Rightarrow> null_text | Some s \<Rightarrow> s)) (cformat fmt' as) | _ \<Rightarrow> None)
          else if d = 0x25 then map_option ((#) 0x25) (cformat fmt' args)
          else map_option (\<lambda>r. 0x25 # d # r) (cformat fmt' args))"

text \<open>\<open>pct\<close> is the variable \<open>state\<close> of \<open>printf\<close>: whether the previous character was an unconsumed \<open>%\<close>.\<close>

fun printf_text :: "bool \<Rightarrow> u8 list \<Rightarrow> farg list \<Rightarrow> u8 list option" where
  "printf_text pct [] args = Some []"
| "printf_text pct (c # fmt) args =
     (if \<not> pct then
        (if c = 0x25 then printf_text True fmt args else map_option ((#) c) (printf_text False fmt args))
      else if c = 0x64 then
        (case args of AWord v # as \<Rightarrow> map_option ((@) (printint_u v 10 True)) (printf_text False fmt as) | _ \<Rightarrow> None)
      else if c = 0x78 \<or> c = 0x70 then
        (case args of AWord v # as \<Rightarrow> map_option ((@) (printint_u v 16 False)) (printf_text False fmt as) | _ \<Rightarrow> None)
      else if c = 0x73 then
        (case args of AStr so # as \<Rightarrow>
           map_option ((@) (case so of None \<Rightarrow> null_text | Some s \<Rightarrow> s)) (printf_text False fmt as) | _ \<Rightarrow> None)
      else if c = 0x63 then
        (case args of AWord v # as \<Rightarrow> map_option ((#) (ucast v)) (printf_text False fmt as) | _ \<Rightarrow> None)
      else if c = 0x25 then map_option ((#) c) (printf_text False fmt args)
      else map_option (\<lambda>r. 0x25 # c # r) (printf_text False fmt args))"

definition printf :: "u8 list \<Rightarrow> farg list \<Rightarrow> u8 list option" where
  "printf fmt args = printf_text False fmt args"

section \<open>Digits and values\<close>

lemma digits_rev_last: "x div base = 0 \<Longrightarrow> digits_rev ds base x = [ds ! (x mod base)]"
  by (subst digits_rev.simps) (simp only: simp_thms if_True)

lemma digits_rev_more:
  "2 \<le> base \<Longrightarrow> x div base \<noteq> 0 \<Longrightarrow> digits_rev ds base x = ds ! (x mod base) # digits_rev ds base (x div base)"
  by (subst digits_rev.simps) (simp only: not_less [symmetric] simp_thms if_False)

lemma length_digits_rev:
  "2 \<le> base \<Longrightarrow> x < base ^ Suc k \<Longrightarrow> length (digits_rev ds base x) \<le> Suc k"
proof (induction k arbitrary: x)
  case 0
  then have "x div base = 0" by simp
  then show ?case by (simp add: digits_rev_last)
next
  case (Suc k)
  have "x < base ^ Suc k * base" using Suc.prems(2) by (simp only: power_Suc2)
  then have "x div base < base ^ Suc k" by (rule less_mult_imp_div_less)
  note IH = Suc.IH [OF Suc.prems(1) this]
  show ?case
  proof (cases "x div base = 0")
    case False
    show ?thesis unfolding digits_rev_more [OF Suc.prems(1) False] using IH by simp
  qed (simp add: digits_rev_last)
qed

text \<open>
  C8. The 16-byte buffer of \<open>printint\<close> never overflows, for any number in the bases 10 and 16, signed or not.
\<close>

theorem printint_buffer:
  "length (int_buf ds xx 10 sg) \<le> 16 \<and> length (int_buf ds xx 16 sg) \<le> 16"
proof -
  have d: "length (digits_rev ds 10 (unat x)) \<le> 10" "length (digits_rev ds 16 (unat x)) \<le> 8" for x :: u32
    using length_digits_rev [of 10 "unat x" 9 ds] length_digits_rev [of 16 "unat x" 7 ds] unat_lt32 [of x] by simp_all
  let ?x = "if sg \<and> sint xx < 0 then - xx else xx"
  have "length (int_buf ds xx b sg) \<le> length (digits_rev ds b (unat ?x)) + 1" for b
    by (simp add: int_buf_def Let_def)
  from this [of 10] this [of 16] d(1) [of ?x] d(2) [of ?x] show ?thesis by linarith
qed









end
