(* ===== verification/Ringbuf.thy ===== *)
theory Ringbuf
  imports Prelude
begin

text \<open>
  Circular buffers with free-running 32-bit indices, the data structure of the console input
  (\<open>input.r\<close>, \<open>input.w\<close>, \<open>input.e\<close>) and of pipes (\<open>nread\<close>, \<open>nwrite\<close>): the index is reduced modulo the size
  only when the array is accessed, and the number of items is the difference of the indices, also after
  they have wrapped around.
\<close>

definition rb_slot :: "nat \<Rightarrow> u32 \<Rightarrow> nat" where
  "rb_slot N i = unat i mod N"

definition rb_items :: "nat \<Rightarrow> 'a list \<Rightarrow> u32 \<Rightarrow> u32 \<Rightarrow> 'a list" where
  "rb_items N buf r w = map (\<lambda>k. buf ! rb_slot N (r + of_nat k)) [0..<unat (w - r)]"

definition rb_ok :: "nat \<Rightarrow> 'a list \<Rightarrow> u32 \<Rightarrow> u32 \<Rightarrow> bool" where
  "rb_ok N buf r w \<longleftrightarrow> length buf = N \<and> unat (w - r) \<le> N"

lemma unat_diff_add: "unat (w - r) + unat (e - w) < 2 ^ 32 \<Longrightarrow> unat (e - r) = unat (w - r) + unat (e - w)" for r w e :: u32
proof -
  assume "unat (w - r) + unat (e - w) < 2 ^ 32"
  moreover have "e - r = (w - r) + (e - w)" by simp
  ultimately show ?thesis by (simp only: unat_word_ariths) simp
qed

locale ring_buffer =
  fixes N :: nat
  assumes size_pos: "0 < N" and size_dvd: "N dvd 2 ^ 32" and size_less: "N < 2 ^ 32"
begin

lemma slot_add: "rb_slot N (r + of_nat k) = (unat r + k) mod N"
proof -
  have "unat (r + of_nat k) mod N = ((unat r + k) mod 2 ^ 32) mod N"
    by (simp add: unat_word_ariths unat_of_nat mod_add_right_eq)
  then show ?thesis using size_dvd by (simp add: rb_slot_def mod_mod_cancel)
qed

lemma slot_less: "rb_slot N r < N"
  using size_pos by (simp add: rb_slot_def)

lemma rb_slot_inj_le:
  assumes "j \<le> k" and "k < N" and "rb_slot N (r + of_nat j) = rb_slot N (r + of_nat k)"
  shows "j = k"
proof -
  have "N dvd (unat r + k) - (unat r + j)"
    using assms unfolding slot_add by (intro mod_eq_dvd_iff_nat [THEN iffD1]) auto
  then have "N dvd k - j" by simp
  then show ?thesis using assms(1,2) by (auto dest: dvd_imp_le)
qed

lemma rb_slot_inj: "j < N \<Longrightarrow> k < N \<Longrightarrow> rb_slot N (r + of_nat j) = rb_slot N (r + of_nat k) \<Longrightarrow> j = k"
  using rb_slot_inj_le [of j k r] rb_slot_inj_le [of k j r] by (cases "j \<le> k") auto

lemma items_push:
  assumes ok: "rb_ok N buf r w" and room: "unat (w - r) < N"
  shows "rb_items N (buf[rb_slot N w := x]) r (w + 1) = rb_items N buf r w @ [x]"
    and "rb_ok N (buf[rb_slot N w := x]) r (w + 1)"
proof -
  let ?n = "unat (w - r)"
  have wr: "w = r + of_nat ?n" by simp
  have "unat (w + 1 - r) = unat ((w - r) + of_nat 1)" by (simp add: algebra_simps)
  also have "\<dots> = ?n + 1" by (rule unat_add_of_nat) (use room size_less in simp)
  finally have n1: "unat (w + 1 - r) = Suc ?n" by simp
  have old: "buf[rb_slot N w := x] ! rb_slot N (r + of_nat k) = buf ! rb_slot N (r + of_nat k)" if "k < ?n" for k
  proof -
    have "rb_slot N (r + of_nat k) \<noteq> rb_slot N w"
      using rb_slot_inj [of k ?n r] that room wr by auto
    then show ?thesis by simp
  qed
  have new: "buf[rb_slot N w := x] ! rb_slot N w = x" using ok slot_less [of w] by (simp add: rb_ok_def)
  show "rb_items N (buf[rb_slot N w := x]) r (w + 1) = rb_items N buf r w @ [x]"
    unfolding rb_items_def n1 upt_Suc_append [OF le0] map_append using old new by simp
  show "rb_ok N (buf[rb_slot N w := x]) r (w + 1)" using ok room n1 by (simp add: rb_ok_def)
qed

lemma unat_diff_pos: "r \<noteq> w \<Longrightarrow> 0 < unat (w - r)" for r w :: u32
  by (simp add: unat_gt_0)

lemma items_pop:
  assumes ok: "rb_ok N buf r w" and ne: "r \<noteq> w"
  shows "rb_items N buf r w = buf ! rb_slot N r # rb_items N buf (r + 1) w" and "rb_ok N buf (r + 1) w"
proof -
  have "unat (w - (r + 1)) = unat (w - r - 1)" by (simp add: diff_diff_eq)
  also have "\<dots> = unat (w - r) - 1" using ne by (intro unat_minus_one) simp
  finally have n: "unat (w - r) = Suc (unat (w - (r + 1)))" using unat_diff_pos [OF ne] by simp
  show "rb_items N buf r w = buf ! rb_slot N r # rb_items N buf (r + 1) w"
    unfolding rb_items_def n upt_conv_Cons [OF zero_less_Suc] map_Suc_upt [symmetric] by (simp add: add.assoc comp_def)
  show "rb_ok N buf (r + 1) w" using ok n by (simp add: rb_ok_def)
qed

lemma items_drop_last:
  assumes ok: "rb_ok N buf r w" and ne: "r \<noteq> w"
  shows "rb_items N buf r w = rb_items N buf r (w - 1) @ [buf ! rb_slot N (w - 1)]" and "rb_ok N buf r (w - 1)"
proof -
  have "unat (w - 1 - r) = unat (w - r - 1)" by (simp add: algebra_simps)
  also have "\<dots> = unat (w - r) - 1" using ne by (intro unat_minus_one) simp
  finally have n: "unat (w - r) = Suc (unat (w - 1 - r))" using unat_diff_pos [OF ne] by simp
  have l: "r + of_nat (unat (w - 1 - r)) = w - 1" by simp
  show "rb_items N buf r w = rb_items N buf r (w - 1) @ [buf ! rb_slot N (w - 1)]"
    unfolding rb_items_def n upt_Suc_append [OF le0] map_append using l by simp
  show "rb_ok N buf r (w - 1)" using ok n by (simp add: rb_ok_def)
qed

lemma items_split:
  assumes "unat (w - r) \<le> unat (e - r)"
  shows "rb_items N buf r e = rb_items N buf r w @ rb_items N buf w e" and "unat (e - w) = unat (e - r) - unat (w - r)"
proof -
  have "e - w = (e - r) - (w - r)" by simp
  also have "unat \<dots> = unat (e - r) - unat (w - r)" by (rule unat_sub) (use assms in \<open>simp add: word_le_nat_alt\<close>)
  finally show n: "unat (e - w) = unat (e - r) - unat (w - r)" .
  have "[0..<unat (e - r)] = [0..<unat (w - r)] @ map (\<lambda>k. k + unat (w - r)) [0..<unat (e - w)]"
    using assms n upt_add_eq_append [of 0 "unat (w - r)" "unat (e - w)"] by (simp add: map_add_upt)
  moreover have "r + of_nat (k + unat (w - r)) = w + of_nat k" for k by simp
  ultimately show "rb_items N buf r e = rb_items N buf r w @ rb_items N buf w e"
    unfolding rb_items_def by (simp add: comp_def add.commute)
qed

end

lemma length_rb_items [simp]: "length (rb_items N buf r w) = unat (w - r)"
  by (simp add: rb_items_def)

lemma rb_items_empty [simp]: "rb_items N buf r r = []"
  by (simp add: rb_items_def)

lemma rb_items_upd_other:
  assumes "\<And>k. k < unat (w - r) \<Longrightarrow> rb_slot N (r + of_nat k) \<noteq> j"
  shows "rb_items N (buf[j := x]) r w = rb_items N buf r w"
  unfolding rb_items_def by (rule map_cong) (use assms in \<open>auto simp: nth_list_update_if\<close>)

end
