(* ===== verification/Console.thy ===== *)
theory Console
  imports Inode Format Ringbuf
begin

text \<open>
  The console: \<open>console.c\<close>, the serial port \<open>uart.c\<close> and the keyboard \<open>kbd.c\<close>. The devices are the fields
  of \<open>consstate\<close>; the keyboard controller and the receiver are the bytes they deliver, passed to the
  interrupt handlers. The flag \<open>panicked\<close>, which freezes other CPUs, is never set on a CPU that still runs.
  \<open>consoleread\<close> returns the bytes that the source stores at \<open>dst\<close>; the caller stores them.
\<close>

definition upd_cons :: "(consstate \<Rightarrow> consstate) \<Rightarrow> kstate \<Rightarrow> kstate" where
  "upd_cons f s = s\<lparr>cons := f (cons s)\<rparr>"

section \<open>Output\<close>

definition BACKSPACE :: int where "BACKSPACE = 0x100"

definition uartputc :: "int \<Rightarrow> unit kern" where
  "uartputc c = kmod (upd_cons (\<lambda>k. if uart k then k\<lparr>uart_out := uart_out k @ [word_of_int c]\<rparr> else k))"

text \<open>The display has 25 rows of 80 characters; text is kept in the first 24.\<close>

definition cga_scroll :: "(nat \<Rightarrow> u16) \<Rightarrow> int \<Rightarrow> (nat \<Rightarrow> u16) \<times> int" where
  "cga_scroll m pos =
     (if 24 \<le> pos div 80 then
        let m = (\<lambda>i. if i < 23 * 80 then m (i + 80) else m i); pos = pos - 80
        in ((\<lambda>i. if pos \<le> int i \<and> int i < 24 * 80 then 0 else m i), pos)
      else (m, pos))"

definition cgaputc :: "int \<Rightarrow> unit kern" where
  "cgaputc c =
     kbind (kget cons) (\<lambda>k.
     let pos = crt_pos k;
         (m, pos) =
           (if c = 10 then (crt k, pos + (80 - pos mod 80))
            else if c = BACKSPACE then (crt k, if 0 < pos then pos - 1 else pos)
            else ((crt k)(nat pos := word_of_int (c mod 256) OR 0x0700), pos + 1))
     in if pos < 0 \<or> 25 * 80 < pos then panic ''pos under/overflow''
        else
          let (m, pos) = cga_scroll m pos
          in kmod (upd_cons (\<lambda>k. k\<lparr>crt := m(nat pos := 0x0720), crt_pos := pos mod 0x10000\<rparr>)))"

definition consputc :: "int \<Rightarrow> unit kern" where
  "consputc c =
     kseq (if c = BACKSPACE then kseq (uartputc 8) (kseq (uartputc 32) (uartputc 8)) else uartputc c)
     (cgaputc c)"

definition cprintf :: "u8 list \<Rightarrow> farg list \<Rightarrow> unit kern" where
  "cprintf fmt args =
     kbind (kget (\<lambda>s. cons_locking (cons s))) (\<lambda>locking.
     kseq (kwhen locking (acquire LCons)) (
     case cformat fmt args of
       None \<Rightarrow> kstop (Fault ''cprintf arguments'')
     | Some out \<Rightarrow>
         kseq (kfor out (\<lambda>c. consputc (uint c)))
         (kwhen locking (release LCons))))"

text \<open>The bytes of a string literal.\<close>

definition ascii :: "string \<Rightarrow> u8 list" where
  "ascii = map (\<lambda>c. of_nat (of_char c))"

section \<open>Process listing\<close>

text \<open>The saved return addresses of the chain of stack frames from \<open>ebp\<close> on, filled up with zeros.\<close>

primrec pcs_chain :: "(u32 \<Rightarrow> u8) \<Rightarrow> u32 \<Rightarrow> nat \<Rightarrow> u32 list" where
  "pcs_chain m ebp 0 = []"
| "pcs_chain m ebp (Suc n) =
     (if ebp = 0 \<or> ebp < KERNBASE \<or> ebp = 0xFFFFFFFF then replicate (Suc n) 0
      else load32 m (ebp + 4) # pcs_chain m (load32 m ebp) n)"

definition getcallerpcs :: "(u32 \<Rightarrow> u8) \<Rightarrow> u32 \<Rightarrow> u32 list" where
  "getcallerpcs m v = pcs_chain m (v - 8) 10"

fun state_name :: "procstate \<Rightarrow> string" where
  "state_name UNUSED = ''unused''"
| "state_name EMBRYO = ''embryo''"
| "state_name SLEEPING = ''sleep ''"
| "state_name RUNNABLE = ''runble''"
| "state_name RUNNING = ''run   ''"
| "state_name ZOMBIE = ''zombie''"

definition procdump_one :: "nat \<Rightarrow> unit kern" where
  "procdump_one i =
     kbind (kget (\<lambda>s. proc_at s i)) (\<lambda>p.
     kwhen (p_state p \<noteq> UNUSED) (
       kseq (cprintf (ascii ''%d %s %s'')
               [AWord (word_of_int (p_pid p)), AStr (Some (ascii (state_name (p_state p)))), AStr (Some (ascii (p_name p)))]) (
       kseq (kwhen (p_state p = SLEEPING) (
               kbind (kget (\<lambda>s. getcallerpcs (mem s) (c_ebp (p_context p) + 8))) (\<lambda>pcs.
               kfor (takeWhile (\<lambda>pc. pc \<noteq> 0) pcs) (\<lambda>pc. cprintf (ascii '' %p'') [AWord pc]))))
       (cprintf [10] []))))"

definition procdump :: "unit kern" where
  "procdump = kbind (kget (\<lambda>s. length (procs (pt s)))) (\<lambda>n. kfor [0..<n] procdump_one)"

section \<open>Input\<close>

definition INPUT_BUF :: nat where "INPUT_BUF = 128"

interpretation input_ring: ring_buffer INPUT_BUF
  by unfold_locales (simp_all add: INPUT_BUF_def)

text \<open>The loop of kill line (\<open>^U\<close>): \<open>n\<close> is the number of characters between \<open>w\<close> and \<open>e\<close>.\<close>

primrec kill_line :: "nat \<Rightarrow> unit kern" where
  "kill_line 0 = kret ()"
| "kill_line (Suc n) =
     kbind (kget cons) (\<lambda>k.
     kwhen (in_e k \<noteq> in_w k \<and> in_buf k ! rb_slot INPUT_BUF (in_e k - 1) \<noteq> 10) (
       kseq (kmod (upd_cons (\<lambda>k. k\<lparr>in_e := in_e k - 1\<rparr>))) (
       kseq (consputc BACKSPACE)
       (kill_line n))))"

definition consoleintr_char :: "int \<Rightarrow> unit kern" where
  "consoleintr_char c =
     kbind (kget cons) (\<lambda>k.
     if c = 16 then kret ()
     else if c = 21 then kill_line (unat (in_e k - in_w k))
     else if c = 8 \<or> c = 0x7F then
       kwhen (in_e k \<noteq> in_w k) (
         kseq (kmod (upd_cons (\<lambda>k. k\<lparr>in_e := in_e k - 1\<rparr>)))
         (consputc BACKSPACE))
     else
       kwhen (c \<noteq> 0 \<and> in_e k - in_r k < of_nat INPUT_BUF) (
         let c = (if c = 13 then 10 else c) in
         kseq (kmod (upd_cons (\<lambda>k. k\<lparr>in_buf := (in_buf k)[rb_slot INPUT_BUF (in_e k) := word_of_int c], in_e := in_e k + 1\<rparr>))) (
         kseq (consputc c) (
         kbind (kget cons) (\<lambda>k.
         kwhen (c = 10 \<or> c = 4 \<or> in_e k = in_r k + of_nat INPUT_BUF) (
           kseq (kmod (upd_cons (\<lambda>k. k\<lparr>in_w := in_e k\<rparr>)))
           (wakeup ChInput)))))))"

text \<open>\<open>cs\<close> are the values that \<open>getc\<close> returns until it returns a negative one.\<close>

definition consoleintr :: "int list \<Rightarrow> unit kern" where
  "consoleintr cs =
     kseq (acquire LCons) (
     kseq (kfor cs consoleintr_char) (
     kseq (release LCons)
     (kwhen (16 \<in> set cs) procdump)))"

text \<open>The loop of \<open>consoleread\<close> with \<open>cons.lock\<close> held; \<open>None\<close> when the process has been killed.\<close>

primrec consoleread_loop :: "nat \<Rightarrow> u8 list \<Rightarrow> u8 list option kern" where
  "consoleread_loop 0 acc = kret (Some acc)"
| "consoleread_loop (Suc n) acc =
     kbind (kget cons) (\<lambda>k.
     if in_r k = in_w k then
       kbind myproc (\<lambda>po.
       kbind (null_check po) (\<lambda>p.
       kbind (kget (\<lambda>s. p_killed (proc_at s p))) (\<lambda>killed.
       if killed then kret None
       else kseq (sleep ChInput LCons) (kstop (Fault ''sleep'')))))
     else
       let c = in_buf k ! rb_slot INPUT_BUF (in_r k) in
       if c = 4 then
         kseq (kwhen (acc = []) (kmod (upd_cons (\<lambda>k. k\<lparr>in_r := in_r k + 1\<rparr>)))) (kret (Some acc))
       else
         kseq (kmod (upd_cons (\<lambda>k. k\<lparr>in_r := in_r k + 1\<rparr>))) (
         if c = 10 then kret (Some (acc @ [c])) else consoleread_loop n (acc @ [c])))"

definition consoleread :: "nat \<Rightarrow> int \<Rightarrow> (int \<times> u8 list) kern" where
  "consoleread ip n =
     kseq (iunlock (Some ip)) (
     kseq (acquire LCons) (
     kbind (consoleread_loop (nat n) []) (\<lambda>r.
     kseq (release LCons) (
     kseq (ilock (Some ip)) (
     case r of
       None \<Rightarrow> kret (- 1, [])
     | Some bs \<Rightarrow> kret (int (length bs), bs))))))"

definition consolewrite :: "nat \<Rightarrow> u8 list \<Rightarrow> int kern" where
  "consolewrite ip bs =
     kseq (iunlock (Some ip)) (
     kseq (acquire LCons) (
     kseq (kfor bs (\<lambda>c. consputc (uint c))) (
     kseq (release LCons) (
     kseq (ilock (Some ip))
     (kret (int (length bs)))))))"

definition CONSOLE :: nat where "CONSOLE = 1"

definition consoleinit :: "unit kern" where
  "consoleinit =
     kseq (initlock LCons ''console'') (
     kseq (kmod (\<lambda>s. s\<lparr>devsw := (devsw s)(CONSOLE := Some ConsoleDev)\<rparr>))
     (kmod (upd_cons (\<lambda>k. k\<lparr>cons_locking := True\<rparr>))))"

section \<open>Serial port\<close>

text \<open>\<open>status\<close> is what the line status register reads; \<open>rx\<close> the bytes waiting in the receiver.\<close>

definition uartinit :: "u8 \<Rightarrow> unit kern" where
  "uartinit status =
     (if status = 0xFF then kret ()
      else
        kseq (kmod (upd_cons (\<lambda>k. k\<lparr>uart := True\<rparr>)))
        (kfor (ascii ''xv6...'' @ [10]) (\<lambda>c. uartputc (uint c))))"

definition uartgetc :: "consstate \<Rightarrow> u8 list \<Rightarrow> int \<times> u8 list" where
  "uartgetc k rx = (if \<not> uart k then (- 1, rx) else case rx of [] \<Rightarrow> (- 1, []) | c # cs \<Rightarrow> (uint c, cs))"

definition uartintr :: "u8 list \<Rightarrow> unit kern" where
  "uartintr rx = kbind (kget cons) (\<lambda>k. consoleintr (if uart k then map uint rx else []))"

section \<open>Keyboard\<close>

definition KBS_DIB :: u8 where "KBS_DIB = 0x01"
definition SHIFT :: u8 where "SHIFT = 0x01"
definition CTL :: u8 where "CTL = 0x02"
definition ALT :: u8 where "ALT = 0x04"
definition CAPSLOCK :: u8 where "CAPSLOCK = 0x08"
definition NUMLOCK :: u8 where "NUMLOCK = 0x10"
definition SCROLLLOCK :: u8 where "SCROLLLOCK = 0x20"
definition E0ESC :: u8 where "E0ESC = 0x40"

definition shiftcode :: "u8 \<Rightarrow> u8" where
  "shiftcode d = (if d = 0x1D \<or> d = 0x9D then CTL else if d = 0x2A \<or> d = 0x36 then SHIFT
     else if d = 0x38 \<or> d = 0xB8 then ALT else 0)"

definition togglecode :: "u8 \<Rightarrow> u8" where
  "togglecode d = (if d = 0x3A then CAPSLOCK else if d = 0x45 then NUMLOCK else if d = 0x46 then SCROLLLOCK else 0)"

definition normalmap :: "u8 list" where
  "normalmap = fold (\<lambda>(i, c) t. t[i := c])
     [(0x9C, 0x0A), (0xB5, 0x2F), (0xC8, 0xE2), (0xD0, 0xE3), (0xC9, 0xE6), (0xD1, 0xE7), (0xCB, 0xE4), (0xCD, 0xE5), (0x97, 0xE0), (0xCF, 0xE1), (0xD2, 0xE8), (0xD3, 0xE9)]
     ([0x00, 0x1B, 0x31, 0x32, 0x33, 0x34, 0x35, 0x36,
       0x37, 0x38, 0x39, 0x30, 0x2D, 0x3D, 0x08, 0x09,
       0x71, 0x77, 0x65, 0x72, 0x74, 0x79, 0x75, 0x69,
       0x6F, 0x70, 0x5B, 0x5D, 0x0A, 0x00, 0x61, 0x73,
       0x64, 0x66, 0x67, 0x68, 0x6A, 0x6B, 0x6C, 0x3B,
       0x27, 0x60, 0x00, 0x5C, 0x7A, 0x78, 0x63, 0x76,
       0x62, 0x6E, 0x6D, 0x2C, 0x2E, 0x2F, 0x00, 0x2A,
       0x00, 0x20, 0x00, 0x00, 0x00, 0x00, 0x00, 0x00,
       0x00, 0x00, 0x00, 0x00, 0x00, 0x00, 0x00, 0x37,
       0x38, 0x39, 0x2D, 0x34, 0x35, 0x36, 0x2B, 0x31,
       0x32, 0x33, 0x30, 0x2E, 0x00, 0x00, 0x00, 0x00] @ replicate 168 0)"

definition shiftmap :: "u8 list" where
  "shiftmap = fold (\<lambda>(i, c) t. t[i := c])
     [(0x9C, 0x0A), (0xB5, 0x2F), (0xC8, 0xE2), (0xD0, 0xE3), (0xC9, 0xE6), (0xD1, 0xE7), (0xCB, 0xE4), (0xCD, 0xE5), (0x97, 0xE0), (0xCF, 0xE1), (0xD2, 0xE8), (0xD3, 0xE9)]
     ([0x00, 0x1B, 0x21, 0x40, 0x23, 0x24, 0x25, 0x5E,
       0x26, 0x2A, 0x28, 0x29, 0x5F, 0x2B, 0x08, 0x09,
       0x51, 0x57, 0x45, 0x52, 0x54, 0x59, 0x55, 0x49,
       0x4F, 0x50, 0x7B, 0x7D, 0x0A, 0x00, 0x41, 0x53,
       0x44, 0x46, 0x47, 0x48, 0x4A, 0x4B, 0x4C, 0x3A,
       0x22, 0x7E, 0x00, 0x7C, 0x5A, 0x58, 0x43, 0x56,
       0x42, 0x4E, 0x4D, 0x3C, 0x3E, 0x3F, 0x00, 0x2A,
       0x00, 0x20, 0x00, 0x00, 0x00, 0x00, 0x00, 0x00,
       0x00, 0x00, 0x00, 0x00, 0x00, 0x00, 0x00, 0x37,
       0x38, 0x39, 0x2D, 0x34, 0x35, 0x36, 0x2B, 0x31,
       0x32, 0x33, 0x30, 0x2E, 0x00, 0x00, 0x00, 0x00] @ replicate 168 0)"

definition ctlmap :: "u8 list" where
  "ctlmap = fold (\<lambda>(i, c) t. t[i := c])
     [(0x9C, 0x0D), (0xB5, 0xEF), (0xC8, 0xE2), (0xD0, 0xE3), (0xC9, 0xE6), (0xD1, 0xE7), (0xCB, 0xE4), (0xCD, 0xE5), (0x97, 0xE0), (0xCF, 0xE1), (0xD2, 0xE8), (0xD3, 0xE9)]
     ([0x00, 0x00, 0x00, 0x00, 0x00, 0x00, 0x00, 0x00,
       0x00, 0x00, 0x00, 0x00, 0x00, 0x00, 0x00, 0x00,
       0x11, 0x17, 0x05, 0x12, 0x14, 0x19, 0x15, 0x09,
       0x0F, 0x10, 0x00, 0x00, 0x0D, 0x00, 0x01, 0x13,
       0x04, 0x06, 0x07, 0x08, 0x0A, 0x0B, 0x0C, 0x00,
       0x00, 0x00, 0x00, 0x1C, 0x1A, 0x18, 0x03, 0x16,
       0x02, 0x0E, 0x0D, 0x00, 0x00, 0xEF, 0x00, 0x00] @ replicate 200 0)"

definition charcode :: "u8 \<Rightarrow> u8 list" where
  "charcode i = (if i = 0 then normalmap else if i = 1 then shiftmap else ctlmap)"

text \<open>
  \<open>kbdgetc\<close> on the variable \<open>shift\<close> (its upper 24 bits are never used) and the controller: the status port
  and the data byte. The result is the returned code and the new \<open>shift\<close>.
\<close>

definition kbdgetc :: "u8 \<Rightarrow> u8 \<Rightarrow> u8 \<Rightarrow> int \<times> u8" where
  "kbdgetc st data shift =
     (if st AND KBS_DIB = 0 then (- 1, shift)
      else if data = 0xE0 then (0, shift OR E0ESC)
      else if data AND 0x80 \<noteq> 0 then
        let data = (if shift AND E0ESC \<noteq> 0 then data else data AND 0x7F)
        in (0, shift AND NOT (shiftcode data OR E0ESC))
      else
        let (data, shift) = (if shift AND E0ESC \<noteq> 0 then (data OR 0x80, shift AND NOT E0ESC) else (data, shift));
            shift = (shift OR shiftcode data) XOR togglecode data;
            c = charcode (shift AND (CTL OR SHIFT)) ! unat data;
            c = (if shift AND CAPSLOCK \<noteq> 0 then
                   if 0x61 \<le> c \<and> c \<le> 0x7A then c - 0x20 else if 0x41 \<le> c \<and> c \<le> 0x5A then c + 0x20 else c
                 else c)
        in (uint c, shift))"

text \<open>\<open>kbdintr\<close> reads the bytes \<open>ds\<close> that the controller holds; it returns the new \<open>shift\<close>.\<close>

fun kbd_codes :: "u8 \<Rightarrow> u8 list \<Rightarrow> int list \<times> u8" where
  "kbd_codes shift [] = ([], shift)"
| "kbd_codes shift (d # ds) =
     (let (c, shift) = kbdgetc KBS_DIB d shift; (cs, shift) = kbd_codes shift ds in (c # cs, shift))"

definition kbdintr :: "u8 \<Rightarrow> u8 list \<Rightarrow> u8 kern" where
  "kbdintr shift ds = (case kbd_codes shift ds of (cs, shift) \<Rightarrow> kseq (consoleintr cs) (kret shift))"

end
