(* ===== verification/Fs.thy ===== *)
theory Fs
  imports Console
begin

text \<open>
  The upper half of \<open>fs.c\<close>: file contents (\<open>readi\<close>, \<open>writei\<close>), directories and path names. The bytes that
  \<open>readi\<close> copies to \<open>dst\<close> are part of its result, and the bytes that \<open>writei\<close> copies from \<open>src\<close> are its
  argument; the callers store and load them. A path is the list of its characters before the zero byte.
\<close>

section \<open>Reading and writing files\<close>

text \<open>
  The loop of \<open>readi\<close>: \<open>n\<close> bytes are left, \<open>off\<close> is the current offset. Each round handles at least one
  byte, so \<open>n\<close> rounds suffice.
\<close>

definition chunk :: "nat \<Rightarrow> nat \<Rightarrow> nat" where
  "chunk off n = min n (BSIZE - off mod BSIZE)"

primrec readi_loop :: "nat \<Rightarrow> nat \<Rightarrow> nat \<Rightarrow> nat \<Rightarrow> u8 list kern" where
  "readi_loop 0 ip off n = kret []"
| "readi_loop (Suc f) ip off n =
     (if n = 0 then kret []
      else
        kbind (kget (\<lambda>s. i_dev (inode_at ip s))) (\<lambda>dev.
        kbind (bmap ip (of_nat (off div BSIZE))) (\<lambda>a.
        kbind (bread dev a) (\<lambda>bp.
        kbind (get_data bp (\<lambda>d. take (chunk off n) (drop (off mod BSIZE) d))) (\<lambda>bs.
        kseq (brelse bp) (
        kbind (readi_loop f ip (off + chunk off n) (n - chunk off n)) (\<lambda>rest.
        kret (bs @ rest))))))))"

definition dev_ok :: "kstate \<Rightarrow> inode \<Rightarrow> bool" where
  "dev_ok s x \<longleftrightarrow> 0 \<le> sint (i_major x) \<and> sint (i_major x) < int NDEV \<and> devsw s (nat (sint (i_major x))) \<noteq> None"

definition readi :: "nat \<Rightarrow> u32 \<Rightarrow> u32 \<Rightarrow> (int \<times> u8 list) kern" where
  "readi ip off n =
     kbind (kget (inode_at ip)) (\<lambda>x.
     if i_type x = T_DEV then
       kbind (kget (\<lambda>s. dev_ok s x)) (\<lambda>ok.
       if \<not> ok then kret (- 1, []) else consoleread ip (sint n))
     else if i_size x < off \<or> off + n < off then kret (- 1, [])
     else
       let n = (if i_size x < off + n then i_size x - off else n) in
       kbind (readi_loop (unat n) ip (unat off) (unat n)) (\<lambda>bs.
       kret (sint n, bs)))"

primrec writei_loop :: "nat \<Rightarrow> nat \<Rightarrow> nat \<Rightarrow> u8 list \<Rightarrow> unit kern" where
  "writei_loop 0 ip off src = kret ()"
| "writei_loop (Suc f) ip off src =
     (if src = [] then kret ()
      else
        let m = chunk off (length src) in
        kbind (kget (\<lambda>s. i_dev (inode_at ip s))) (\<lambda>dev.
        kbind (bmap ip (of_nat (off div BSIZE))) (\<lambda>a.
        kbind (bread dev a) (\<lambda>bp.
        kseq (set_data bp (\<lambda>d. patch d (off mod BSIZE) (take m src))) (
        kseq (log_write bp) (
        kseq (brelse bp)
        (writei_loop f ip (off + m) (drop m src))))))))"

definition writei :: "nat \<Rightarrow> u8 list \<Rightarrow> u32 \<Rightarrow> int kern" where
  "writei ip src off =
     (let n = of_nat (length src) :: u32 in
      kbind (kget (inode_at ip)) (\<lambda>x.
      if i_type x = T_DEV then
        kbind (kget (\<lambda>s. dev_ok s x)) (\<lambda>ok.
        if \<not> ok then kret (- 1) else consolewrite ip src)
      else if i_size x < off \<or> off + n < off then kret (- 1)
      else if of_nat (MAXFILE * BSIZE) < off + n then kret (- 1)
      else
        kseq (writei_loop (length src) ip (unat off) src) (
        kbind (kget (\<lambda>s. i_size (inode_at ip s))) (\<lambda>sz.
        kseq (kwhen (0 < n \<and> sz < off + n) (
                kseq (kmod (upd_inode ip (\<lambda>x. x\<lparr>i_size := off + n\<rparr>)))
                (iupdate ip)))
        (kret (sint n))))))"

section \<open>Directories\<close>

text \<open>The bytes of a name up to its zero byte, as the C string functions see it.\<close>

definition cname :: "u8 list \<Rightarrow> u8 list" where
  "cname s = takeWhile (\<lambda>c. c \<noteq> 0) s"

text \<open>\<open>namecmp\<close> compares at most \<open>DIRSIZ\<close> bytes and stops at a zero byte; here: whether it returns 0.\<close>

definition namecmp_eq :: "u8 list \<Rightarrow> u8 list \<Rightarrow> bool" where
  "namecmp_eq s t \<longleftrightarrow> take DIRSIZ (cname s) = take DIRSIZ (cname t)"

text \<open>\<open>strncpy(de.name, name, DIRSIZ)\<close>: the name, cut off or filled up with zeros.\<close>

definition dirent_name :: "u8 list \<Rightarrow> u8 list" where
  "dirent_name name = take DIRSIZ (cname name @ replicate DIRSIZ 0)"

fun dirlookup_loop :: "nat \<Rightarrow> u8 list \<Rightarrow> nat list \<Rightarrow> (nat \<times> u32) option kern" where
  "dirlookup_loop dp name [] = kret None"
| "dirlookup_loop dp name (off # offs) =
     kbind (readi dp (of_nat off) (of_nat DIRENT_SIZE)) (\<lambda>(n, de).
     if n \<noteq> int DIRENT_SIZE then panic ''dirlookup read''
     else if get16 de 0 \<noteq> 0 \<and> namecmp_eq name (drop 2 de) then
       kbind (kget (\<lambda>s. i_dev (inode_at dp s))) (\<lambda>dev.
       kbind (iget dev (ucast (get16 de 0))) (\<lambda>ip.
       kret (Some (ip, of_nat off))))
     else dirlookup_loop dp name offs)"

definition dirent_offs :: "u32 \<Rightarrow> nat list" where
  "dirent_offs sz = map ((*) DIRENT_SIZE) [0..<(unat sz + DIRENT_SIZE - 1) div DIRENT_SIZE]"

text \<open>The result is the inode found and the offset of its entry (\<open>*poff\<close>).\<close>

definition dirlookup :: "nat \<Rightarrow> u8 list \<Rightarrow> (nat \<times> u32) option kern" where
  "dirlookup dp name =
     kbind (kget (inode_at dp)) (\<lambda>x.
     if i_type x \<noteq> T_DIR then panic ''dirlookup not DIR''
     else dirlookup_loop dp name (dirent_offs (i_size x)))"

text \<open>The first entry that is not in use, or the end of the directory.\<close>

fun dirlink_off :: "nat \<Rightarrow> nat list \<Rightarrow> nat \<Rightarrow> nat kern" where
  "dirlink_off dp [] end_off = kret end_off"
| "dirlink_off dp (off # offs) end_off =
     kbind (readi dp (of_nat off) (of_nat DIRENT_SIZE)) (\<lambda>(n, de).
     if n \<noteq> int DIRENT_SIZE then panic ''dirlink read''
     else if get16 de 0 = 0 then kret off
     else dirlink_off dp offs end_off)"

definition dirlink :: "nat \<Rightarrow> u8 list \<Rightarrow> u32 \<Rightarrow> int kern" where
  "dirlink dp name inum =
     kbind (dirlookup dp name) (\<lambda>r.
     case r of
       Some (ip, _) \<Rightarrow> kseq (iput ip) (kret (- 1))
     | None \<Rightarrow>
         kbind (kget (\<lambda>s. i_size (inode_at dp s))) (\<lambda>sz.
         kbind (dirlink_off dp (dirent_offs sz) (DIRENT_SIZE * length (dirent_offs sz))) (\<lambda>off.
         kbind (writei dp (bytes16 (ucast inum) @ dirent_name name) (of_nat off)) (\<lambda>r.
         if r \<noteq> int DIRENT_SIZE then panic ''dirlink'' else kret 0))))"

section \<open>Paths\<close>

definition slash :: u8 where "slash = 0x2F"

definition skip_slashes :: "u8 list \<Rightarrow> u8 list" where
  "skip_slashes p = dropWhile (\<lambda>c. c = slash) p"

text \<open>
  \<open>skipelem\<close> on a path without zero bytes: the rest of the path and the new contents of the array \<open>name\<close>,
  or nothing if there is no element. An element of \<open>DIRSIZ\<close> or more characters fills the array and is not
  terminated; a shorter one is terminated, and the bytes behind it keep their old values.
\<close>

definition skipelem :: "u8 list \<Rightarrow> u8 list \<Rightarrow> (u8 list \<times> u8 list) option" where
  "skipelem pth name =
     (let pth = skip_slashes pth in
      if pth = [] then None
      else
        let s = takeWhile (\<lambda>c. c \<noteq> slash) pth; rest = dropWhile (\<lambda>c. c \<noteq> slash) pth; len = length s;
            name = (if DIRSIZ \<le> len then take DIRSIZ s @ drop DIRSIZ name
                    else (s @ drop len name)[len := 0])
        in Some (skip_slashes rest, name))"

lemma skip_slashes_length: "length (skip_slashes p) \<le> length p"
  by (simp add: skip_slashes_def length_dropWhile_le)

lemma skipelem_shorter:
  assumes "skipelem pth name = Some (rest, name')"
  shows "length rest < length pth"
proof -
  let ?p = "skip_slashes pth"
  have ne: "?p \<noteq> []" and r: "rest = skip_slashes (dropWhile (\<lambda>c. c \<noteq> slash) ?p)"
    using assms by (auto simp: skipelem_def Let_def split: if_splits)
  then obtain c q where c: "?p = c # q" by (cases ?p) auto
  then have "c \<noteq> slash" using hd_dropWhile [of "\<lambda>c. c = slash" pth] by (simp add: skip_slashes_def)
  then have "rest = skip_slashes (dropWhile (\<lambda>c. c \<noteq> slash) q)" using r c by simp
  then have "length rest \<le> length q" by (simp only:) (rule le_trans [OF skip_slashes_length length_dropWhile_le])
  also have "length q < length pth" using c skip_slashes_length [of pth] by simp
  finally show ?thesis .
qed

function namex_loop :: "bool \<Rightarrow> nat \<Rightarrow> u8 list \<Rightarrow> u8 list \<Rightarrow> (nat \<times> u8 list) option kern" where
  "namex_loop parent ip pth name =
     (case skipelem pth name of
        None \<Rightarrow>
          if parent then kseq (iput ip) (kret None) else kret (Some (ip, name))
      | Some (pth', name') \<Rightarrow>
          kseq (ilock (Some ip)) (
          kbind (kget (\<lambda>s. i_type (inode_at ip s))) (\<lambda>t.
          if t \<noteq> T_DIR then kseq (iunlockput ip) (kret None)
          else if parent \<and> pth' = [] then kseq (iunlock (Some ip)) (kret (Some (ip, name')))
          else
            kbind (dirlookup ip name') (\<lambda>r.
            case r of
              None \<Rightarrow> kseq (iunlockput ip) (kret None)
            | Some (nxt, _) \<Rightarrow> kseq (iunlockput ip) (namex_loop parent nxt pth' name')))))"
  by pat_completeness auto

termination namex_loop
  by (relation "measure (\<lambda>(parent, ip, pth, name). length pth)") (auto dest: skipelem_shorter)

declare namex_loop.simps [simp del]

text \<open>The result is the inode and the contents of \<open>name\<close>, which starts as the array \<open>name0\<close>.\<close>

definition namex :: "u8 list \<Rightarrow> bool \<Rightarrow> u8 list \<Rightarrow> (nat \<times> u8 list) option kern" where
  "namex pth parent name0 =
     kbind (if pth \<noteq> [] \<and> hd pth = slash then iget ROOTDEV ROOTINO
            else
              kbind myproc (\<lambda>po.
              kbind (null_check po) (\<lambda>p.
              kbind (kget (\<lambda>s. p_cwd (proc_at s p))) (\<lambda>cwd.
              kbind (null_check cwd) idup)))) (\<lambda>ip.
     namex_loop parent ip pth name0)"

definition namei :: "u8 list \<Rightarrow> nat option kern" where
  "namei pth = kbind (namex pth False (replicate DIRSIZ 0)) (\<lambda>r. kret (map_option fst r))"

definition nameiparent :: "u8 list \<Rightarrow> u8 list \<Rightarrow> (nat \<times> u8 list) option kern" where
  "nameiparent pth name0 = namex pth True name0"

end
