(* ===== verification/Paging.thy ===== *)
theory Paging
  imports Fs
begin

text \<open>
  Page tables and the page allocator: the macros of \<open>mmu.h\<close>, the accessors of page-table entries at the
  end of \<open>vm.c\<close>, the swap area of \<open>fs.c\<close> and all of \<open>kalloc.c\<close>. Physical memory is the function \<open>mem\<close>,
  indexed by kernel virtual addresses (\<open>P2V\<close> of the physical ones). A pointer to a page-table entry is the
  address of the entry, 0 for the null pointer; a \<open>struct page\<close> pointer is the index into \<open>pages\<close>.
\<close>

section \<open>Addresses\<close>

definition PTE_P :: u32 where "PTE_P = 0x001"
definition PTE_W :: u32 where "PTE_W = 0x002"
definition PTE_U :: u32 where "PTE_U = 0x004"
definition PTE_A :: u32 where "PTE_A = 0x20"
definition PTE_SWAP :: u32 where "PTE_SWAP = 0x100"

definition PDX :: "u32 \<Rightarrow> u32" where "PDX va = drop_bit 22 va AND 0x3FF"
definition PTX :: "u32 \<Rightarrow> u32" where "PTX va = drop_bit 12 va AND 0x3FF"
definition PGADDR :: "u32 \<Rightarrow> u32 \<Rightarrow> u32 \<Rightarrow> u32" where
  "PGADDR d t k = (push_bit 22 d OR push_bit 12 t) OR k"
definition PGROUNDUP :: "u32 \<Rightarrow> u32" where "PGROUNDUP sz = (sz + PGSIZE - 1) AND NOT (PGSIZE - 1)"
definition PGROUNDDOWN :: "u32 \<Rightarrow> u32" where "PGROUNDDOWN a = a AND NOT (PGSIZE - 1)"
definition PTE_ADDR :: "u32 \<Rightarrow> u32" where "PTE_ADDR pte = pte AND NOT 0xFFF"
definition PTE_FLAGS :: "u32 \<Rightarrow> u32" where "PTE_FLAGS pte = pte AND 0xFFF"

section \<open>Access to memory\<close>

definition load_word :: "u32 \<Rightarrow> u32 kern" where
  "load_word a = kget (\<lambda>s. load32 (mem s) a)"

definition store_word :: "u32 \<Rightarrow> u32 \<Rightarrow> unit kern" where
  "store_word a v = kmod (\<lambda>s. s\<lparr>mem := store32 a v (mem s)\<rparr>)"

text \<open>\<open>walkpgdir\<close> without allocation: the address of the entry for \<open>va\<close>, 0 if there is no page table.\<close>

definition walk :: "memory \<Rightarrow> u32 \<Rightarrow> u32 \<Rightarrow> u32" where
  "walk m pgdir va =
     (let pde = load32 m (pgdir + 4 * PDX va) in
      if pde AND PTE_P = 0 then 0 else P2V (PTE_ADDR pde) + 4 * PTX va)"

text \<open>
  What the processor does with an address: kernel addresses are mapped directly, the others through the
  page table of \<open>cr3\<close>. A missing entry is a page fault.
\<close>

definition mmu :: "memory \<Rightarrow> u32 \<Rightarrow> u32 \<Rightarrow> u32 option" where
  "mmu m cr3 va =
     (if KERNBASE \<le> va then Some va
      else
        let pte = walk m (P2V cr3) va in
        if pte = 0 then None
        else if load32 m pte AND PTE_P = 0 then None
        else Some (P2V (PTE_ADDR (load32 m pte)) + (va AND 0xFFF)))"

definition cr3_of :: "hwstate \<Rightarrow> u32" where
  "cr3_of h = (case this_cpu h of None \<Rightarrow> 0 | Some c \<Rightarrow> cpu_cr3 (cpus h ! c))"

definition mem_load :: "u32 \<Rightarrow> u8 kern" where
  "mem_load va =
     kbind (kget (\<lambda>s. map_option (mem s) (mmu (mem s) (cr3_of (hw s)) va))) (\<lambda>r.
     case r of None \<Rightarrow> kstop (Fault ''page fault'') | Some b \<Rightarrow> kret b)"

definition mem_store :: "u32 \<Rightarrow> u8 \<Rightarrow> unit kern" where
  "mem_store va b =
     kbind (kget (\<lambda>s. mmu (mem s) (cr3_of (hw s)) va)) (\<lambda>r.
     case r of
       None \<Rightarrow> kstop (Fault ''page fault'')
     | Some a \<Rightarrow> kmod (\<lambda>s. s\<lparr>mem := (mem s)(a := b)\<rparr>))"

primrec load_bytes :: "nat \<Rightarrow> u32 \<Rightarrow> u8 list kern" where
  "load_bytes 0 va = kret []"
| "load_bytes (Suc n) va =
     kbind (mem_load va) (\<lambda>b. kbind (load_bytes n (va + 1)) (\<lambda>bs. kret (b # bs)))"

primrec store_bytes :: "u8 list \<Rightarrow> u32 \<Rightarrow> unit kern" where
  "store_bytes [] va = kret ()"
| "store_bytes (b # bs) va = kseq (mem_store va b) (store_bytes bs (va + 1))"

section \<open>Page-table entries\<close>

text \<open>The functions \<open>pte_...\<close> change the entry of \<open>va\<close>, or return -1 if there is none.\<close>

definition pte_update :: "(u32 \<Rightarrow> u32) \<Rightarrow> u32 \<Rightarrow> u32 \<Rightarrow> int kern" where
  "pte_update f pgdir va =
     kbind (kget (\<lambda>s. walk (mem s) pgdir va)) (\<lambda>pte.
     if pte = 0 then kret (- 1)
     else kbind (load_word pte) (\<lambda>w. kseq (store_word pte (f w)) (kret 0)))"

definition pte_logical_and :: "u32 \<Rightarrow> u32 \<Rightarrow> u32 \<Rightarrow> u32 kern" where
  "pte_logical_and pgdir va flag =
     kbind (kget (\<lambda>s. walk (mem s) pgdir va)) (\<lambda>pte.
     if pte = 0 then kret 0 else kbind (load_word pte) (\<lambda>w. kret (w AND flag)))"

definition pte_pte_a_clear :: "u32 \<Rightarrow> u32 \<Rightarrow> int kern" where
  "pte_pte_a_clear = pte_update (\<lambda>w. w AND NOT PTE_A)"

definition pte_pte_p_set :: "u32 \<Rightarrow> u32 \<Rightarrow> int kern" where
  "pte_pte_p_set = pte_update (\<lambda>w. w AND PTE_P)"

definition pte_pte_p_clear :: "u32 \<Rightarrow> u32 \<Rightarrow> int kern" where
  "pte_pte_p_clear = pte_update (\<lambda>w. w AND NOT PTE_P)"

definition pte_pte_swap_set :: "u32 \<Rightarrow> u32 \<Rightarrow> int kern" where
  "pte_pte_swap_set = pte_update (\<lambda>w. w AND PTE_SWAP)"

definition pte_pte_swap_clear :: "u32 \<Rightarrow> u32 \<Rightarrow> int kern" where
  "pte_pte_swap_clear = pte_update (\<lambda>w. w AND NOT PTE_SWAP)"

definition pte_set_swapoffset :: "u32 \<Rightarrow> u32 \<Rightarrow> u32 \<Rightarrow> int kern" where
  "pte_set_swapoffset pgdir va off = pte_update (\<lambda>w. (w AND (push_bit 12 1 - 1)) OR push_bit 12 off) pgdir va"

section \<open>The swap area\<close>

definition BLKS_PER_PG :: nat where "BLKS_PER_PG = unat PGSIZE div BSIZE"

definition swap_block :: "u32 \<Rightarrow> nat \<Rightarrow> u32" where
  "swap_block blkno i = of_nat SWAPBASE + of_nat BLKS_PER_PG * blkno + of_nat i"

definition swapread :: "u32 \<Rightarrow> u32 \<Rightarrow> unit kern" where
  "swapread ptr blkno =
     (if sint blkno < 0 \<or> int (SWAPMAX div BLKS_PER_PG) \<le> sint blkno then panic ''swapread: blkno exceeded range''
      else
        kfor [0..<BLKS_PER_PG] (\<lambda>i.
          kseq (kmod (\<lambda>s. s\<lparr>nr_sectors_read := nr_sectors_read s + 1\<rparr>)) (
          kbind (bread 0 (swap_block blkno i)) (\<lambda>bp.
          kbind (get_data bp (\<lambda>d. d)) (\<lambda>d.
          kseq (store_bytes d (ptr + of_nat (i * BSIZE)))
          (brelse bp))))))"

definition swapwrite :: "u32 \<Rightarrow> u32 \<Rightarrow> unit kern" where
  "swapwrite ptr blkno =
     (if sint blkno < 0 \<or> int (SWAPMAX div BLKS_PER_PG) \<le> sint blkno then panic ''swapwrite: blkno exceeded range''
      else
        kfor [0..<BLKS_PER_PG] (\<lambda>i.
          kseq (kmod (\<lambda>s. s\<lparr>nr_sectors_write := nr_sectors_write s + 1\<rparr>)) (
          kbind (bread 0 (swap_block blkno i)) (\<lambda>bp.
          kbind (load_bytes BSIZE (ptr + of_nat (i * BSIZE))) (\<lambda>d.
          kseq (set_data bp (\<lambda>_. d)) (
          kseq (bwrite bp)
          (brelse bp)))))))"

text \<open>\<open>balloc\<close> takes a device number; \<open>T_FILE\<close> is the file type 2.\<close>

definition balloc_for_swap :: "u32 kern" where
  "balloc_for_swap = balloc (ucast T_FILE)"

section \<open>Words in memory\<close>

definition aligned4 :: "u32 \<Rightarrow> bool" where
  "aligned4 a \<longleftrightarrow> unat a mod 4 = 0"

lemma aligned4_add:
  assumes "aligned4 a" and "i < 4"
  shows "unat (a + of_nat i) = unat a + i"
proof (rule unat_add_of_nat)
  have "unat a < 4294967296" using unsigned_less [where w = a] by simp
  then have "unat a + i < 4294967296" using assms unfolding aligned4_def by presburger
  then show "unat a + i < 2 ^ 32" by simp
qed

lemma aligned4_disjoint:
  assumes "aligned4 a" and "aligned4 b" and "a \<noteq> b" and "i < 4" and "j < 4"
  shows "a + of_nat i \<noteq> b + of_nat j"
proof
  assume "a + of_nat i = b + of_nat j"
  then have "unat a + i = unat b + j"
    using aligned4_add [OF assms(1,4)] aligned4_add [OF assms(2,5)] by metis
  moreover have "unat a \<noteq> unat b" using assms(3) by (simp add: word_unat_eq_iff)
  ultimately show False using assms unfolding aligned4_def by presburger
qed

lemma load32_store32 [simp]: "load32 (store32 a v m) a = v"
  unfolding load32_def store32_def by simp

lemma load32_store32_other:
  assumes "aligned4 a" and "aligned4 b" and "a \<noteq> b"
  shows "load32 (store32 b v m) a = load32 m a"
proof -
  have d: "a + of_nat i \<noteq> b + of_nat j" if "i < 4" "j < 4" for i j using aligned4_disjoint [OF assms that] .
  show ?thesis
    using d [of 0 0] d [of 0 1] d [of 0 2] d [of 0 3] d [of 1 0] d [of 1 1] d [of 1 2] d [of 1 3]
      d [of 2 0] d [of 2 1] d [of 2 2] d [of 2 3] d [of 3 0] d [of 3 1] d [of 3 2] d [of 3 3]
    unfolding load32_def store32_def by simp
qed

section \<open>Rounding\<close>

lemma unat_take12: "unat (take_bit 12 a) = unat a mod 4096" for a :: u32
  by (simp add: take_bit_eq_mod unat_mod_distrib)

lemma and_not_mask12: "a AND NOT (mask 12) = a - take_bit 12 a" for a :: u32
proof -
  have "a - take_bit 12 a = a AND NOT (take_bit 12 a)"
    by (rule disjunctive_diff) (auto simp: bit_simps)
  also have "\<dots> = a AND NOT (mask 12)" by (rule bit_word_eqI) (auto simp: bit_simps)
  finally show ?thesis by simp
qed

lemma PGSIZE_mask: "PGSIZE - 1 = mask 12"
  by (simp add: PGSIZE_def mask_eq_exp_minus_1)

lemma unat_PGROUNDDOWN: "unat (PGROUNDDOWN a) = unat a - unat a mod 4096"
proof -
  have "take_bit 12 a \<le> a" by (simp add: word_le_nat_alt unat_take12)
  then show ?thesis unfolding PGROUNDDOWN_def PGSIZE_mask and_not_mask12 by (simp add: unat_sub unat_take12)
qed

lemma PGROUNDDOWN_mod: "unat (PGROUNDDOWN a) mod 4096 = 0"
  unfolding unat_PGROUNDDOWN by (simp add: minus_mod_eq_mult_div)

lemma unat_PGROUNDUP:
  assumes "unat a \<le> 2 ^ 32 - 4096"
  shows "unat (PGROUNDUP a) = (unat a + 4095) div 4096 * 4096"
proof -
  have "PGROUNDUP a = PGROUNDDOWN (a + of_nat 4095)" by (simp add: PGROUNDUP_def PGROUNDDOWN_def PGSIZE_def add.commute)
  moreover have "unat (a + of_nat 4095) = unat a + 4095" by (rule unat_add_of_nat) (use assms in simp)
  ultimately show ?thesis by (simp only: unat_PGROUNDDOWN minus_mod_eq_mult_div mult.commute)
qed

lemma PGROUNDUP_ge:
  assumes "unat a \<le> 2 ^ 32 - 4096"
  shows "a \<le> PGROUNDUP a"
proof -
  have "unat a + 4095 < ((unat a + 4095) div 4096 + 1) * 4096" by (rule dividend_less_div_times [of 4096, simplified mult.commute, THEN order.strict_trans2]) simp_all
  then show ?thesis unfolding word_le_nat_alt unat_PGROUNDUP [OF assms] by simp
qed

lemma PGROUNDUP_least:
  assumes a: "unat v \<le> 2 ^ 32 - 4096" and le: "unat v \<le> q" and q: "q mod 4096 = 0"
  shows "unat (PGROUNDUP v) \<le> q"
proof -
  obtain c where c: "q = 4096 * c" using mod_0_imp_dvd [OF q] by (rule dvdE)
  then have "(unat v + 4095) div 4096 < c + 1" using le by (subst div_less_iff_less_mult) auto
  then show ?thesis using c unat_PGROUNDUP [OF a] by simp
qed

end
