(* ===== verification/Kalloc.thy ===== *)
theory Kalloc
  imports Paging
begin

text \<open>
  \<open>kalloc.c\<close>: the free list of pages, threaded through the first word of each free page, and the ring of
  resident user pages from which \<open>reclaim\<close> takes a victim when the list is empty.
\<close>

definition NPAGES :: nat where "NPAGES = unat (PHYSTOP div PGSIZE)"

definition upd_kmem :: "(kmemstate \<Rightarrow> kmemstate) \<Rightarrow> kstate \<Rightarrow> kstate" where
  "upd_kmem f s = s\<lparr>kmem := f (kmem s)\<rparr>"

section \<open>Freeing pages\<close>

definition kfree :: "u32 \<Rightarrow> unit kern" where
  "kfree v =
     kbind (kget (\<lambda>s. km_end (kmem s))) (\<lambda>kend.
     if v mod PGSIZE \<noteq> 0 \<or> v < kend \<or> PHYSTOP \<le> V2P v then panic ''kfree''
     else
       kseq (kmod (\<lambda>s. s\<lparr>mem := memset v 1 PGSIZE (mem s)\<rparr>)) (
       kbind (kget (\<lambda>s. km_use_lock (kmem s))) (\<lambda>use_lock.
       kseq (kwhen use_lock (acquire LKmem)) (
       kbind (kget (\<lambda>s. km_freelist (kmem s))) (\<lambda>fl.
       kseq (store_word v fl) (
       kseq (kmod (upd_kmem (\<lambda>k. k\<lparr>km_freelist := v\<rparr>)))
       (kwhen use_lock (release LKmem))))))))"

text \<open>
  A page above \<open>PHYSTOP\<close> makes \<open>kfree\<close> panic, so the pointer never wraps around and the loop makes at most
  \<open>vend / PGSIZE\<close> rounds.
\<close>

primrec freerange_loop :: "nat \<Rightarrow> u32 \<Rightarrow> u32 \<Rightarrow> unit kern" where
  "freerange_loop 0 p vend = kret ()"
| "freerange_loop (Suc f) p vend =
     (if p + PGSIZE \<le> vend then kseq (kfree p) (freerange_loop f (p + PGSIZE) vend) else kret ())"

definition freerange :: "u32 \<Rightarrow> u32 \<Rightarrow> unit kern" where
  "freerange vstart vend = freerange_loop (Suc (unat vend div unat PGSIZE)) (PGROUNDUP vstart) vend"

definition kinit1 :: "u32 \<Rightarrow> u32 \<Rightarrow> unit kern" where
  "kinit1 vstart vend =
     kseq (initlock LKmem ''kmem'') (
     kseq (kmod (upd_kmem (\<lambda>k. k\<lparr>km_use_lock := False\<rparr>)))
     (freerange vstart vend))"

definition kinit2 :: "u32 \<Rightarrow> u32 \<Rightarrow> unit kern" where
  "kinit2 vstart vend =
     kseq (freerange vstart vend)
     (kmod (upd_kmem (\<lambda>k. k\<lparr>km_use_lock := True\<rparr>)))"

section \<open>The ring of resident pages\<close>

definition page_at :: "kstate \<Rightarrow> nat \<Rightarrow> page" where
  "page_at s i = km_pages (kmem s) i"

definition upd_page :: "nat \<Rightarrow> (page \<Rightarrow> page) \<Rightarrow> kstate \<Rightarrow> kstate" where
  "upd_page i f = upd_kmem (\<lambda>k. k\<lparr>km_pages := (km_pages k)(i := f (km_pages k i))\<rparr>)"

text \<open>The six assignments by which \<open>reclaim\<close> and \<open>lru_delete\<close> take a node out of the ring.\<close>

definition page_unlink :: "nat \<Rightarrow> unit kern" where
  "page_unlink p =
     kbind (kget (\<lambda>s. pg_next (page_at s p))) (\<lambda>n.
     kbind (kget (\<lambda>s. pg_prev (page_at s p))) (\<lambda>q.
     kbind (null_check n) (\<lambda>n.
     kseq (kmod (upd_page n (\<lambda>g. g\<lparr>pg_prev := q\<rparr>))) (
     kbind (null_check q) (\<lambda>q.
     kseq (kmod (upd_page q (\<lambda>g. g\<lparr>pg_next := Some n\<rparr>))) (
     kseq (kmod (upd_page p (\<lambda>g. g\<lparr>pg_next := None, pg_prev := None\<rparr>)))
     (kmod (upd_kmem (\<lambda>k. k\<lparr>km_num_lru := km_num_lru k - 1\<rparr>)))))))))"

definition set_swapbitmap :: "u32 \<Rightarrow> u32 \<Rightarrow> unit kern" where
  "set_swapbitmap blkno v =
     (if blkno < PGSIZE
      then kmod (upd_kmem (\<lambda>k. k\<lparr>km_swapbitmap := (km_swapbitmap k)(unat blkno := v)\<rparr>))
      else kstop (Fault ''swapbitmap index''))"

text \<open>The eviction of the page \<open>p\<close>, the first branch of the loop of \<open>reclaim\<close>.\<close>

definition evict :: "nat \<Rightarrow> unit kern" where
  "evict p =
     kbind (kget (\<lambda>s. page_at s p)) (\<lambda>g.
     kseq (page_unlink p) (
     kbind balloc_for_swap (\<lambda>blkno.
     kseq (swapwrite (pg_vaddr g) blkno) (
     kseq (set_swapbitmap blkno (pg_vaddr g)) (
     kseq (pte_pte_swap_set (pg_pgdir g) (pg_vaddr g)) (
     kseq (pte_pte_p_clear (pg_pgdir g) (pg_vaddr g)) (
     kseq (pte_set_swapoffset (pg_pgdir g) (pg_vaddr g) blkno)
     (kmod (upd_kmem (\<lambda>k. k\<lparr>km_freelist := pg_vaddr g\<rparr>))))))))))"

text \<open>
  A page seen once has its accessed bit cleared, so the second visit of any page ends the loop: one round
  more than there are pages is enough.
\<close>

primrec reclaim_loop :: "nat \<Rightarrow> nat \<Rightarrow> nat option \<Rightarrow> bool kern" where
  "reclaim_loop 0 p tail = kstop Spin"
| "reclaim_loop (Suc f) p tail =
     kbind (kget (\<lambda>s. page_at s p)) (\<lambda>g.
     kbind (pte_logical_and (pg_pgdir g) (pg_vaddr g) PTE_A) (\<lambda>a.
     if a = 0 then kseq (evict p) (kret True)
     else
       kseq (pte_pte_a_clear (pg_pgdir g) (pg_vaddr g)) (
       kbind (kget (\<lambda>s. km_lru_head (kmem s))) (\<lambda>hd.
       kbind (null_check hd) (\<lambda>hd.
       kseq (kmod (upd_kmem (\<lambda>k. k\<lparr>km_lru_head := pg_next (km_pages k hd)\<rparr>))) (
       if Some p = tail then kret False
       else
         kbind (kget (\<lambda>s. pg_next (page_at s p))) (\<lambda>n.
         kbind (null_check n) (\<lambda>n. reclaim_loop f n tail))))))))"

definition reclaim :: "bool kern" where
  "reclaim =
     kbind (kget (\<lambda>s. km_lru_head (kmem s))) (\<lambda>hd.
     case hd of
       None \<Rightarrow> kret False
     | Some p \<Rightarrow> kbind (kget (\<lambda>s. pg_prev (page_at s p))) (\<lambda>tail. reclaim_loop (Suc NPAGES) p tail))"

definition lru_insert :: "u32 \<Rightarrow> u32 \<Rightarrow> u32 \<Rightarrow> unit kern" where
  "lru_insert pgdir va pte_u_mask =
     (if pte_u_mask = 0 then kret ()
      else
        kseq (kmod (upd_kmem (\<lambda>k. k\<lparr>km_num_lru := km_num_lru k + 1\<rparr>))) (
        kbind (kget (\<lambda>s. km_lru_head (kmem s))) (\<lambda>hd.
        case hd of
          None \<Rightarrow>
            kseq (kmod (upd_kmem (\<lambda>k. k\<lparr>km_lru_head := Some 0\<rparr>)))
            (kmod (upd_page 0 (\<lambda>_. \<lparr>pg_next = Some 0, pg_prev = Some 0, pg_pgdir = pgdir, pg_vaddr = va\<rparr>)))
        | Some h \<Rightarrow>
            kbind (kget (\<lambda>s. pg_prev (page_at s h))) (\<lambda>q.
            kbind (kget (\<lambda>s. find_index (\<lambda>i. pg_next (page_at s i) \<noteq> None) [0..<NPAGES])) (\<lambda>r.
            case r of
              None \<Rightarrow> panic ''full page array''
            | Some i \<Rightarrow>
                kseq (kmod (upd_page i (\<lambda>g. g\<lparr>pg_next := Some h, pg_prev := q\<rparr>))) (
                kbind (null_check q) (\<lambda>q.
                kseq (kmod (upd_page q (\<lambda>g. g\<lparr>pg_next := Some i\<rparr>)))
                (kmod (upd_page h (\<lambda>g. g\<lparr>pg_prev := Some i\<rparr>))))))))))"

text \<open>
  The search of \<open>lru_delete\<close> changes nothing and does not look for the end of the ring: a page that is not
  found in \<open>NPAGES\<close> steps is never found.
\<close>

primrec lru_find :: "nat \<Rightarrow> nat \<Rightarrow> u32 \<Rightarrow> nat kern" where
  "lru_find 0 p va = kstop Spin"
| "lru_find (Suc f) p va =
     kbind (kget (\<lambda>s. page_at s p)) (\<lambda>g.
     if pg_vaddr g = va \<and> pg_next g \<noteq> None then kret p
     else kbind (null_check (pg_next g)) (\<lambda>n. lru_find f n va))"

definition lru_delete :: "u32 \<Rightarrow> u32 \<Rightarrow> unit kern" where
  "lru_delete pgdir va =
     kbind (kget (\<lambda>s. km_lru_head (kmem s))) (\<lambda>hd.
     case hd of
       None \<Rightarrow> kret ()
     | Some h \<Rightarrow>
         kbind (lru_find (Suc NPAGES) h va) (\<lambda>p.
         kseq (page_unlink p)
         (kmod (upd_kmem (\<lambda>k. k\<lparr>km_swapbitmap :=
            (\<lambda>i. if i < unat PGSIZE \<and> km_swapbitmap k i = va then 0 else km_swapbitmap k i)\<rparr>)))))"

section \<open>Allocating pages\<close>

text \<open>The word that a pointer designates, through the page table of the processor.\<close>

definition deref :: "u32 \<Rightarrow> u32 kern" where
  "deref va = kbind (load_bytes 4 va) (\<lambda>bs. kret (get32 bs 0))"

text \<open>Every successful \<open>reclaim\<close> takes one page out of the ring, so \<open>NPAGES\<close> rounds are enough.\<close>

primrec kalloc_loop :: "nat \<Rightarrow> u32 kern" where
  "kalloc_loop 0 = kstop Spin"
| "kalloc_loop (Suc f) =
     kbind (kget (\<lambda>s. km_freelist (kmem s))) (\<lambda>r.
     if r \<noteq> 0 then kret r
     else kbind reclaim (\<lambda>ok. if ok then kalloc_loop f else kret 0))"

definition kalloc :: "u32 kern" where
  "kalloc =
     kbind (kget (\<lambda>s. km_use_lock (kmem s))) (\<lambda>use_lock.
     kseq (kwhen use_lock (acquire LKmem)) (
     kbind (kalloc_loop (Suc (Suc NPAGES))) (\<lambda>r.
     kseq (if r \<noteq> 0 then kbind (deref r) (\<lambda>n. kmod (upd_kmem (\<lambda>k. k\<lparr>km_freelist := n\<rparr>)))
           else cprintf (ascii ''Out of memory'' @ [10]) []) (
     kseq (kwhen use_lock (release LKmem))
     (kret r)))))"

text \<open>A list of more than \<open>2 ^ 32\<close> nodes is a cycle, on which \<open>kmem_len\<close> does not return.\<close>

primrec free_count :: "nat \<Rightarrow> u32 \<Rightarrow> nat kern" where
  "free_count 0 r = kstop Spin"
| "free_count (Suc f) r =
     (if r = 0 then kret 0 else kbind (deref r) (\<lambda>n. kbind (free_count f n) (\<lambda>k. kret (Suc k))))"

definition kmem_len :: "nat kern" where
  "kmem_len =
     kbind (kget (\<lambda>s. km_use_lock (kmem s))) (\<lambda>use_lock.
     kseq (kwhen use_lock (acquire LKmem)) (
     kbind (kget (\<lambda>s. km_freelist (kmem s))) (\<lambda>fl.
     kbind (free_count (2 ^ 32) fl) (\<lambda>i.
     kseq (kwhen use_lock (release LKmem))
     (kret i)))))"

section \<open>Bringing pages back\<close>

definition swapin_helper :: "u32 \<Rightarrow> u32 \<Rightarrow> u32 \<Rightarrow> unit kern" where
  "swapin_helper pgdir va np =
     kbind (kget (\<lambda>s. walk (mem s) pgdir va)) (\<lambda>pte.
     if pte = 0 then kstop (Fault ''null pointer'')
     else
       kbind (load_word pte) (\<lambda>w.
       store_word pte (((w AND (push_bit 12 1 - 1)) OR PTE_P) AND push_bit 12 (V2P np))))"

definition swapin :: "u32 \<Rightarrow> u32 \<Rightarrow> int kern" where
  "swapin pgdir va =
     kbind kalloc (\<lambda>np.
     if np = 0 then kret (- 1)
     else
       let blkno = drop_bit 12 va in
       kseq (set_swapbitmap blkno 0) (
       kseq (swapread np blkno) (
       kseq (swapin_helper pgdir va np)
       (kret 0))))"

definition pgintr :: "u32 \<Rightarrow> unit kern" where
  "pgintr rcr =
     kbind myproc (\<lambda>po.
     kbind (null_check po) (\<lambda>p.
     kbind (kget (\<lambda>s. p_pgdir (proc_at s p))) (\<lambda>pgdir.
     kbind (kget (\<lambda>s. walk (mem s) pgdir rcr)) (\<lambda>pte.
     if pte = 0 then kstop (Fault ''null pointer'')
     else
       kbind (load_word pte) (\<lambda>w.
       if w AND PTE_SWAP \<noteq> 0 then
         kbind (swapin pgdir rcr) (\<lambda>result.
         kwhen (result = - 1) (kmod (upd_proc p (\<lambda>q. q\<lparr>p_killed := True\<rparr>))))
       else kmod (upd_proc p (\<lambda>q. q\<lparr>p_killed := True\<rparr>)))))))"

section \<open>What becomes of the ring\<close>

text \<open>
  The test in the search of \<open>lru_insert\<close> is inverted: it takes the first node that is in use. So the ring
  never grows beyond the node 0, which keeps the address it was first given.
\<close>

definition lru_one :: "u32 \<Rightarrow> kmemstate \<Rightarrow> bool" where
  "lru_one va k \<longleftrightarrow> km_lru_head k = Some 0 \<and> pg_next (km_pages k 0) = Some 0 \<and> pg_prev (km_pages k 0) = Some 0 \<and>
     pg_vaddr (km_pages k 0) = va"

lemma upd_page_kmem: "kmem (upd_page i f s) = (kmem s)\<lparr>km_pages := (km_pages (kmem s))(i := f (km_pages (kmem s) i))\<rparr>"
  by (simp add: upd_page_def upd_kmem_def)

lemma upd_kmem_kmem: "kmem (upd_kmem f s) = f (kmem s)"
  by (simp add: upd_kmem_def)

lemma NPAGES_pages: "[0..<NPAGES] = 0 # [1..<NPAGES]"
proof -
  have "0 < NPAGES" by (simp add: NPAGES_def PHYSTOP_def PGSIZE_def)
  then show ?thesis by (simp add: upt_conv_Cons)
qed

lemma lru_insert_empty:
  assumes "km_lru_head (kmem s) = None"
  shows "\<exists>t. lru_insert d va PTE_U s = Inr ((), t) \<and> lru_one va (kmem t) \<and> km_num_lru (kmem t) = km_num_lru (kmem s) + 1"
  using assms by (simp add: lru_insert_def PTE_U_def upd_kmem_kmem upd_page_kmem lru_one_def)

lemma lru_insert_one:
  assumes "lru_one v (kmem s)"
  shows "\<exists>t. lru_insert d va PTE_U s = Inr ((), t) \<and> lru_one v (kmem t) \<and> km_num_lru (kmem t) = km_num_lru (kmem s) + 1"
  using assms
  by (simp add: lru_insert_def PTE_U_def upd_kmem_kmem upd_page_kmem lru_one_def page_at_def NPAGES_pages null_check_def)

lemma lru_inserts_one:
  "lru_one v (kmem s) \<Longrightarrow> \<exists>t. kfor xs (\<lambda>(d, va). lru_insert d va PTE_U) s = Inr ((), t) \<and> lru_one v (kmem t) \<and>
     km_num_lru (kmem t) = km_num_lru (kmem s) + int (length xs)"
proof (induction xs arbitrary: s)
  case (Cons x xs)
  obtain d va where x: "x = (d, va)" by (cases x)
  from lru_insert_one [OF Cons.prems, of d va] obtain t where t: "lru_insert d va PTE_U s = Inr ((), t)"
    "lru_one v (kmem t)" "km_num_lru (kmem t) = km_num_lru (kmem s) + 1" by blast
  from Cons.IH [OF t(2)] t x show ?case by auto
qed simp

lemma lru_find_stuck: "lru_one v (kmem s) \<Longrightarrow> va \<noteq> v \<Longrightarrow> lru_find n 0 va s = Inl Spin"
  by (induction n) (simp_all add: lru_one_def page_at_def null_check_def)

text \<open>
  C14. The list of resident pages: from the empty list, any number of insertions of user pages leaves a ring with the
  single node of the page inserted first, and \<open>lru_delete\<close> of any other page does not return, however long
  its loop runs.
\<close>

theorem lru_delete_stuck:
  assumes "km_lru_head (kmem s) = None" and "va \<noteq> va0"
  shows "\<exists>t. kfor ((d0, va0) # xs) (\<lambda>(d, va). lru_insert d va PTE_U) s = Inr ((), t) \<and>
    km_num_lru (kmem t) = km_num_lru (kmem s) + int (length xs) + 1 \<and>
    (\<forall>n. lru_find n 0 va t = Inl Spin) \<and> lru_delete d va t = Inl Spin"
proof -
  obtain t where t: "lru_insert d0 va0 PTE_U s = Inr ((), t)" "lru_one va0 (kmem t)" "km_num_lru (kmem t) = km_num_lru (kmem s) + 1"
    using lru_insert_empty [OF assms(1)] by blast
  obtain u where u: "kfor xs (\<lambda>(d, va). lru_insert d va PTE_U) t = Inr ((), u)" "lru_one va0 (kmem u)"
    "km_num_lru (kmem u) = km_num_lru (kmem t) + int (length xs)"
    using lru_inserts_one [OF t(2)] by blast
  have "lru_delete d va u = Inl Spin"
    using u(2) lru_find_stuck [OF u(2) assms(2), of "Suc NPAGES"] by (simp add: lru_delete_def lru_one_def)
  with t u lru_find_stuck [OF u(2) assms(2)] show ?thesis by auto
qed

theorem lru_delete_stuck_witness:
  "\<exists>t. kfor [(0x80401000, 0), (0x80401000, 0x1000)] (\<lambda>(d, va). lru_insert d va PTE_U) zero_kernel = Inr ((), t) \<and>
     lru_delete 0x80401000 0x80402000 t = Inl Spin"
proof -
  have "km_lru_head (kmem zero_kernel) = None" by (simp add: zero_kernel_def)
  moreover have "(0x80402000 :: u32) \<noteq> 0" by simp
  ultimately show ?thesis
    using lru_delete_stuck [of zero_kernel "0x80402000" 0 "0x80401000" "[(0x80401000, 0x1000)]" "0x80401000"] by blast
qed

section \<open>Entries of swapped pages\<close>

lemma low12: "push_bit 12 1 - 1 = (mask 12 :: u32)"
  by (simp add: mask_eq_exp_minus_1)

lemma high_low_disjoint: "((w AND (push_bit 12 1 - 1)) OR PTE_P) AND push_bit 12 x = 0" for w x :: u32
  unfolding low12 PTE_P_def by (rule bit_word_eqI) (auto simp: bit_simps)

text \<open>\<open>pte\<close> is the address of the entry for \<open>va\<close>, in a page table other than the directory itself.\<close>

definition pte_ref :: "memory \<Rightarrow> u32 \<Rightarrow> u32 \<Rightarrow> u32 \<Rightarrow> bool" where
  "pte_ref m pgdir va pte \<longleftrightarrow> walk m pgdir va = pte \<and> pte \<noteq> 0 \<and> aligned4 pte \<and> aligned4 (pgdir + 4 * PDX va) \<and>
     pte \<noteq> pgdir + 4 * PDX va"

lemma pte_ref_store: "pte_ref m pgdir va pte \<Longrightarrow> pte_ref (store32 pte v m) pgdir va pte"
proof -
  assume r: "pte_ref m pgdir va pte"
  then have "load32 (store32 pte v m) (pgdir + 4 * PDX va) = load32 m (pgdir + 4 * PDX va)"
    by (intro load32_store32_other) (auto simp: pte_ref_def)
  with r show ?thesis by (simp add: pte_ref_def walk_def)
qed

lemma pte_update_run:
  assumes "pte_ref (mem s) pgdir va pte"
  shows "pte_update f pgdir va s = Inr (0, s\<lparr>mem := store32 pte (f (load32 (mem s) pte)) (mem s)\<rparr>)"
  using assms by (simp add: pte_update_def pte_ref_def load_word_def store_word_def)

lemma evicted_entry:
  assumes "w AND PTE_SWAP = 0"
  shows "((((w AND PTE_SWAP) AND NOT PTE_P) AND (push_bit 12 1 - 1)) OR push_bit 12 blkno) = push_bit 12 (blkno :: u32)"
  using assms by simp

lemma offset_not_swap: "push_bit 12 blkno AND PTE_SWAP = (0 :: u32)"
proof -
  have sw: "PTE_SWAP = push_bit 8 1" by (simp add: PTE_SWAP_def)
  show ?thesis unfolding sw by (rule bit_word_eqI) (auto simp: bit_simps simp del: push_bit_of_1 push_bit_numeral)
qed

lemma upd_proc_owns [krule]: "krun (owns H th) s (kmod (upd_proc p f)) () (owns H th) (upd_proc p f s)"
  by (rule kmod_self_owns) (simp add: upd_proc_def)

lemma pgintr_no_swap:
  assumes "p < length (procs (pt s))" and "pte_ref (mem s) (p_pgdir (proc_at s p)) va pte"
    and "load32 (mem s) pte AND PTE_SWAP = 0"
  shows "krun (owns [] (Some p, b)) s (pgintr va) () (owns [] (Some p, b)) (upd_proc p (\<lambda>q. q\<lparr>p_killed := True\<rparr>) s)"
proof -
  let ?th = "(Some p, b)" and ?d = "p_pgdir (proc_at s p)"
  have "walk (mem s) ?d va = pte" "pte \<noteq> 0" using assms(2) by (simp_all add: pte_ref_def)
  note get = get_owns [where H = "[]" and th = ?th]
  have "krun (owns [] ?th) s (kbind (load_word pte) (\<lambda>w.
       if w AND PTE_SWAP \<noteq> 0 then
         kbind (swapin ?d va) (\<lambda>result. kwhen (result = - 1) (kmod (upd_proc p (\<lambda>q. q\<lparr>p_killed := True\<rparr>))))
       else kmod (upd_proc p (\<lambda>q. q\<lparr>p_killed := True\<rparr>)))) () (owns [] ?th) (upd_proc p (\<lambda>q. q\<lparr>p_killed := True\<rparr>) s)"
    unfolding load_word_def
    by (rule get [where v = "load32 (mem s) pte"]) (use assms(3) upd_proc_owns in auto)
  with \<open>pte \<noteq> 0\<close> show ?thesis
    unfolding pgintr_def
    by (intro kexec_kbind [OF myproc_owns], simp only: fst_conv)
      (intro kexec_kbind [OF null_check_owns] get [where v = ?d] get [where v = pte],
        simp_all add: \<open>walk (mem s) ?d va = pte\<close>)
qed

text \<open>
  C15. A page written to the swap area cannot come back: \<open>reclaim\<close> rewrites its page-table entry by
  \<open>pte_pte_swap_set\<close>, \<open>pte_pte_p_clear\<close> and \<open>pte_set_swapoffset\<close>, after which the entry holds the block number
  but not the flag \<open>PTE_SWAP\<close>, and the next access to the page kills the process in \<open>pgintr\<close>.
\<close>

theorem evicted_page_kills:
  assumes "crit (hw s) [] (Some p, b)" and "p < length (procs (pt s))" and "p_pgdir (proc_at s p) = pgdir"
    and "pte_ref (mem s) pgdir va pte" and "load32 (mem s) pte AND PTE_SWAP = 0"
  shows "\<exists>t. kseq (pte_pte_swap_set pgdir va) (kseq (pte_pte_p_clear pgdir va) (
      kseq (pte_set_swapoffset pgdir va blkno) (pgintr va))) s = Inr ((), t) \<and>
    load32 (mem t) pte = push_bit 12 blkno \<and> p_killed (proc_at t p)"
proof -
  define s1 where "s1 = s\<lparr>mem := store32 pte (load32 (mem s) pte AND PTE_SWAP) (mem s)\<rparr>"
  define s2 where "s2 = s1\<lparr>mem := store32 pte (load32 (mem s1) pte AND NOT PTE_P) (mem s1)\<rparr>"
  define s3 where "s3 = s2\<lparr>mem := store32 pte ((load32 (mem s2) pte AND (push_bit 12 1 - 1)) OR push_bit 12 blkno) (mem s2)\<rparr>"
  have r1: "pte_ref (mem s1) pgdir va pte" and r2: "pte_ref (mem s2) pgdir va pte" and r3: "pte_ref (mem s3) pgdir va pte"
    using assms(4) by (simp_all add: s1_def s2_def s3_def pte_ref_store)
  have w: "load32 (mem s3) pte = push_bit 12 blkno"
    using assms(5) by (simp add: s3_def s2_def s1_def)
  have same: "pt s3 = pt s" "hw s3 = hw s" by (simp_all add: s3_def s2_def s1_def)
  obtain t where t: "pgintr va s3 = Inr ((), t)" "owns [] (Some p, b) (upd_proc p (\<lambda>q. q\<lparr>p_killed := True\<rparr>) s3) t"
    using krunE [OF pgintr_no_swap [of p s3 va pte b] owns_self [of s3]] assms(1,2,3) r3 w same offset_not_swap by metis
  have "load32 (mem t) pte = push_bit 12 blkno" "p_killed (proc_at t p)"
    using t(2) w assms(2) same by (auto simp: owns_def upd_proc_def)
  moreover have "pte_pte_swap_set pgdir va s = Inr (0, s1)" and "pte_pte_p_clear pgdir va s1 = Inr (0, s2)"
    and "pte_set_swapoffset pgdir va blkno s2 = Inr (0, s3)"
    unfolding pte_pte_swap_set_def pte_pte_p_clear_def pte_set_swapoffset_def s1_def s2_def s3_def
    using pte_update_run [OF assms(4)] pte_update_run [OF r1] pte_update_run [OF r2] by (simp_all only: s1_def s2_def)
  ultimately show ?thesis using t(1) by auto
qed

text \<open>A directory at \<open>0x80401000\<close> and a page table at \<open>0x80402000\<close> that map the address 0.\<close>

definition paged_memory :: memory where
  "paged_memory = store32 0x80402000 0x00403007 (store32 0x80401000 0x00402007 (\<lambda>_. 0))"

lemma paged_memory_ref: "pte_ref paged_memory 0x80401000 0 0x80402000" "load32 paged_memory 0x80402000 = 0x00403007"
proof -
  have "load32 paged_memory 0x80401000 = 0x00402007"
    unfolding paged_memory_def by (subst load32_store32_other) (simp_all add: aligned4_def)
  then show "pte_ref paged_memory 0x80401000 0 0x80402000"
    by (simp add: pte_ref_def walk_def PDX_def PTX_def PTE_P_def PTE_ADDR_def P2V_def KERNBASE_def aligned4_def)
  show "load32 paged_memory 0x80402000 = 0x00403007" by (simp add: paged_memory_def)
qed

theorem evicted_page_kills_witness:
  "\<exists>t. kseq (pte_pte_swap_set 0x80401000 0) (kseq (pte_pte_p_clear 0x80401000 0) (
      kseq (pte_set_swapoffset 0x80401000 0 7) (pgintr 0))) (zero_kernel\<lparr>mem := paged_memory\<rparr>) = Inr ((), t) \<and>
     p_killed (proc_at t 0)"
proof -
  let ?s = "zero_kernel\<lparr>mem := paged_memory\<rparr>"
  have "0 < length (procs (pt ?s))" "p_pgdir (proc_at ?s 0) = 0x80401000"
    by (simp_all add: zero_kernel_def first_proc_def)
  moreover have "load32 (mem ?s) 0x80402000 AND PTE_SWAP = 0" using paged_memory_ref(2) by (simp add: PTE_SWAP_def)
  ultimately show ?thesis
    using evicted_page_kills [of ?s 0 True "0x80401000" 0 "0x80402000" 7] zero_kernel_crit paged_memory_ref(1) by auto
qed

text \<open>
  C16. Bringing a page back does not map it: whatever the entry was and whatever page is passed, \<open>swapin_helper\<close>
  stores 0 in the page-table entry, so the address still has no translation.
\<close>

theorem swapin_helper_unmaps:
  assumes "pte_ref (mem s) (P2V cr3) va pte" and "va < KERNBASE"
  shows "\<exists>t. swapin_helper (P2V cr3) va np s = Inr ((), t) \<and> load32 (mem t) pte = 0 \<and> mmu (mem t) cr3 va = None"
proof -
  let ?t = "s\<lparr>mem := store32 pte 0 (mem s)\<rparr>"
  have "swapin_helper (P2V cr3) va np s = Inr ((), ?t)"
    using assms(1) unfolding swapin_helper_def high_low_disjoint by (simp add: pte_ref_def load_word_def store_word_def)
  moreover have "walk (mem ?t) (P2V cr3) va = pte" using pte_ref_store [OF assms(1), of 0] by (simp add: pte_ref_def)
  ultimately show ?thesis using assms by (auto simp: mmu_def not_le)
qed

theorem swapin_helper_unmaps_witness:
  "\<exists>t. swapin_helper 0x80401000 0 0x80405000 (zero_kernel\<lparr>mem := paged_memory\<rparr>) = Inr ((), t) \<and>
     mmu (mem t) 0x401000 0 = None"
  using swapin_helper_unmaps [of "zero_kernel\<lparr>mem := paged_memory\<rparr>" "0x401000" 0 "0x80402000" "0x80405000"] paged_memory_ref(1)
  by (simp add: P2V_def KERNBASE_def) blast

section \<open>The free list\<close>

text \<open>
  The free list as a list of pages: each page holds the address of the next in its first word. The kernel
  is linked above \<open>KERNBASE\<close>, so pages that \<open>kfree\<close> accepts are kernel addresses.
\<close>

definition free_page :: "u32 \<Rightarrow> u32 \<Rightarrow> bool" where
  "free_page kend v \<longleftrightarrow> v mod PGSIZE = 0 \<and> kend \<le> v \<and> V2P v < PHYSTOP"

fun flist :: "memory \<Rightarrow> u32 \<Rightarrow> u32 list \<Rightarrow> bool" where
  "flist m r [] \<longleftrightarrow> r = 0"
| "flist m r (p # ps) \<longleftrightarrow> r = p \<and> flist m (load32 m p) ps"

definition free_inv :: "kstate \<Rightarrow> u32 list \<Rightarrow> bool" where
  "free_inv s ps \<longleftrightarrow> flist (mem s) (km_freelist (kmem s)) ps \<and> distinct ps \<and>
     KERNBASE \<le> km_end (kmem s) \<and> (\<forall>p \<in> set ps. free_page (km_end (kmem s)) p)"

lemma free_page_props:
  assumes "free_page kend v" and "KERNBASE \<le> kend"
  shows "KERNBASE \<le> v" "v \<noteq> 0" "unat v mod 4096 = 0"
proof -
  show "KERNBASE \<le> v" using assms by (auto simp: free_page_def)
  then show "v \<noteq> 0" by (auto simp: KERNBASE_def)
  have "unat (v mod PGSIZE) = 0" using assms(1) by (simp add: free_page_def)
  then show "unat v mod 4096 = 0" by (simp add: unat_mod_distrib PGSIZE_def)
qed

lemma page_offset:
  fixes v :: u32
  assumes "unat v mod 4096 = 0" and "i < 4096"
  shows "unat (v + of_nat i) = unat v + i"
proof (rule unat_add_of_nat)
  obtain k where k: "unat v = 4096 * k" using assms(1) by (metis mod_0_imp_dvd dvdE)
  have "unat v < 4294967296" using unsigned_less [where w = v] by simp
  then have "k < 1048576" using k by simp
  then have "4096 * k + i < 4294967296" using assms(2) by linarith
  then show "unat v + i < 2 ^ 32" using k by simp
qed

lemma page_disjoint:
  fixes v q :: u32
  assumes v: "unat v mod 4096 = 0" and q: "unat q mod 4096 = 0" and ne: "q \<noteq> v" and i: "i < 4096"
  shows "4096 \<le> unat (q + of_nat i - v)"
proof (rule ccontr)
  assume "\<not> 4096 \<le> unat (q + of_nat i - v)"
  then have j: "unat (q + of_nat i - v) < 4096" by simp
  let ?j = "unat (q + of_nat i - v)"
  have "v + of_nat ?j = q + of_nat i" by simp
  then have eq: "unat v + ?j = unat q + i" using page_offset [OF v j] page_offset [OF q i] by metis
  obtain k l where kl: "unat v = 4096 * k" "unat q = 4096 * l" using v q by (metis mod_0_imp_dvd dvdE)
  have "k = l" using eq kl i j by linarith
  then show False using ne kl by (simp add: word_unat_eq_iff)
qed

definition kfree_mem :: "u32 \<Rightarrow> u32 \<Rightarrow> memory \<Rightarrow> memory" where
  "kfree_mem v fl m = store32 v fl (memset v 1 PGSIZE m)"

lemma aligned4_page: "unat v mod 4096 = 0 \<Longrightarrow> aligned4 v"
  unfolding aligned4_def using mod_mod_cancel [of 4 4096 "unat v"] by simp

lemma load32_kfree_mem: "load32 (kfree_mem v fl m) v = fl"
  by (simp add: kfree_mem_def)

lemma load32_kfree_mem_other:
  assumes v: "unat v mod 4096 = 0" and q: "unat q mod 4096 = 0" and ne: "q \<noteq> v"
  shows "load32 (kfree_mem v fl m) q = load32 m q"
proof -
  have "memset v 1 PGSIZE m (q + of_nat i) = m (q + of_nat i)" if "i < 4" for i
    using page_disjoint [OF v q ne, of i] that by (simp add: memset_eq PGSIZE_def)
  from this [of 0] this [of 1] this [of 2] this [of 3] have "load32 (memset v 1 PGSIZE m) q = load32 m q"
    by (simp add: load32_def)
  then show ?thesis
    unfolding kfree_mem_def using aligned4_page [OF v] aligned4_page [OF q] ne by (simp add: load32_store32_other)
qed

lemma flist_kfree_mem:
  assumes "unat v mod 4096 = 0" and "\<And>p. p \<in> set ps \<Longrightarrow> unat p mod 4096 = 0" and "v \<notin> set ps" and "flist m r ps"
  shows "flist (kfree_mem v fl m) r ps"
  using assms(2-4)
proof (induction ps arbitrary: r)
  case (Cons p ps)
  then show ?case using load32_kfree_mem_other [OF assms(1), of p fl m] by auto
qed simp

definition kfreed :: "u32 \<Rightarrow> kstate \<Rightarrow> kstate" where
  "kfreed v s = s\<lparr>mem := kfree_mem v (km_freelist (kmem s)) (mem s), kmem := (kmem s)\<lparr>km_freelist := v\<rparr>\<rparr>"

lemma free_inv_kfreed:
  assumes "free_inv s ps" and "free_page (km_end (kmem s)) v" and "v \<notin> set ps"
  shows "free_inv (kfreed v s) (v # ps)"
proof -
  let ?e = "km_end (kmem s)"
  have e: "KERNBASE \<le> ?e" and pages: "\<And>p. p \<in> set ps \<Longrightarrow> free_page ?e p" using assms(1) by (auto simp: free_inv_def)
  note al = free_page_props(3) [OF _ e]
  have "flist (kfree_mem v (km_freelist (kmem s)) (mem s)) (km_freelist (kmem s)) ps"
    using assms al pages by (intro flist_kfree_mem) (auto simp: free_inv_def)
  then show ?thesis using assms by (simp add: free_inv_def kfreed_def load32_kfree_mem)
qed

lemma kwhen_owns_lock:
  "l \<notin> set H \<Longrightarrow> krun (owns H th) s (kwhen b (acquire l)) () (owns (if b then l # H else H) th) s"
  "krun (owns (if b then l # H else H) th) s (kwhen b (release l)) () (owns H th) s"
  using acquire_owns [of l H th s] release_head_owns [of l H th s] kexec_kret [of "owns H th" s "()"]
  by (auto simp: kwhen_def)

lemma kfree_owns [krule]:
  assumes "free_page (km_end (kmem s)) v" and "LKmem \<notin> set H"
  shows "krun (owns H th) s (kfree v) () (owns H th) (kfreed v s)"
proof -
  let ?s1 = "s\<lparr>mem := memset v 1 PGSIZE (mem s)\<rparr>" and ?u = "km_use_lock (kmem s)" and ?fl = "km_freelist (kmem s)"
  let ?s2 = "?s1\<lparr>mem := store32 v ?fl (mem ?s1)\<rparr>"
  let ?H = "if ?u then LKmem # H else H"
  have ok: "\<not> (v mod PGSIZE \<noteq> 0 \<or> v < km_end (kmem s) \<or> PHYSTOP \<le> V2P v)" using assms(1) by (auto simp: free_page_def)
  have body: "krun (owns ?H th) ?s1 (kbind (kget (\<lambda>s. km_freelist (kmem s))) (\<lambda>fl.
       kseq (store_word v fl) (kseq (kmod (upd_kmem (\<lambda>k. k\<lparr>km_freelist := v\<rparr>))) (kwhen ?u (release LKmem))))) ()
      (owns H th) (kfreed v s)"
    unfolding store_word_def
    by (rule get_owns [where v = ?fl], simp, simp, rule mod_owns [where s' = ?s2], simp, simp,
        rule mod_owns [where s' = "kfreed v s"], simp add: upd_kmem_def, simp add: upd_kmem_def kfreed_def kfree_mem_def,
        rule kwhen_owns_lock(2))
  have "krun (owns H th) ?s1 (kbind (kget (\<lambda>s. km_use_lock (kmem s))) (\<lambda>use_lock.
       kseq (kwhen use_lock (acquire LKmem)) (
       kbind (kget (\<lambda>s. km_freelist (kmem s))) (\<lambda>fl.
       kseq (store_word v fl) (
       kseq (kmod (upd_kmem (\<lambda>k. k\<lparr>km_freelist := v\<rparr>)))
       (kwhen use_lock (release LKmem))))))) () (owns H th) (kfreed v s)"
    by (rule get_owns [where v = ?u], simp, simp, rule kexec_kseq, rule kwhen_owns_lock(1), rule assms(2), rule body)
  then show ?thesis
    unfolding kfree_def
    by (rule_tac get_owns [where v = "km_end (kmem s)"], simp, simp, simp only: ok if_False,
        rule_tac mod_owns [where s' = ?s1]) simp_all
qed

lemma mmu_kernel: "KERNBASE \<le> va \<Longrightarrow> mmu m cr3 va = Some va"
  by (simp add: mmu_def)

lemma mem_load_owns:
  assumes "KERNBASE \<le> va"
  shows "krun (owns H th) s (mem_load va) (mem s va) (owns H th) s"
proof (rule krunI)
  fix t assume "owns H th s t"
  moreover from this have "mem t = mem s" by (auto simp: owns_def)
  ultimately show "\<exists>t'. mem_load va t = Inr (mem s va, t') \<and> owns H th s t'"
    using mmu_kernel [OF assms] by (simp add: mem_load_def)
qed

lemma load_bytes_owns:
  "KERNBASE \<le> va \<Longrightarrow> unat va + n \<le> 2 ^ 32 \<Longrightarrow>
    krun (owns H th) s (load_bytes n va) (map (\<lambda>i. mem s (va + of_nat i)) [0..<n]) (owns H th) s"
proof (induction n arbitrary: va)
  case 0
  show ?case by (simp add: kexec_kret del: kret_run)
next
  case (Suc n)
  have va1: "n = 0 \<or> (KERNBASE \<le> va + 1 \<and> unat (va + 1) + n \<le> 2 ^ 32)"
  proof (cases "n = 0")
    case False
    then have u: "unat (va + 1) = unat va + 1" using Suc.prems(2) unat_add_of_nat [of va 1] by simp
    then have "va \<le> va + 1" by (simp add: word_le_nat_alt)
    with u Suc.prems show ?thesis by auto
  qed simp
  have rest: "krun (owns H th) s (load_bytes n (va + 1)) (map (\<lambda>i. mem s (va + 1 + of_nat i)) [0..<n]) (owns H th) s"
    using va1 Suc.IH [of "va + 1"] by (auto simp: kexec_kret simp del: kret_run)
  have l: "map (\<lambda>i. mem s (va + of_nat i)) [0..<Suc n] = mem s va # map (\<lambda>i. mem s (va + 1 + of_nat i)) [0..<n]"
    unfolding upt_conv_Cons [OF zero_less_Suc] map_Suc_upt [symmetric] by (simp add: comp_def add.assoc)
  show ?case
    unfolding load_bytes.simps l
    by (rule kexec_kbind, rule mem_load_owns, rule Suc.prems(1), rule kexec_kbind, rule rest, rule kexec_kret)
qed

lemma deref_owns:
  assumes "KERNBASE \<le> va" and "aligned4 va"
  shows "krun (owns H th) s (deref va) (load32 (mem s) va) (owns H th) s"
proof -
  have "unat va + 3 < 2 ^ 32" using aligned4_add [OF assms(2), of 3] unat_lt32 [of "va + 3"] by simp
  then have b: "krun (owns H th) s (load_bytes 4 va) (map (\<lambda>i. mem s (va + of_nat i)) [0..<4]) (owns H th) s"
    by (intro load_bytes_owns [OF assms(1)]) simp
  have v: "get32 (map (\<lambda>i. mem s (va + of_nat i)) [0..<4]) 0 = load32 (mem s) va"
    by (simp add: get32_def load32_def)
  show ?thesis unfolding deref_def by (rule kexec_kbind, rule b, unfold v, rule kexec_kret)
qed

definition kalloced :: "kstate \<Rightarrow> kstate" where
  "kalloced s = s\<lparr>kmem := (kmem s)\<lparr>km_freelist := load32 (mem s) (km_freelist (kmem s))\<rparr>\<rparr>"

lemma kalloc_owns:
  assumes "free_inv s (p # ps)" and "LKmem \<notin> set H"
  shows "krun (owns H th) s kalloc p (owns H th) (kalloced s)"
proof -
  let ?u = "km_use_lock (kmem s)"
  let ?H = "if ?u then LKmem # H else H"
  have fl: "km_freelist (kmem s) = p" and pg: "free_page (km_end (kmem s)) p" and e: "KERNBASE \<le> km_end (kmem s)"
    using assms(1) by (auto simp: free_inv_def)
  note pp = free_page_props [OF pg e]
  have loop: "krun (owns ?H th) s (kalloc_loop (Suc (Suc NPAGES))) p (owns ?H th) s"
    unfolding kalloc_loop.simps(2) [of "Suc NPAGES"]
    by (rule get_owns [where v = p]) (use fl pp(2) kexec_kret [of "owns ?H th" s p] in auto)
  have step: "krun (owns ?H th) s (kbind (deref p) (\<lambda>n. kmod (upd_kmem (\<lambda>k. k\<lparr>km_freelist := n\<rparr>)))) () (owns ?H th) (kalloced s)"
    by (rule kexec_kbind, rule deref_owns [OF pp(1) aligned4_page [OF pp(3)]], rule kmod_owns)
      (simp add: upd_kmem_def kalloced_def fl)
  have body: "krun (owns ?H th) s (kbind (kalloc_loop (Suc (Suc NPAGES))) (\<lambda>r.
     kseq (if r \<noteq> 0 then kbind (deref r) (\<lambda>n. kmod (upd_kmem (\<lambda>k. k\<lparr>km_freelist := n\<rparr>)))
           else cprintf (ascii ''Out of memory'' @ [10]) []) (
     kseq (kwhen ?u (release LKmem)) (kret r)))) p (owns H th) (kalloced s)"
    by (rule kexec_kbind, rule loop, simp only: pp(2) not_False_eq_True if_True, rule kexec_kseq, rule step,
        rule kexec_kseq, rule kwhen_owns_lock(2), rule kexec_kret)
  show ?thesis
    unfolding kalloc_def
    by (rule get_owns [where v = ?u], simp, simp, rule kexec_kseq, rule kwhen_owns_lock(1), rule assms(2), rule body)
qed

lemma free_inv_kalloced: "free_inv s (p # ps) \<Longrightarrow> free_inv (kalloced s) ps"
  by (auto simp: free_inv_def kalloced_def)

text \<open>Sequences of allocations and releases, and the stack of pages that they stand for.\<close>

datatype kmem_op = KAlloc | KFree u32

fun kmem_run :: "kmem_op list \<Rightarrow> u32 list kern" where
  "kmem_run [] = kret []"
| "kmem_run (KAlloc # ops) = kbind kalloc (\<lambda>r. kbind (kmem_run ops) (\<lambda>rs. kret (r # rs)))"
| "kmem_run (KFree v # ops) = kseq (kfree v) (kmem_run ops)"

fun stack_run :: "u32 \<Rightarrow> u32 list \<Rightarrow> kmem_op list \<Rightarrow> (u32 list \<times> u32 list) option" where
  "stack_run e ps [] = Some ([], ps)"
| "stack_run e [] (KAlloc # ops) = None"
| "stack_run e (p # ps) (KAlloc # ops) = map_option (\<lambda>(rs, q). (p # rs, q)) (stack_run e ps ops)"
| "stack_run e ps (KFree v # ops) = (if free_page e v \<and> v \<notin> set ps then stack_run e (v # ps) ops else None)"

lemma kmem_run_refines:
  "free_inv s ps \<Longrightarrow> stack_run (km_end (kmem s)) ps ops = Some (rs, qs) \<Longrightarrow> LKmem \<notin> set H \<Longrightarrow>
    \<exists>s'. krun (owns H th) s (kmem_run ops) rs (owns H th) s' \<and> free_inv s' qs"
proof (induction ops arbitrary: s ps rs)
  case Nil
  have "krun (owns H th) s (kmem_run []) [] (owns H th) s" unfolding kmem_run.simps by (rule kexec_kret)
  with Nil show ?case by (intro exI [of _ s]) (simp del: kmem_run.simps)
next
  case (Cons x ops)
  show ?case
  proof (cases x)
    case KAlloc
    then obtain p ps' where ps: "ps = p # ps'" using Cons.prems(2) by (cases ps) auto
    then obtain rs' where rs: "rs = p # rs'" "stack_run (km_end (kmem s)) ps' ops = Some (rs', qs)"
      using Cons.prems(2) KAlloc by auto
    obtain s' where s': "krun (owns H th) (kalloced s) (kmem_run ops) rs' (owns H th) s'" "free_inv s' qs"
      using Cons.IH [of "kalloced s" ps' rs'] free_inv_kalloced [of s p ps'] Cons.prems(1,3) ps rs(2) by (auto simp: kalloced_def)
    have "krun (owns H th) s (kmem_run (KAlloc # ops)) rs (owns H th) s'"
      unfolding kmem_run.simps rs(1)
      by (rule kexec_kbind, rule kalloc_owns [OF Cons.prems(1) [unfolded ps] Cons.prems(3)], rule kexec_kbind, rule s'(1), rule kexec_kret)
    with KAlloc s'(2) show ?thesis by blast
  next
    case (KFree v)
    then have v: "free_page (km_end (kmem s)) v" "v \<notin> set ps" and run: "stack_run (km_end (kmem s)) (v # ps) ops = Some (rs, qs)"
      using Cons.prems(2) by (auto split: if_splits)
    obtain s' where s': "krun (owns H th) (kfreed v s) (kmem_run ops) rs (owns H th) s'" "free_inv s' qs"
      using Cons.IH [of "kfreed v s" "v # ps" rs] free_inv_kfreed [OF Cons.prems(1) v] run Cons.prems(3) by (auto simp: kfreed_def)
    have "krun (owns H th) s (kmem_run (KFree v # ops)) rs (owns H th) s'"
      unfolding kmem_run.simps by (rule kexec_kseq, rule kfree_owns [OF v(1) Cons.prems(3)], rule s'(1))
    with KFree s'(2) show ?thesis by blast
  qed
qed

text \<open>
  C17. The page allocator is a stack of distinct pages: for every sequence of \<open>kalloc\<close> and \<open>kfree\<close> in which pages are
  only taken while there are any and only pages that are not free are released, the calls return, the
  addresses handed out are those of the stack, and the free list in memory is the stack. So no page is
  handed out twice, and releasing a page spoils no other entry of the list.
\<close>

theorem kmem_is_stack:
  assumes "crit (hw s) [] th" and "free_inv s ps" and "stack_run (km_end (kmem s)) ps ops = Some (rs, qs)"
  shows "\<exists>t. kmem_run ops s = Inr (rs, t) \<and> free_inv t qs \<and> crit (hw t) [] th"
proof -
  obtain s' where s': "krun (owns [] th) s (kmem_run ops) rs (owns [] th) s'" "free_inv s' qs"
    using kmem_run_refines [OF assms(2,3), of "[]" th] by auto
  obtain t where t: "kmem_run ops s = Inr (rs, t)" "owns [] th s' t" using krunE [OF s'(1) owns_self [OF assms(1)]] .
  with s'(2) show ?thesis by (auto simp: owns_def free_inv_def)
qed

lemma zero_kernel_free: "free_inv zero_kernel []" "km_end (kmem zero_kernel) = 0x80115000"
  by (simp_all add: free_inv_def zero_kernel_def KERNBASE_def)

theorem kmem_is_stack_witness:
  "\<exists>t. kmem_run [KFree 0x80200000, KFree 0x80201000, KAlloc, KFree 0x80202000, KAlloc, KAlloc] zero_kernel =
     Inr ([0x80201000, 0x80202000, 0x80200000], t)"
  using kmem_is_stack [OF zero_kernel_crit zero_kernel_free(1),
      of "[KFree 0x80200000, KFree 0x80201000, KAlloc, KFree 0x80202000, KAlloc, KAlloc]"
        "[0x80201000, 0x80202000, 0x80200000]" "[]"]
  unfolding zero_kernel_free(2)
  by (simp add: free_page_def PGSIZE_def V2P_def KERNBASE_def PHYSTOP_def del: kmem_run.simps) blast










lemma flist_length:
  assumes "free_inv s ps"
  shows "length ps < 2 ^ 32"
proof -
  have "0 \<notin> set ps" using assms free_page_props(2) by (auto simp: free_inv_def)
  moreover have "distinct ps" using assms by (simp add: free_inv_def)
  ultimately have "Suc (length ps) = card (set (0 # ps))" by (simp add: distinct_card)
  also have "\<dots> \<le> card (UNIV :: u32 set)" by (rule card_mono) simp_all
  finally show ?thesis by (simp add: card_word)
qed

lemma free_count_owns:
  "flist (mem s) r ps \<Longrightarrow> \<forall>p \<in> set ps. KERNBASE \<le> p \<and> p \<noteq> 0 \<and> aligned4 p \<Longrightarrow> length ps < f \<Longrightarrow>
    krun (owns H th) s (free_count f r) (length ps) (owns H th) s"
proof (induction f arbitrary: r ps)
  case (Suc f)
  show ?case
  proof (cases ps)
    case Nil
    with Suc.prems show ?thesis by (simp add: kexec_kret del: kret_run)
  next
    case (Cons p ps')
    have p: "r = p" "KERNBASE \<le> p" "p \<noteq> 0" "aligned4 p" using Suc.prems Cons by auto
    have ih: "krun (owns H th) s (free_count f (load32 (mem s) p)) (length ps') (owns H th) s"
      using Suc.prems Cons by (intro Suc.IH) auto
    show ?thesis
      unfolding free_count.simps Cons p(1) using p(3)
      by (simp only: if_False, rule_tac kexec_kbind, rule_tac deref_owns [OF p(2,4)], rule_tac kexec_kbind, rule_tac ih)
        (simp add: kexec_kret del: kret_run)
  qed
qed simp

text \<open>
  C19. \<open>kmem_len\<close> returns, with the number of pages on the free list, and changes nothing.
\<close>

theorem kmem_len_counts:
  assumes "crit (hw s) [] th" and "free_inv s ps"
  shows "\<exists>t. kmem_len s = Inr (length ps, t) \<and> owns [] th s t"
proof -
  let ?u = "km_use_lock (kmem s)"
  have pages: "\<forall>p \<in> set ps. KERNBASE \<le> p \<and> p \<noteq> 0 \<and> aligned4 p"
    using assms(2) free_page_props [of "km_end (kmem s)"] aligned4_page by (auto simp: free_inv_def)
  have cnt: "krun (owns H th) s (free_count (2 ^ 32) (km_freelist (kmem s))) (length ps) (owns H th) s" for H
    by (rule free_count_owns) (use assms(2) flist_length [OF assms(2)] pages in \<open>simp_all add: free_inv_def\<close>)
  have "krun (owns [] th) s kmem_len (length ps) (owns [] th) s"
    unfolding kmem_len_def
    by (rule get_owns [where v = ?u], simp, simp, rule kexec_kseq, rule kwhen_owns_lock(1), simp,
        rule get_owns [where v = "km_freelist (kmem s)"], simp, simp, rule kexec_kbind, rule cnt,
        rule kexec_kseq, rule kwhen_owns_lock(2), rule kexec_kret)
  from krunE [OF this owns_self [OF assms(1)]] show ?thesis by blast
qed

theorem kmem_len_counts_witness: "\<exists>t. kmem_len zero_kernel = Inr (0, t)"
  using kmem_len_counts [OF zero_kernel_crit zero_kernel_free(1)] by auto

section \<open>Reading user memory\<close>

lemma low2:
  assumes "aligned4 va" and "i < 4"
  shows "va + of_nat i = va OR of_nat i"
proof (rule disjunctive_add)
  fix n
  have "take_bit 2 va = 0"
    using assms(1) by (simp add: aligned4_def take_bit_eq_mod word_unat_eq_iff unat_mod_distrib)
  then have "\<not> bit va n" if "n < 2" using that by (metis bit_take_bit_iff bit_0_eq bot_apply bot_bool_def)
  moreover have "\<not> bit (of_nat i :: u32) n" if "2 \<le> n"
  proof -
    have "take_bit 2 i = i" using assms(2) by (simp add: take_bit_eq_mod)
    then have "\<not> bit i n" using that by (metis bit_take_bit_iff not_le)
    then show ?thesis by (simp add: bit_simps)
  qed
  ultimately show "\<not> bit va n \<or> \<not> bit (of_nat i :: u32) n" by (cases "n < 2") auto
qed

lemma bit_low2: "bit (i :: nat) n \<Longrightarrow> i < 4 \<Longrightarrow> n < 2"
proof (rule ccontr)
  assume "i < 4" "bit i n" "\<not> n < 2"
  moreover from this have "take_bit 2 i = i" by (simp add: take_bit_eq_mod)
  ultimately show False by (metis bit_take_bit_iff)
qed

lemma page_word:
  assumes "aligned4 va" and "i < 4"
  shows "PDX (va + of_nat i) = PDX va" "PTX (va + of_nat i) = PTX va"
    "(va + of_nat i) AND 0xFFF = (va AND 0xFFF) + of_nat i"
proof -
  have b: "\<not> bit i (n + 12)" "\<not> bit i (n + 22)" for n
    using bit_low2 [of i] assms(2) by fastforce+
  show "PDX (va + of_nat i) = PDX va" "PTX (va + of_nat i) = PTX va"
    unfolding low2 [OF assms] PDX_def PTX_def
    by (rule bit_word_eqI, auto simp: bit_simps b add.commute)+
  have m: "(0xFFF :: u32) = mask 12" by (simp add: mask_eq_exp_minus_1)
  have al: "aligned4 (va AND mask 12)"
  proof -
    have "unat (va AND mask 12) = unat va mod 4096" by (simp add: take_bit_eq_mask [symmetric] unat_take12)
    then show ?thesis using assms(1) mod_mod_cancel [of 4 4096 "unat va"] by (simp add: aligned4_def)
  qed
  show "(va + of_nat i) AND 0xFFF = (va AND 0xFFF) + of_nat i"
    unfolding m low2 [OF assms] low2 [OF al assms(2)]
    by (rule bit_word_eqI) (use bit_low2 [of i] assms(2) in \<open>fastforce simp: bit_simps\<close>)
qed

lemma mmu_word:
  assumes "aligned4 va" and "va < KERNBASE" and "mmu m cr3 va = Some a" and "i < 4"
  shows "mmu m cr3 (va + of_nat i) = Some (a + of_nat i)"
proof -
  have "unat va < 2147483648" using assms(2) by (simp add: word_less_nat_alt KERNBASE_def)
  then have "unat va + i < 2147483648" using assms(1,4) unfolding aligned4_def by presburger
  then have k: "\<not> KERNBASE \<le> va + of_nat i" using aligned4_add [OF assms(1,4)] by (simp add: word_le_nat_alt KERNBASE_def)
  have w: "walk m (P2V cr3) (va + of_nat i) = walk m (P2V cr3) va"
    unfolding walk_def page_word [OF assms(1,4)] ..
  show ?thesis
    using assms(2,3) k unfolding mmu_def w page_word(3) [OF assms(1,4)]
    by (auto simp: Let_def not_le add.assoc split: if_splits)
qed

lemma deref_user:
  assumes "aligned4 va" and "va < KERNBASE" and "mmu (mem t) (cr3_of (hw t)) va = Some a"
  shows "deref va t = Inr (load32 (mem t) a, t)"
proof -
  have ld: "mem_load (va + of_nat i) t = Inr (mem t (a + of_nat i), t)" if "i < 4" for i
    using mmu_word [OF assms that] by (simp add: mem_load_def)
  have "load_bytes 4 va t = Inr ([mem t a, mem t (a + 1), mem t (a + 2), mem t (a + 3)], t)"
    using ld [of 0] ld [of 1] ld [of 2] ld [of 3] by (simp add: numeral_eq_Suc add.assoc)
  then show ?thesis by (simp add: deref_def get32_def load32_def)
qed

lemma upd_cpu_cr3:
  assumes "\<And>k. apicid (f k) = apicid k" and "\<And>k. cpu_cr3 (f k) = cpu_cr3 k"
  shows "cr3_of (hw (upd_cpu c f s)) = cr3_of (hw s)"
proof -
  have "this_cpu ((hw s)\<lparr>cpus := (cpus (hw s))[c := f (cpus (hw s) ! c)]\<rparr>) = this_cpu (hw s)"
    by (rule this_cpu_upd) (rule assms(1))
  then show ?thesis
    by (cases "this_cpu (hw s)") (simp_all add: cr3_of_def upd_cpu_def upd_hw_def nth_list_update_if assms(2))
qed

lemma cr3_of_ifl [simp]: "cr3_of (h\<lparr>ifl := b\<rparr>) = cr3_of h"
  by (cases "this_cpu h") (simp_all add: cr3_of_def)

lemma mycpu_state: "mycpu s = Inr (c, t) \<Longrightarrow> t = s"
  by (auto simp: mycpu_def readeflags_def split: if_splits option.splits)

lemma pushcli_cr3: "pushcli s = Inr (u, t) \<Longrightarrow> cr3_of (hw t) = cr3_of (hw s)"
  unfolding pushcli_def cli_def readeflags_def
  by (auto simp: upd_hw_def kwhen_def upd_cpu_cr3 elim!: kbind_eq_InrE kseq_eq_InrE dest!: mycpu_state split: if_splits)

lemma popcli_cr3: "popcli s = Inr (u, t) \<Longrightarrow> cr3_of (hw t) = cr3_of (hw s)"
  unfolding popcli_def sti_def readeflags_def
  by (auto simp: upd_hw_def kwhen_def upd_cpu_cr3 elim!: kbind_eq_InrE kseq_eq_InrE dest!: mycpu_state split: if_splits)

lemma myproc_cr3: "myproc s = Inr (p, t) \<Longrightarrow> cr3_of (hw t) = cr3_of (hw s)"
  unfolding myproc_def by (auto elim!: kbind_eq_InrE kseq_eq_InrE dest!: mycpu_state pushcli_cr3 popcli_cr3)

end
