(* ===== verification/Vm.thy ===== *)
theory Vm
  imports Kalloc
begin

text \<open>
  Address spaces: the rest of \<open>vm.c\<close>. A page directory is the kernel address of its page. The segment
  descriptors that \<open>seginit\<close> loads are the same for every process and are not part of the state.
\<close>

section \<open>Mapping pages\<close>

definition walkpgdir :: "u32 \<Rightarrow> u32 \<Rightarrow> bool \<Rightarrow> u32 kern" where
  "walkpgdir pgdir va alloc =
     kbind (load_word (pgdir + 4 * PDX va)) (\<lambda>pde.
     if pde AND PTE_P \<noteq> 0 then kret (P2V (PTE_ADDR pde) + 4 * PTX va)
     else if \<not> alloc then kret 0
     else
       kbind kalloc (\<lambda>pgtab.
       if pgtab = 0 then kret 0
       else
         kseq (kmod (\<lambda>s. s\<lparr>mem := memset pgtab 0 PGSIZE (mem s)\<rparr>)) (
         kseq (store_word (pgdir + 4 * PDX va) (V2P pgtab OR PTE_P OR PTE_W OR PTE_U))
         (kret (pgtab + 4 * PTX va)))))"

text \<open>The loop of \<open>mappages\<close> with \<open>n\<close> more pages to come after the one at \<open>a\<close>.\<close>

primrec mappages_loop :: "nat \<Rightarrow> u32 \<Rightarrow> u32 \<Rightarrow> u32 \<Rightarrow> u32 \<Rightarrow> u32 \<Rightarrow> int kern" where
  "mappages_loop 0 pgdir va a pa perm =
     kbind (walkpgdir pgdir a True) (\<lambda>pte.
     if pte = 0 then kret (- 1)
     else
       kbind (load_word pte) (\<lambda>w.
       if w AND PTE_P \<noteq> 0 then panic ''remap''
       else
         kseq (store_word pte (pa OR perm OR PTE_P)) (
         kseq (lru_insert pgdir va ((pa OR perm OR PTE_P) AND PTE_U))
         (kret 0))))"
| "mappages_loop (Suc n) pgdir va a pa perm =
     kbind (walkpgdir pgdir a True) (\<lambda>pte.
     if pte = 0 then kret (- 1)
     else
       kbind (load_word pte) (\<lambda>w.
       if w AND PTE_P \<noteq> 0 then panic ''remap''
       else
         kseq (store_word pte (pa OR perm OR PTE_P)) (
         kseq (lru_insert pgdir va ((pa OR perm OR PTE_P) AND PTE_U))
         (mappages_loop n pgdir va (a + PGSIZE) (pa + PGSIZE) perm))))"

text \<open>The loop ends when \<open>a\<close>, which grows by \<open>PGSIZE\<close> modulo \<open>2 ^ 32\<close>, is equal to \<open>last\<close>.\<close>

definition mappages :: "u32 \<Rightarrow> u32 \<Rightarrow> u32 \<Rightarrow> u32 \<Rightarrow> u32 \<Rightarrow> int kern" where
  "mappages pgdir va sz pa perm =
     (let a = PGROUNDDOWN va; last = PGROUNDDOWN (va + sz - 1) in
      mappages_loop (unat ((last - a) div PGSIZE)) pgdir va a pa perm)"

section \<open>Releasing address spaces\<close>

text \<open>
  The loop of \<open>deallocuvm\<close>. Below \<open>KERNBASE\<close> each round moves \<open>a\<close> up by at least a page, so as many rounds
  as there are pages between \<open>a\<close> and \<open>oldsz\<close> are enough.
\<close>

primrec deallocuvm_loop :: "nat \<Rightarrow> u32 \<Rightarrow> u32 \<Rightarrow> u32 \<Rightarrow> unit kern" where
  "deallocuvm_loop 0 pgdir a oldsz = kret ()"
| "deallocuvm_loop (Suc f) pgdir a oldsz =
     (if oldsz \<le> a then kret ()
      else
        kbind (walkpgdir pgdir a False) (\<lambda>pte.
        if pte = 0 then deallocuvm_loop f pgdir (PGADDR (PDX a + 1) 0 0 - PGSIZE + PGSIZE) oldsz
        else
          kbind (load_word pte) (\<lambda>w.
          kseq (kwhen (w AND PTE_P \<noteq> 0) (
                  let pa = PTE_ADDR w in
                  if pa = 0 then panic ''kfree''
                  else
                    kseq (kfree (P2V pa)) (
                    kseq (lru_delete pgdir (P2V pa))
                    (store_word pte 0))))
          (deallocuvm_loop f pgdir (a + PGSIZE) oldsz))))"

definition deallocuvm :: "u32 \<Rightarrow> u32 \<Rightarrow> u32 \<Rightarrow> u32 kern" where
  "deallocuvm pgdir oldsz newsz =
     (if oldsz \<le> newsz then kret oldsz
      else
        kseq (deallocuvm_loop (Suc (unat (oldsz div PGSIZE))) pgdir (PGROUNDUP newsz) oldsz)
        (kret newsz))"

definition NPDENTRIES :: nat where "NPDENTRIES = 1024"

definition freevm :: "u32 \<Rightarrow> unit kern" where
  "freevm pgdir =
     (if pgdir = 0 then panic ''freevm: no pgdir''
      else
        kseq (deallocuvm pgdir KERNBASE 0) (
        kseq (kfor [0..<NPDENTRIES] (\<lambda>i.
                kbind (load_word (pgdir + 4 * of_nat i)) (\<lambda>e.
                kwhen (e AND PTE_P \<noteq> 0) (kfree (P2V (PTE_ADDR e))))))
        (kfree pgdir)))"

section \<open>Kernel mappings\<close>

record kmap_entry =
  km_virt :: u32
  km_phys_start :: u32
  km_phys_end :: u32
  km_perm :: u32

definition kmap :: "u32 \<Rightarrow> kmap_entry list" where
  "kmap kdata =
     [\<lparr>km_virt = KERNBASE, km_phys_start = 0, km_phys_end = EXTMEM, km_perm = PTE_W\<rparr>,
      \<lparr>km_virt = KERNLINK, km_phys_start = V2P KERNLINK, km_phys_end = V2P kdata, km_perm = 0\<rparr>,
      \<lparr>km_virt = kdata, km_phys_start = V2P kdata, km_phys_end = PHYSTOP, km_perm = PTE_W\<rparr>,
      \<lparr>km_virt = DEVSPACE, km_phys_start = DEVSPACE, km_phys_end = 0, km_perm = PTE_W\<rparr>]"

fun setupkvm_loop :: "u32 \<Rightarrow> kmap_entry list \<Rightarrow> u32 kern" where
  "setupkvm_loop pgdir [] = kret pgdir"
| "setupkvm_loop pgdir (k # ks) =
     kbind (mappages pgdir (km_virt k) (km_phys_end k - km_phys_start k) (km_phys_start k) (km_perm k)) (\<lambda>r.
     if r < 0 then kseq (freevm pgdir) (kret 0) else setupkvm_loop pgdir ks)"

definition setupkvm :: "u32 kern" where
  "setupkvm =
     kbind kalloc (\<lambda>pgdir.
     if pgdir = 0 then kret 0
     else
       kseq (kmod (\<lambda>s. s\<lparr>mem := memset pgdir 0 PGSIZE (mem s)\<rparr>)) (
       if DEVSPACE < P2V PHYSTOP then panic ''PHYSTOP too high''
       else kbind (kget (\<lambda>s. km_data (kmem s))) (\<lambda>kdata. setupkvm_loop pgdir (kmap kdata))))"

definition kvmalloc :: "unit kern" where
  "kvmalloc =
     kbind setupkvm (\<lambda>d.
     kseq (kmod (upd_kmem (\<lambda>k. k\<lparr>km_kpgdir := d\<rparr>)))
     switchkvm)"

section \<open>User memory\<close>

text \<open>The bytes of \<open>init\<close> are the \<open>sz\<close> bytes of the linked \<open>initcode\<close>.\<close>

definition inituvm :: "u32 \<Rightarrow> u8 list \<Rightarrow> unit kern" where
  "inituvm pgdir init =
     (if unat PGSIZE \<le> length init then panic ''inituvm: more than a page''
      else
        kbind kalloc (\<lambda>m.
        kseq (kmod (\<lambda>s. s\<lparr>mem := memset m 0 PGSIZE (mem s)\<rparr>)) (
        kseq (mappages pgdir 0 PGSIZE (V2P m) (PTE_W OR PTE_U))
        (store_bytes init m))))"

text \<open>The addresses \<open>from, from + PGSIZE, ...\<close> below \<open>to\<close>.\<close>

definition pages_between :: "u32 \<Rightarrow> u32 \<Rightarrow> u32 list" where
  "pages_between from to =
     map (\<lambda>i. from + of_nat i * PGSIZE) [0..<(unat to - unat from + unat PGSIZE - 1) div unat PGSIZE]"

fun loaduvm_loop :: "u32 \<Rightarrow> u32 \<Rightarrow> nat \<Rightarrow> u32 \<Rightarrow> u32 \<Rightarrow> u32 list \<Rightarrow> int kern" where
  "loaduvm_loop pgdir addr ip offset sz [] = kret 0"
| "loaduvm_loop pgdir addr ip offset sz (i # is) =
     kbind (walkpgdir pgdir (addr + i) False) (\<lambda>pte.
     if pte = 0 then panic ''loaduvm: address should exist''
     else
       kbind (load_word pte) (\<lambda>w.
       let n = (if sz - i < PGSIZE then sz - i else PGSIZE) in
       kbind (readi ip (offset + i) n) (\<lambda>(r, bs).
       kseq (store_bytes bs (P2V (PTE_ADDR w))) (
       if r \<noteq> uint n then kret (- 1) else loaduvm_loop pgdir addr ip offset sz is))))"

definition loaduvm :: "u32 \<Rightarrow> u32 \<Rightarrow> nat \<Rightarrow> u32 \<Rightarrow> u32 \<Rightarrow> int kern" where
  "loaduvm pgdir addr ip offset sz =
     (if addr mod PGSIZE \<noteq> 0 then panic ''loaduvm: addr must be page aligned''
      else loaduvm_loop pgdir addr ip offset sz (pages_between 0 sz))"

fun allocuvm_loop :: "u32 \<Rightarrow> u32 \<Rightarrow> u32 \<Rightarrow> u32 list \<Rightarrow> u32 kern" where
  "allocuvm_loop pgdir oldsz newsz [] = kret newsz"
| "allocuvm_loop pgdir oldsz newsz (a # as) =
     kbind kalloc (\<lambda>m.
     if m = 0 then
       kseq (cprintf (ascii ''allocuvm out of memory'' @ [10]) []) (
       kseq (deallocuvm pgdir newsz oldsz)
       (kret 0))
     else
       kseq (kmod (\<lambda>s. s\<lparr>mem := memset m 0 PGSIZE (mem s)\<rparr>)) (
       kbind (mappages pgdir a PGSIZE (V2P m) (PTE_W OR PTE_U)) (\<lambda>r.
       if r < 0 then
         kseq (cprintf (ascii ''allocuvm out of memory (2)'' @ [10]) []) (
         kseq (deallocuvm pgdir newsz oldsz) (
         kseq (kfree m)
         (kret 0)))
       else allocuvm_loop pgdir oldsz newsz as)))"

definition allocuvm :: "u32 \<Rightarrow> u32 \<Rightarrow> u32 \<Rightarrow> u32 kern" where
  "allocuvm pgdir oldsz newsz =
     (if KERNBASE \<le> newsz then kret 0
      else if newsz < oldsz then kret oldsz
      else allocuvm_loop pgdir oldsz newsz (pages_between (PGROUNDUP oldsz) newsz))"

definition clearpteu :: "u32 \<Rightarrow> u32 \<Rightarrow> unit kern" where
  "clearpteu pgdir uva =
     kbind (walkpgdir pgdir uva False) (\<lambda>pte.
     if pte = 0 then panic ''clearpteu''
     else kbind (load_word pte) (\<lambda>w. store_word pte (w AND NOT PTE_U)))"

text \<open>The result of the loop tells whether the label \<open>bad\<close> is avoided.\<close>

fun copyuvm_loop :: "u32 \<Rightarrow> u32 \<Rightarrow> u32 list \<Rightarrow> bool kern" where
  "copyuvm_loop pgdir d [] = kret True"
| "copyuvm_loop pgdir d (i # is) =
     kbind (walkpgdir pgdir i False) (\<lambda>pte.
     if pte = 0 then panic ''copyuvm: pte should exist''
     else
       kbind (load_word pte) (\<lambda>w.
       if w AND PTE_P = 0 then panic ''copyuvm: page not present''
       else
         kbind kalloc (\<lambda>m.
         if m = 0 then kret False
         else
           kseq (kmod (\<lambda>s. s\<lparr>mem := memmove m (P2V (PTE_ADDR w)) PGSIZE (mem s)\<rparr>)) (
           kbind (load_word pte) (\<lambda>w'.
           kseq (lru_insert pgdir m (w' AND PTE_U)) (
           kbind (mappages d i PGSIZE (V2P m) (PTE_FLAGS w)) (\<lambda>r.
           if r < 0 then kseq (kfree m) (kret False)
           else copyuvm_loop pgdir d is)))))))"

definition copyuvm :: "u32 \<Rightarrow> u32 \<Rightarrow> u32 kern" where
  "copyuvm pgdir sz =
     kbind setupkvm (\<lambda>d.
     if d = 0 then kret 0
     else
       kbind (copyuvm_loop pgdir d (pages_between 0 sz)) (\<lambda>ok.
       if ok then kret d else kseq (freevm d) (kret 0)))"

definition uva2ka :: "u32 \<Rightarrow> u32 \<Rightarrow> u32 kern" where
  "uva2ka pgdir uva =
     kbind (walkpgdir pgdir uva False) (\<lambda>pte.
     if pte = 0 then kstop (Fault ''null pointer'')
     else
       kbind (load_word pte) (\<lambda>w.
       if w AND PTE_P = 0 then kret 0
       else if w AND PTE_U = 0 then kret 0
       else kret (P2V (PTE_ADDR w))))"

text \<open>\<open>copyout\<close> takes the bytes at \<open>p\<close>; each round copies at least one of them.\<close>

primrec copyout_loop :: "nat \<Rightarrow> u32 \<Rightarrow> u32 \<Rightarrow> u8 list \<Rightarrow> int kern" where
  "copyout_loop 0 pgdir va bs = kret 0"
| "copyout_loop (Suc f) pgdir va bs =
     (if bs = [] then kret 0
      else
        let va0 = PGROUNDDOWN va in
        kbind (uva2ka pgdir va0) (\<lambda>pa0.
        if pa0 = 0 then kret (- 1)
        else
          let n = min (unat (PGSIZE - (va - va0))) (length bs) in
          kseq (store_bytes (take n bs) (pa0 + (va - va0)))
          (copyout_loop f pgdir (va0 + PGSIZE) (drop n bs))))"

definition copyout :: "u32 \<Rightarrow> u32 \<Rightarrow> u8 list \<Rightarrow> int kern" where
  "copyout pgdir va bs = copyout_loop (length bs) pgdir va bs"

section \<open>What mappages maps\<close>

lemma page_low: "take_bit 12 va = 0" if "unat va mod 4096 = 0" for va :: u32
  using that unat_take12 [of va] by (simp add: word_unat_eq_iff)

lemma page_bit: "\<not> bit va n" if "unat va mod 4096 = 0" "n < 12" for va :: u32
  using page_low [OF that(1)] that(2) by (metis bit_take_bit_iff bit_0_eq bot_apply bot_bool_def)

lemma bit_low12: "bit (i :: nat) n \<Longrightarrow> i < 4096 \<Longrightarrow> n < 12"
proof (rule ccontr)
  assume "i < 4096" "bit i n" "\<not> n < 12"
  moreover from this have "take_bit 12 i = i" by (simp add: take_bit_eq_mod)
  ultimately show False by (metis bit_take_bit_iff)
qed

lemma page_or:
  assumes "unat va mod 4096 = 0" and "i < 4096"
  shows "va + of_nat i = (va :: u32) OR of_nat i"
proof (rule disjunctive_add)
  show "\<not> bit va n \<or> \<not> bit (of_nat i :: u32) n" for n
    using page_bit [OF assms(1)] bit_low12 [of i n] assms(2) by (cases "n < 12") (auto simp: bit_simps)
qed

lemma page_index:
  assumes "unat va mod 4096 = 0" and "i < 4096"
  shows "PDX (va + of_nat i) = PDX va" "PTX (va + of_nat i) = PTX va" "(va + of_nat i) AND 0xFFF = of_nat i"
proof -
  have b: "\<not> bit i (n + 12)" "\<not> bit i (n + 22)" for n using bit_low12 [of i] assms(2) by fastforce+
  show "PDX (va + of_nat i) = PDX va" "PTX (va + of_nat i) = PTX va"
    unfolding page_or [OF assms] PDX_def PTX_def
    by (rule bit_word_eqI, auto simp: bit_simps b add.commute)+
  have m: "(0xFFF :: u32) = mask 12" by (simp add: mask_eq_exp_minus_1)
  show "(va + of_nat i) AND 0xFFF = of_nat i"
    unfolding m page_or [OF assms]
    by (rule bit_word_eqI) (use bit_low12 [of i] page_bit [OF assms(1)] assms(2) in \<open>auto simp: bit_simps\<close>)
qed

text \<open>The entry that \<open>mappages\<close> stores.\<close>

lemma mapped_entry:
  assumes "unat pa mod 4096 = 0" and "unat perm < 4096"
  shows "PTE_ADDR (pa OR perm OR PTE_P) = pa" and "(pa OR perm OR PTE_P) AND PTE_P \<noteq> 0"
proof -
  have m: "(0xFFF :: u32) = mask 12" by (simp add: mask_eq_exp_minus_1)
  have pb: "bit perm n \<Longrightarrow> n < 12" for n
    using bit_low12 [of "unat perm" n] assms(2) by (simp add: bit_unsigned_iff)
  show "PTE_ADDR (pa OR perm OR PTE_P) = pa"
    unfolding PTE_ADDR_def m PTE_P_def
  proof (rule bit_word_eqI)
    fix n assume "n < LENGTH(32)"
    then show "bit ((pa OR perm OR 1) AND NOT (mask 12)) n \<longleftrightarrow> bit pa n"
      using pb [of n] page_bit [OF assms(1), of n] by (cases "n < 12") (auto simp: bit_simps)
  qed
  have "bit ((pa OR perm OR PTE_P) AND PTE_P) 0" by (simp add: PTE_P_def bit_simps)
  then show "(pa OR perm OR PTE_P) AND PTE_P \<noteq> 0" by (metis bit_0_eq bot_apply bot_bool_def)
qed

lemma walkpgdir_run: "walk (mem s) pgdir va \<noteq> 0 \<Longrightarrow> walkpgdir pgdir va alloc s = Inr (walk (mem s) pgdir va, s)"
  by (simp add: walkpgdir_def walk_def load_word_def Let_def split: if_splits)

text \<open>The ring of resident pages as it is before and after the first user page.\<close>

definition lru_ok :: "kmemstate \<Rightarrow> bool" where
  "lru_ok k \<longleftrightarrow> km_lru_head k = None \<or> (\<exists>v. lru_one v k)"

lemma lru_insert_run: "lru_ok (kmem s) \<Longrightarrow> \<exists>k. lru_insert d va fl s = Inr ((), s\<lparr>kmem := k\<rparr>) \<and> lru_ok k"
proof -
  assume ok: "lru_ok (kmem s)"
  show ?thesis
  proof (cases "fl = 0")
    case True
    then show ?thesis using ok by (intro exI [of _ "kmem s"]) (simp add: lru_insert_def)
  next
    case False
    show ?thesis
    proof (cases "km_lru_head (kmem s)")
      case None
      with False show ?thesis
        by (simp add: lru_insert_def upd_kmem_def upd_page_def lru_ok_def lru_one_def)
    next
      case (Some h)
      with ok obtain v where v: "lru_one v (kmem s)" by (auto simp: lru_ok_def)
      with False show ?thesis
        by (simp add: lru_insert_def upd_kmem_def upd_page_def lru_one_def page_at_def NPAGES_pages null_check_def)
          (simp add: lru_ok_def lru_one_def)
    qed
  qed
qed

lemma PGROUNDDOWN_page: "unat va mod 4096 = 0 \<Longrightarrow> PGROUNDDOWN va = va"
  using unat_PGROUNDDOWN [of va] by (simp add: word_unat_eq_iff)

lemma PGROUNDDOWN_in_page:
  assumes "unat va mod 4096 = 0"
  shows "PGROUNDDOWN (va + PGSIZE - 1) = va"
proof -
  have e: "va + PGSIZE - 1 = va + of_nat 4095" by (simp add: PGSIZE_def)
  have "unat (va + of_nat 4095) = unat va + 4095" by (rule page_offset [OF assms]) simp
  moreover have "(unat va + 4095) mod 4096 = 4095" using assms by (simp add: mod_add_eq [symmetric])
  ultimately have "unat (PGROUNDDOWN (va + of_nat 4095)) = unat va" by (simp add: unat_PGROUNDDOWN)
  then show ?thesis unfolding e word_unat_eq_iff .
qed

lemma mappages_page:
  assumes va: "unat va mod 4096 = 0" and ref: "pte_ref (mem s) pgdir va pte" and np: "load32 (mem s) pte AND PTE_P = 0"
    and ok: "lru_ok (kmem s)"
  shows "\<exists>k. mappages pgdir va PGSIZE pa perm s =
      Inr (0, s\<lparr>mem := store32 pte (pa OR perm OR PTE_P) (mem s), kmem := k\<rparr>) \<and> lru_ok k"
proof -
  let ?s = "s\<lparr>mem := store32 pte (pa OR perm OR PTE_P) (mem s)\<rparr>"
  from lru_insert_run [of ?s pgdir va "(pa OR perm OR PTE_P) AND PTE_U"] ok obtain k where
    k: "lru_insert pgdir va ((pa OR perm OR PTE_P) AND PTE_U) ?s = Inr ((), ?s\<lparr>kmem := k\<rparr>)" "lru_ok k" by auto
  have w: "walkpgdir pgdir va True s = Inr (pte, s)" "pte \<noteq> 0"
    using ref walkpgdir_run [of s pgdir va True] by (auto simp: pte_ref_def)
  have "mappages pgdir va PGSIZE pa perm = mappages_loop 0 pgdir va va pa perm"
    unfolding mappages_def Let_def PGROUNDDOWN_page [OF va] PGROUNDDOWN_in_page [OF va] by simp
  with w np k(1) have "mappages pgdir va PGSIZE pa perm s = Inr (0, ?s\<lparr>kmem := k\<rparr>)"
    by (simp add: load_word_def store_word_def)
  then show ?thesis using k(2) by (intro exI [of _ k]) simp
qed

lemma aligned4_entry: "unat p mod 4096 = 0 \<Longrightarrow> aligned4 (p + 4 * i)"
proof -
  assume p: "unat p mod 4096 = 0"
  have "unat (p + 4 * i) mod 4 = (unat p + 4 * unat i) mod 2 ^ 32 mod 4"
    by (simp add: unat_word_ariths mod_simps)
  also have "\<dots> = (unat p + 4 * unat i) mod 4" by (rule mod_mod_cancel) simp
  also have "\<dots> = 0" using aligned4_page [OF p] by (simp add: aligned4_def mod_add_eq [symmetric])
  finally show ?thesis by (simp add: aligned4_def)
qed

lemma P2V_page: "unat (P2V (PTE_ADDR w)) mod 4096 = 0"
proof -
  have m: "(0xFFF :: u32) = mask 12" by (simp add: mask_eq_exp_minus_1)
  have "take_bit 12 (PTE_ADDR w) = 0"
    unfolding PTE_ADDR_def m by (rule bit_word_eqI) (auto simp: bit_simps)
  then have "unat (PTE_ADDR w) mod 4096 = 0" using unat_take12 [of "PTE_ADDR w"] by simp
  then have "(unat (PTE_ADDR w) + 2147483648) mod 4096 = 0" by (simp add: mod_add_eq [symmetric])
  moreover have "unat (P2V (PTE_ADDR w)) mod 4096 = (unat (PTE_ADDR w) + 2147483648) mod 4096"
    by (simp add: P2V_def KERNBASE_def unat_word_ariths mod_mod_cancel)
  ultimately show ?thesis by simp
qed

lemma P2V_page': "unat a mod 4096 = 0 \<Longrightarrow> unat (P2V a) mod 4096 = 0"
proof -
  assume "unat a mod 4096 = 0"
  then have "(unat a + 2147483648) mod 4096 = 0" by (simp add: mod_add_eq [symmetric])
  then show ?thesis by (simp add: P2V_def KERNBASE_def unat_word_ariths mod_mod_cancel)
qed

lemma user_page: "unat va mod 4096 = 0 \<Longrightarrow> va < KERNBASE \<Longrightarrow> i < 4096 \<Longrightarrow> va + of_nat i < KERNBASE"
proof -
  assume va: "unat va mod 4096 = 0" "va < KERNBASE" "i < 4096"
  obtain k where k: "unat va = 4096 * k" using va(1) by (metis mod_0_imp_dvd dvdE)
  with va have "k < 524288" by (simp add: word_less_nat_alt KERNBASE_def)
  then have "unat (va + of_nat i) < 2147483648" using page_offset [OF va(1,3)] k va(3) by simp
  then show ?thesis by (simp add: word_less_nat_alt KERNBASE_def)
qed

lemma walk_store:
  assumes "unat pgdir mod 4096 = 0" and "aligned4 pte" and "\<And>x. pte \<noteq> pgdir + 4 * PDX x"
  shows "walk (store32 pte v m) pgdir x = walk m pgdir x"
  using load32_store32_other [OF aligned4_entry [OF assms(1)] assms(2), of "PDX x"] assms(3) [of x]
  by (simp add: walk_def)

text \<open>
  C38. Mapping a page: where the page table exists and the entry is free, \<open>mappages\<close> of one page returns 0; then
  every address of the page is translated to the same offset in the physical page, and the
  translation of every address with another entry is what it was.
\<close>

theorem mappages_translates:
  assumes va: "unat va mod 4096 = 0" "va < KERNBASE" and pa: "unat pa mod 4096 = 0" and perm: "unat perm < 4096"
    and dir: "unat cr3 mod 4096 = 0" and ref: "pte_ref (mem s) (P2V cr3) va pte" and np: "load32 (mem s) pte AND PTE_P = 0"
    and out: "\<And>x. pte \<noteq> P2V cr3 + 4 * PDX x" and ok: "lru_ok (kmem s)"
  shows "\<exists>t. mappages (P2V cr3) va PGSIZE pa perm s = Inr (0, t) \<and> lru_ok (kmem t) \<and>
     (\<forall>i < 4096. mmu (mem t) cr3 (va + of_nat i) = Some (P2V pa + of_nat i)) \<and>
     (\<forall>x. walk (mem s) (P2V cr3) x \<noteq> pte \<longrightarrow> mmu (mem t) cr3 x = mmu (mem s) cr3 x)"
proof -
  let ?w = "pa OR perm OR PTE_P" and ?d = "P2V cr3"
  let ?m = "store32 pte ?w (mem s)"
  from mappages_page [OF va(1) ref np ok] obtain k where
    k: "mappages ?d va PGSIZE pa perm s = Inr (0, s\<lparr>mem := ?m, kmem := k\<rparr>)" "lru_ok k" by blast
  have pg: "unat ?d mod 4096 = 0" using P2V_page' [OF dir] .
  have al: "aligned4 pte" using ref by (simp add: pte_ref_def)
  note wk = walk_store [OF pg al out]
  have new: "mmu ?m cr3 (va + of_nat i) = Some (P2V pa + of_nat i)" if i: "i < 4096" for i
  proof -
    have "walk ?m ?d (va + of_nat i) = pte"
      using ref unfolding wk by (auto simp: walk_def page_index [OF va(1) i] pte_ref_def Let_def split: if_splits)
    moreover have "\<not> KERNBASE \<le> va + of_nat i" using va page_offset [OF va(1) i] user_page [OF va i] by simp
    ultimately show ?thesis
      using ref mapped_entry [OF pa perm] by (simp add: mmu_def page_index [OF va(1) i] pte_ref_def)
  qed
  have old: "mmu ?m cr3 x = mmu (mem s) cr3 x" if x: "walk (mem s) ?d x \<noteq> pte" for x
  proof (cases "walk (mem s) ?d x = 0")
    case False
    then have "aligned4 (walk (mem s) ?d x)" by (auto simp: walk_def Let_def aligned4_entry [OF P2V_page] split: if_splits)
    then show ?thesis using load32_store32_other [OF _ al x] by (simp add: mmu_def wk Let_def)
  qed (simp add: mmu_def wk)
  from k new old show ?thesis by auto
qed

lemma PDX_small: "unat (PDX x) < 1024"
proof -
  have "PDX x \<le> 0x3FF" unfolding PDX_def by (rule word_and_le1)
  then show ?thesis by (simp add: word_le_nat_alt)
qed

lemma paged_memory_next: "pte_ref paged_memory 0x80401000 0x1000 0x80402004" "load32 paged_memory 0x80402004 = 0"
proof -
  have "load32 paged_memory 0x80401000 = 0x00402007"
    unfolding paged_memory_def by (subst load32_store32_other) (simp_all add: aligned4_def)
  then show "pte_ref paged_memory 0x80401000 0x1000 0x80402004"
    by (simp add: pte_ref_def walk_def PDX_def PTX_def PTE_P_def PTE_ADDR_def P2V_def KERNBASE_def aligned4_def)
  show "load32 paged_memory 0x80402004 = 0"
    unfolding paged_memory_def by (subst load32_store32_other, simp_all add: aligned4_def)+ (simp add: load32_def word32_def)
qed

theorem mappages_translates_witness:
  "\<exists>t. mappages 0x80401000 0x1000 PGSIZE 0x00404000 (PTE_W OR PTE_U) (zero_kernel\<lparr>mem := paged_memory\<rparr>) = Inr (0, t) \<and>
     mmu (mem t) 0x00401000 0x1234 = Some 0x80404234"
proof -
  let ?s = "zero_kernel\<lparr>mem := paged_memory\<rparr>"
  have d: "P2V 0x00401000 = 0x80401000" by (simp add: P2V_def KERNBASE_def)
  have out: "(0x80402004 :: u32) \<noteq> P2V 0x00401000 + 4 * PDX x" for x
  proof
    assume "0x80402004 = P2V 0x00401000 + 4 * PDX x"
    then have "4 * PDX x = 0x1004" unfolding d by (simp add: algebra_simps)
    then have "unat (4 * PDX x) = 4100" by simp
    moreover have "unat (4 * PDX x) = 4 * unat (PDX x)"
      using PDX_small [of x] by (simp add: unat_word_ariths)
    ultimately show False using PDX_small [of x] by simp
  qed
  have "lru_ok (kmem ?s)" by (simp add: lru_ok_def zero_kernel_def)
  from mappages_translates [of "0x1000" "0x00404000" "PTE_W OR PTE_U" "0x00401000" ?s "0x80402004", OF _ _ _ _ _ _ _ out this]
  obtain t where t: "mappages 0x80401000 0x1000 PGSIZE 0x00404000 (PTE_W OR PTE_U) ?s = Inr (0, t)"
    "\<forall>i < 4096. mmu (mem t) 0x00401000 (0x1000 + of_nat i) = Some (P2V 0x00404000 + of_nat i)"
    using paged_memory_next by (auto simp: KERNBASE_def PTE_W_def PTE_U_def d)
  from t(2) [rule_format, of "0x234"] have "mmu (mem t) 0x00401000 0x1234 = Some 0x80404234"
    by (simp add: P2V_def KERNBASE_def)
  with t(1) show ?thesis by blast
qed

end
