(* ===== verification/File.thy ===== *)
theory File
  imports Vm
begin

text \<open>
  Pipes and open files: \<open>pipe.c\<close> and \<open>file.c\<close>. A pipe is named by the address of the page that holds it;
  its fields are the record \<open>pipes s a\<close>. A file is its index in \<open>ftable\<close>. As in \<open>readi\<close> and \<open>writei\<close>, bytes
  read are part of the result and bytes to be written are an argument. A call of \<open>sleep\<close> ends in a switch
  to the scheduler; \<open>pipewrite_resume\<close> and \<open>piperead_resume\<close> are what follows when the process runs again.
\<close>

section \<open>Pipes\<close>

definition PIPESIZE :: nat where "PIPESIZE = 512"

interpretation pipe_ring: ring_buffer PIPESIZE
  by unfold_locales (simp_all add: PIPESIZE_def)

definition upd_pipe :: "u32 \<Rightarrow> (pipe \<Rightarrow> pipe) \<Rightarrow> kstate \<Rightarrow> kstate" where
  "upd_pipe a f s = s\<lparr>pipes := (pipes s)(a := f (pipes s a))\<rparr>"

definition my_killed :: "bool kern" where
  "my_killed = kbind myproc (\<lambda>po. kbind (null_check po) (\<lambda>p. kget (\<lambda>s. p_killed (proc_at s p))))"

definition pipeclose :: "u32 \<Rightarrow> bool \<Rightarrow> unit kern" where
  "pipeclose a writable =
     kseq (acquire (LPipe a)) (
     kseq (if writable then
             kseq (kmod (upd_pipe a (\<lambda>p. p\<lparr>pi_writeopen := False\<rparr>))) (wakeup (ChPipeRead a))
           else
             kseq (kmod (upd_pipe a (\<lambda>p. p\<lparr>pi_readopen := False\<rparr>))) (wakeup (ChPipeWrite a))) (
     kbind (kget (\<lambda>s. pipes s a)) (\<lambda>p.
     if \<not> pi_readopen p \<and> \<not> pi_writeopen p then kseq (release (LPipe a)) (kfree a)
     else release (LPipe a))))"

definition pipe_put :: "u8 \<Rightarrow> pipe \<Rightarrow> pipe" where
  "pipe_put c p =
     p\<lparr>pi_data := (pi_data p)[rb_slot PIPESIZE (pi_nwrite p) := c], pi_nwrite := pi_nwrite p + 1\<rparr>"

text \<open>The loop of \<open>pipewrite\<close> with the lock of the pipe held; the result tells whether all bytes were written.\<close>

primrec pipewrite_loop :: "u32 \<Rightarrow> u8 list \<Rightarrow> bool kern" where
  "pipewrite_loop a [] = kret True"
| "pipewrite_loop a (c # cs) =
     kbind (kget (\<lambda>s. pipes s a)) (\<lambda>p.
     if pi_nwrite p = pi_nread p + of_nat PIPESIZE then
       kbind (if pi_readopen p then my_killed else kret True) (\<lambda>stop.
       if stop then kret False
       else
         kseq (wakeup (ChPipeRead a)) (
         kseq (sleep (ChPipeWrite a) (LPipe a))
         (kstop (Fault ''sleep''))))
     else kseq (kmod (upd_pipe a (pipe_put c))) (pipewrite_loop a cs))"

definition pipewrite_end :: "u32 \<Rightarrow> nat \<Rightarrow> bool \<Rightarrow> int kern" where
  "pipewrite_end a n ok =
     (if ok then kseq (wakeup (ChPipeRead a)) (kseq (release (LPipe a)) (kret (int n)))
      else kseq (release (LPipe a)) (kret (- 1)))"

definition pipewrite :: "u32 \<Rightarrow> u8 list \<Rightarrow> int kern" where
  "pipewrite a bs =
     kseq (acquire (LPipe a)) (kbind (pipewrite_loop a bs) (pipewrite_end a (length bs)))"

text \<open>A writer of \<open>n\<close> bytes resumed with the bytes \<open>rest\<close> still to write.\<close>

definition pipewrite_resume :: "bool \<Rightarrow> nat \<Rightarrow> u32 \<Rightarrow> nat \<Rightarrow> u8 list \<Rightarrow> int kern" where
  "pipewrite_resume ie p a n rest =
     kseq (sleep_resume ie p (LPipe a)) (kbind (pipewrite_loop a rest) (pipewrite_end a n))"

primrec piperead_copy :: "nat \<Rightarrow> pipe \<Rightarrow> u8 list \<times> pipe" where
  "piperead_copy 0 p = ([], p)"
| "piperead_copy (Suc n) p =
     (if pi_nread p = pi_nwrite p then ([], p)
      else
        let (bs, q) = piperead_copy n (p\<lparr>pi_nread := pi_nread p + 1\<rparr>)
        in (pi_data p ! rb_slot PIPESIZE (pi_nread p) # bs, q))"

definition piperead_body :: "u32 \<Rightarrow> nat \<Rightarrow> (int \<times> u8 list) kern" where
  "piperead_body a n =
     kbind (kget (\<lambda>s. pipes s a)) (\<lambda>p.
     if pi_nread p = pi_nwrite p \<and> pi_writeopen p then
       kbind my_killed (\<lambda>killed.
       if killed then kseq (release (LPipe a)) (kret (- 1, []))
       else kseq (sleep (ChPipeRead a) (LPipe a)) (kstop (Fault ''sleep'')))
     else
       let (bs, q) = piperead_copy n p in
       kseq (kmod (upd_pipe a (\<lambda>_. q))) (
       kseq (wakeup (ChPipeWrite a)) (
       kseq (release (LPipe a))
       (kret (int (length bs), bs)))))"

definition piperead :: "u32 \<Rightarrow> nat \<Rightarrow> (int \<times> u8 list) kern" where
  "piperead a n = kseq (acquire (LPipe a)) (piperead_body a n)"

definition piperead_resume :: "bool \<Rightarrow> nat \<Rightarrow> u32 \<Rightarrow> nat \<Rightarrow> (int \<times> u8 list) kern" where
  "piperead_resume ie p a n = kseq (sleep_resume ie p (LPipe a)) (piperead_body a n)"

section \<open>Open files\<close>

definition fileinit :: "unit kern" where
  "fileinit = initlock LFtable ''ftable''"

definition filealloc :: "nat option kern" where
  "filealloc =
     kseq (acquire LFtable) (
     kbind (kget (\<lambda>s. find_index (\<lambda>f. f_ref f = 0) (files s))) (\<lambda>r.
     case r of
       None \<Rightarrow> kseq (release LFtable) (kret None)
     | Some f \<Rightarrow>
         kseq (kmod (upd_file f (\<lambda>x. x\<lparr>f_ref := 1\<rparr>))) (
         kseq (release LFtable)
         (kret (Some f)))))"

definition filedup :: "nat \<Rightarrow> nat kern" where
  "filedup f =
     kseq (acquire LFtable) (
     kbind (kget (\<lambda>s. f_ref (files s ! f))) (\<lambda>r.
     if r < 1 then panic ''filedup''
     else
       kseq (kmod (upd_file f (\<lambda>x. x\<lparr>f_ref := f_ref x + 1\<rparr>))) (
       kseq (release LFtable)
       (kret f))))"

definition fileclose :: "nat \<Rightarrow> unit kern" where
  "fileclose f =
     kseq (acquire LFtable) (
     kbind (kget (\<lambda>s. f_ref (files s ! f))) (\<lambda>r.
     if r < 1 then panic ''fileclose''
     else
       kseq (kmod (upd_file f (\<lambda>x. x\<lparr>f_ref := f_ref x - 1\<rparr>))) (
       if 0 < r - 1 then release LFtable
       else
         kbind (kget (\<lambda>s. files s ! f)) (\<lambda>ff.
         kseq (kmod (upd_file f (\<lambda>x. x\<lparr>f_ref := 0, f_type := FD_NONE\<rparr>))) (
         kseq (release LFtable) (
         case f_type ff of
           FD_PIPE \<Rightarrow> pipeclose (f_pipe ff) (f_writable ff)
         | FD_INODE \<Rightarrow>
             kseq begin_op (
             kseq (kbind (null_check (f_ip ff)) iput)
             end_op)
         | FD_NONE \<Rightarrow> kret ()))))))"

definition filestat :: "nat \<Rightarrow> stat option kern" where
  "filestat f =
     kbind (kget (\<lambda>s. files s ! f)) (\<lambda>x.
     if f_type x = FD_INODE then
       kseq (ilock (f_ip x)) (
       kbind (kbind (null_check (f_ip x)) stati) (\<lambda>st.
       kseq (iunlock (f_ip x))
       (kret (Some st))))
     else kret None)"

definition fileread :: "nat \<Rightarrow> u32 \<Rightarrow> (int \<times> u8 list) kern" where
  "fileread f n =
     kbind (kget (\<lambda>s. files s ! f)) (\<lambda>x.
     if \<not> f_readable x then kret (- 1, [])
     else case f_type x of
       FD_PIPE \<Rightarrow> piperead (f_pipe x) (nat (sint n))
     | FD_INODE \<Rightarrow>
         kseq (ilock (f_ip x)) (
         kbind (null_check (f_ip x)) (\<lambda>ip.
         kbind (kget (\<lambda>s. f_off (files s ! f))) (\<lambda>off.
         kbind (readi ip off n) (\<lambda>(r, bs).
         kseq (kwhen (0 < r) (kmod (upd_file f (\<lambda>x. x\<lparr>f_off := f_off x + word_of_int r\<rparr>)))) (
         kseq (iunlock (f_ip x))
         (kret (r, bs)))))))
     | FD_NONE \<Rightarrow> panic ''fileread'')"

text \<open>The largest number of bytes that \<open>filewrite\<close> writes in one transaction.\<close>

definition filewrite_max :: nat where
  "filewrite_max = ((MAXOPBLOCKS - 1 - 1 - 2) div 2) * 512"

text \<open>
  The loop of \<open>filewrite\<close> on the bytes that are left; a round that neither fails nor panics consumes at
  least one of them. The result tells whether all were written.
\<close>

primrec filewrite_loop :: "nat \<Rightarrow> nat \<Rightarrow> nat \<Rightarrow> u8 list \<Rightarrow> bool kern" where
  "filewrite_loop 0 f ip bs = kret True"
| "filewrite_loop (Suc k) f ip bs =
     (if bs = [] then kret True
      else
        let n1 = min (length bs) filewrite_max in
        kseq begin_op (
        kseq (ilock (Some ip)) (
        kbind (kget (\<lambda>s. f_off (files s ! f))) (\<lambda>off.
        kbind (writei ip (take n1 bs) off) (\<lambda>r.
        kseq (kwhen (0 < r) (kmod (upd_file f (\<lambda>x. x\<lparr>f_off := f_off x + word_of_int r\<rparr>)))) (
        kseq (iunlock (Some ip)) (
        kseq end_op (
        if r < 0 then kret False
        else if r \<noteq> int n1 then panic ''short filewrite''
        else filewrite_loop k f ip (drop n1 bs)))))))))"

definition filewrite :: "nat \<Rightarrow> u8 list \<Rightarrow> int kern" where
  "filewrite f bs =
     kbind (kget (\<lambda>s. files s ! f)) (\<lambda>x.
     if \<not> f_writable x then kret (- 1)
     else case f_type x of
       FD_PIPE \<Rightarrow> pipewrite (f_pipe x) bs
     | FD_INODE \<Rightarrow>
         kbind (if bs = [] then kret True
                else kbind (null_check (f_ip x)) (\<lambda>ip. filewrite_loop (length bs) f ip bs)) (\<lambda>ok.
         kret (if ok then int (length bs) else - 1))
     | FD_NONE \<Rightarrow> panic ''filewrite'')"

section \<open>Creating a pipe\<close>

text \<open>The label \<open>bad\<close> of \<open>pipealloc\<close>; the page \<open>p\<close> is null whenever it is reached.\<close>

definition pipealloc_bad :: "nat option \<Rightarrow> nat option \<Rightarrow> (nat \<times> nat) option kern" where
  "pipealloc_bad f0 f1 =
     kseq (case f0 of None \<Rightarrow> kret () | Some f \<Rightarrow> fileclose f) (
     kseq (case f1 of None \<Rightarrow> kret () | Some f \<Rightarrow> fileclose f)
     (kret None))"

definition pipealloc :: "(nat \<times> nat) option kern" where
  "pipealloc =
     kbind filealloc (\<lambda>r0.
     case r0 of None \<Rightarrow> pipealloc_bad None None
     | Some f0 \<Rightarrow>
     kbind filealloc (\<lambda>r1.
     case r1 of None \<Rightarrow> pipealloc_bad (Some f0) None
     | Some f1 \<Rightarrow>
     kbind kalloc (\<lambda>p.
     if p = 0 then pipealloc_bad (Some f0) (Some f1)
     else
       kseq (kmod (upd_pipe p (\<lambda>x. x\<lparr>pi_readopen := True, pi_writeopen := True, pi_nwrite := 0, pi_nread := 0\<rparr>))) (
       kseq (initlock (LPipe p) ''pipe'') (
       kseq (kmod (upd_file f0 (\<lambda>x. x\<lparr>f_type := FD_PIPE, f_readable := True, f_writable := False, f_pipe := p\<rparr>))) (
       kseq (kmod (upd_file f1 (\<lambda>x. x\<lparr>f_type := FD_PIPE, f_readable := False, f_writable := True, f_pipe := p\<rparr>)))
       (kret (Some (f0, f1)))))))))"

section \<open>Pipes as queues of bytes\<close>

definition pipe_queue :: "pipe \<Rightarrow> u8 list" where
  "pipe_queue p = rb_items PIPESIZE (pi_data p) (pi_nread p) (pi_nwrite p)"

definition pipe_ok :: "pipe \<Rightarrow> bool" where
  "pipe_ok p \<longleftrightarrow> rb_ok PIPESIZE (pi_data p) (pi_nread p) (pi_nwrite p)"

lemma length_pipe_queue: "length (pipe_queue p) = unat (pi_nwrite p - pi_nread p)"
  by (simp add: pipe_queue_def)

lemma pipe_full_iff: "pi_nwrite p = pi_nread p + of_nat PIPESIZE \<longleftrightarrow> length (pipe_queue p) = PIPESIZE"
proof -
  have "pi_nwrite p = pi_nread p + of_nat PIPESIZE \<longleftrightarrow> pi_nwrite p - pi_nread p = of_nat PIPESIZE"
    by (simp add: algebra_simps)
  also have "\<dots> \<longleftrightarrow> unat (pi_nwrite p - pi_nread p) = PIPESIZE"
    by (rule unat_eq_of_nat [symmetric]) (simp add: PIPESIZE_def)
  finally show ?thesis by (simp add: length_pipe_queue)
qed

lemma pipe_put_queue:
  assumes "pipe_ok p" and "length (pipe_queue p) < PIPESIZE"
  shows "pipe_queue (pipe_put c p) = pipe_queue p @ [c]" and "pipe_ok (pipe_put c p)"
  using assms pipe_ring.items_push [of "pi_data p" "pi_nread p" "pi_nwrite p" c]
  by (simp_all add: pipe_queue_def pipe_ok_def pipe_put_def)

lemma pipe_puts_queue:
  assumes "pipe_ok p" and "length (pipe_queue p) + length bs \<le> PIPESIZE"
  shows "pipe_queue (fold pipe_put bs p) = pipe_queue p @ bs \<and> pipe_ok (fold pipe_put bs p)"
  using assms
proof (induction bs arbitrary: p)
  case (Cons b bs)
  from Cons.prems pipe_put_queue [of p b] Cons.IH [of "pipe_put b p"] show ?case by simp
qed simp

lemma pipe_empty_iff: "pi_nread p = pi_nwrite p \<longleftrightarrow> pipe_queue p = []"
proof -
  have "pipe_queue p = [] \<longleftrightarrow> pi_nwrite p - pi_nread p = 0"
    by (simp only: length_pipe_queue [symmetric] length_0_conv [symmetric] unat_eq_0 [symmetric])
  then show ?thesis by auto
qed

lemma pipe_pop:
  assumes "pipe_ok p" and "pi_nread p \<noteq> pi_nwrite p"
  shows "pipe_queue p = pi_data p ! rb_slot PIPESIZE (pi_nread p) # pipe_queue (p\<lparr>pi_nread := pi_nread p + 1\<rparr>)"
    and "pipe_ok (p\<lparr>pi_nread := pi_nread p + 1\<rparr>)"
  using pipe_ring.items_pop [of "pi_data p" "pi_nread p" "pi_nwrite p"] assms
  by (simp_all add: pipe_queue_def pipe_ok_def)

lemma piperead_copy_queue:
  "pipe_ok p \<Longrightarrow> \<exists>r. piperead_copy n p = (take n (pipe_queue p), p\<lparr>pi_nread := r\<rparr>) \<and>
     pipe_queue (p\<lparr>pi_nread := r\<rparr>) = drop n (pipe_queue p) \<and> pipe_ok (p\<lparr>pi_nread := r\<rparr>)"
proof (induction n arbitrary: p)
  case 0
  then show ?case by (intro exI [of _ "pi_nread p"]) simp
next
  case (Suc n)
  show ?case
  proof (cases "pi_nread p = pi_nwrite p")
    case True
    with Suc.prems show ?thesis by (intro exI [of _ "pi_nread p"]) (simp add: pipe_empty_iff)
  next
    case False
    note pop = pipe_pop [OF Suc.prems False]
    obtain r where "piperead_copy n (p\<lparr>pi_nread := pi_nread p + 1\<rparr>) =
        (take n (pipe_queue (p\<lparr>pi_nread := pi_nread p + 1\<rparr>)), p\<lparr>pi_nread := r\<rparr>)"
      "pipe_queue (p\<lparr>pi_nread := r\<rparr>) = drop n (pipe_queue (p\<lparr>pi_nread := pi_nread p + 1\<rparr>))"
      "pipe_ok (p\<lparr>pi_nread := r\<rparr>)"
      using Suc.IH [OF pop(2)] by auto
    with False pop(1) show ?thesis by (intro exI [of _ r]) simp
  qed
qed

lemma upd_pipe_hw [simp]: "upd_pipe a f (s\<lparr>hw := h\<rparr>) = (upd_pipe a f s)\<lparr>hw := h\<rparr>"
  by (simp add: upd_pipe_def)

lemma upd_pipe_at [simp]: "pipes (upd_pipe a f s) a = f (pipes s a)"
  by (simp add: upd_pipe_def)

lemma upd_pipe_pt [simp]: "pt (upd_pipe a f s) = pt s"
  by (simp add: upd_pipe_def)

lemma upd_pipe_comp: "upd_pipe a f (upd_pipe a g s) = upd_pipe a (f \<circ> g) s"
  by (simp add: upd_pipe_def)

text \<open>The loop of \<open>pipewrite\<close> puts bytes into the pipe as long as there is room.\<close>

lemma pipewrite_loop_prefix:
  assumes "pipe_ok (pipes s a)" and "length (pipe_queue (pipes s a)) + length bs \<le> PIPESIZE"
    and "kexec (owns H th) (upd_pipe a (fold pipe_put bs) s) (pipewrite_loop a cs) Q"
  shows "kexec (owns H th) s (pipewrite_loop a (bs @ cs)) Q"
  using assms
proof (induction bs arbitrary: s)
  case Nil
  then show ?case by (simp add: upd_pipe_def)
next
  case (Cons b bs)
  let ?p = "pipes s a"
  have room: "length (pipe_queue ?p) < PIPESIZE" using Cons.prems(2) by simp
  have "kexec (owns H th) (upd_pipe a (pipe_put b) s) (pipewrite_loop a (bs @ cs)) Q"
    using Cons.prems pipe_put_queue [OF Cons.prems(1) room, of b]
    by (intro Cons.IH) (simp_all add: upd_pipe_comp comp_def)
  then show ?case
    unfolding append_Cons pipewrite_loop.simps
    by (rule_tac get_owns [where v = ?p]) (use room pipe_full_iff [of ?p] in \<open>auto intro: mod_owns\<close>)
qed

lemma pipewrite_owns:
  assumes "pipe_ok (pipes s a)" and "length (pipe_queue (pipes s a)) + length bs \<le> PIPESIZE"
  shows "krun (owns [] th) s (pipewrite a bs) (int (length bs)) (owns [] th)
    ((upd_pipe a (fold pipe_put bs) s)\<lparr>pt := woken (ChPipeRead a) (pt s)\<rparr>)"
proof -
  let ?H = "owns [LPipe a] th" and ?s = "upd_pipe a (fold pipe_put bs) s"
  have loop: "krun ?H s (pipewrite_loop a (bs @ [])) True ?H ?s"
    by (rule pipewrite_loop_prefix [OF assms]) (simp add: kexec_kret)
  have "krun ?H ?s (pipewrite_end a (length bs) True) (int (length bs)) (owns [] th) (?s\<lparr>pt := woken (ChPipeRead a) (pt ?s)\<rparr>)"
    unfolding pipewrite_end_def if_True
    by (rule kexec_kseq, rule wakeup_owns, simp, rule kexec_kseq, rule release_head_owns, rule kexec_kret)
  with loop show ?thesis
    unfolding pipewrite_def append_Nil2 by (auto intro!: kexec_kseq acquire_owns intro: kexec_kbind)
qed

lemma my_killed_owns [krule]: "krun (owns H (Some p, b)) s my_killed (p_killed (proc_at s p)) (owns H (Some p, b)) s"
  unfolding my_killed_def
  by (rule kexec_kbind, rule myproc_owns, unfold fst_conv, rule kexec_kbind, rule null_check_owns, rule kget_owns) simp

lemma switches_kseq: "kexec R s m (switches R' s') \<Longrightarrow> kexec R s (kseq m n) (switches R' s')"
  by (auto simp: kexec_def switches_def)

lemma switches_kbind: "kexec R s m (switches R' s') \<Longrightarrow> kexec R s (kbind m f) (switches R' s')"
  by (auto simp: kexec_def switches_def)

text \<open>A writer that finds the pipe full wakes the readers and sleeps; the bytes before are in the pipe.\<close>

lemma pipewrite_full_owns:
  assumes "pipe_ok (pipes s a)" and "length (pipe_queue (pipes s a)) + length bs = PIPESIZE" and "cs \<noteq> []"
    and "pi_readopen (pipes s a)" and "\<not> p_killed (proc_at s p)" and "p < length (procs (pt s))"
  shows "kexec (owns [] (Some p, b)) s (pipewrite a (bs @ cs)) (switches (owns [LPtable] (Some p, b))
    ((upd_pipe a (fold pipe_put bs) s)\<lparr>pt := slept p (ChPipeWrite a) (woken (ChPipeRead a) (pt s))\<rparr>))"
proof -
  let ?p = "pipes s a" and ?s = "upd_pipe a (fold pipe_put bs) s" and ?th = "(Some p, b)"
  let ?w = "?s\<lparr>pt := woken (ChPipeRead a) (pt s)\<rparr>"
  have room: "length (pipe_queue ?p) + length bs \<le> PIPESIZE" using assms(2) by simp
  have q: "length (pipe_queue (fold pipe_put bs ?p)) = PIPESIZE" using pipe_puts_queue [OF assms(1) room] assms(2) by simp
  have ro: "pi_readopen (fold pipe_put bs ?p)" using assms(4) by (induction bs arbitrary: rule: rev_induct) (simp_all add: pipe_put_def)
  obtain c ds where cs: "cs = c # ds" using assms(3) by (cases cs) auto
  have slp: "kexec (owns [LPipe a] ?th) ?w (sleep (ChPipeWrite a) (LPipe a)) (switches (owns [LPtable] ?th)
      (?w\<lparr>pt := slept p (ChPipeWrite a) (pt ?w)\<rparr>))"
    by (rule sleep_owns) (use assms(6) in simp_all)
  have "kexec (owns [LPipe a] ?th) ?s (kseq (wakeup (ChPipeRead a)) (kseq (sleep (ChPipeWrite a) (LPipe a)) (kstop (Fault ''sleep''))))
      (switches (owns [LPtable] ?th) (?s\<lparr>pt := slept p (ChPipeWrite a) (woken (ChPipeRead a) (pt s))\<rparr>))"
    by (rule kexec_kseq, rule wakeup_owns, simp, rule switches_kseq) (use slp in simp)
  then have "kexec (owns [LPipe a] ?th) ?s (pipewrite_loop a cs)
      (switches (owns [LPtable] ?th) (?s\<lparr>pt := slept p (ChPipeWrite a) (woken (ChPipeRead a) (pt s))\<rparr>))"
    unfolding cs pipewrite_loop.simps
    by (rule_tac get_owns [where v = "pipes ?s a"])
      (use q ro assms(5) in \<open>auto simp: pipe_full_iff intro!: kexec_kbind my_killed_owns\<close>)
  then have "kexec (owns [LPipe a] ?th) s (pipewrite_loop a (bs @ cs))
      (switches (owns [LPtable] ?th) (?s\<lparr>pt := slept p (ChPipeWrite a) (woken (ChPipeRead a) (pt s))\<rparr>))"
    by (rule pipewrite_loop_prefix [OF assms(1) room])
  then show ?thesis
    unfolding pipewrite_def by (rule_tac kexec_kseq, rule_tac acquire_owns, simp) (rule switches_kbind)
qed

lemma piperead_owns:
  assumes ok: "pipe_ok (pipes s a)" and ne: "pipe_queue (pipes s a) \<noteq> [] \<or> \<not> pi_writeopen (pipes s a)"
  obtains r where "krun (owns [] th) s (piperead a n) (int (length (take n (pipe_queue (pipes s a)))), take n (pipe_queue (pipes s a)))
      (owns [] th) ((upd_pipe a (\<lambda>p. p\<lparr>pi_nread := r\<rparr>) s)\<lparr>pt := woken (ChPipeWrite a) (pt s)\<rparr>)"
    and "pipe_ok ((pipes s a)\<lparr>pi_nread := r\<rparr>)"
    and "pipe_queue ((pipes s a)\<lparr>pi_nread := r\<rparr>) = drop n (pipe_queue (pipes s a))"
proof -
  let ?p = "pipes s a" and ?H = "owns [LPipe a] th" and ?bs = "take n (pipe_queue (pipes s a))"
  obtain r where r: "piperead_copy n ?p = (?bs, ?p\<lparr>pi_nread := r\<rparr>)"
    "pipe_queue (?p\<lparr>pi_nread := r\<rparr>) = drop n (pipe_queue ?p)" "pipe_ok (?p\<lparr>pi_nread := r\<rparr>)"
    using piperead_copy_queue [OF ok] by blast
  let ?s = "upd_pipe a (\<lambda>_. ?p\<lparr>pi_nread := r\<rparr>) s"
  have s: "?s = upd_pipe a (\<lambda>p. p\<lparr>pi_nread := r\<rparr>) s" by (simp add: upd_pipe_def)
  have "krun ?H s (kseq (kmod (upd_pipe a (\<lambda>_. ?p\<lparr>pi_nread := r\<rparr>))) (kseq (wakeup (ChPipeWrite a)) (
      kseq (release (LPipe a)) (kret (int (length ?bs), ?bs))))) (int (length ?bs), ?bs)
      (owns [] th) (?s\<lparr>pt := woken (ChPipeWrite a) (pt ?s)\<rparr>)"
    by (rule kexec_kseq, rule kmod_self_owns, simp, rule kexec_kseq, rule wakeup_owns, simp, rule kexec_kseq,
        rule release_head_owns, rule kexec_kret)
  then have "krun ?H s (piperead_body a n) (int (length ?bs), ?bs) (owns [] th) (?s\<lparr>pt := woken (ChPipeWrite a) (pt s)\<rparr>)"
    unfolding piperead_body_def
    by (rule_tac get_owns [where v = ?p]) (use ne r(1) pipe_empty_iff [of ?p] in auto)
  then have "krun (owns [] th) s (piperead a n) (int (length ?bs), ?bs) (owns [] th) (?s\<lparr>pt := woken (ChPipeWrite a) (pt s)\<rparr>)"
    unfolding piperead_def by (rule_tac kexec_kseq, rule_tac acquire_owns) simp
  with that r(2,3) s show thesis by metis
qed

text \<open>A sequence of reads and writes, and what a bounded queue of bytes makes of it.\<close>

datatype pipe_op = PWrite "u8 list" | PRead nat

fun pipe_run :: "u32 \<Rightarrow> pipe_op list \<Rightarrow> u8 list kern" where
  "pipe_run a [] = kret []"
| "pipe_run a (PWrite bs # ops) = kseq (pipewrite a bs) (pipe_run a ops)"
| "pipe_run a (PRead n # ops) =
     kbind (piperead a n) (\<lambda>(r, bs). kbind (pipe_run a ops) (\<lambda>rest. kret (bs @ rest)))"

fun queue_run :: "u8 list \<Rightarrow> pipe_op list \<Rightarrow> (u8 list \<times> u8 list) option" where
  "queue_run q [] = Some ([], q)"
| "queue_run q (PWrite bs # ops) = (if length q + length bs \<le> PIPESIZE then queue_run (q @ bs) ops else None)"
| "queue_run q (PRead n # ops) =
     (if q = [] then None else map_option (\<lambda>(rd, q'). (take n q @ rd, q')) (queue_run (drop n q) ops))"

fun written :: "pipe_op list \<Rightarrow> u8 list" where
  "written [] = []"
| "written (PWrite bs # ops) = bs @ written ops"
| "written (PRead n # ops) = written ops"

lemma queue_run_stream: "queue_run q ops = Some (rd, q') \<Longrightarrow> rd @ q' = q @ written ops"
  by (induction q ops arbitrary: rd q' rule: queue_run.induct) (auto split: if_splits)

lemma pipe_run_refines:
  "pipe_ok (pipes s a) \<Longrightarrow> queue_run (pipe_queue (pipes s a)) ops = Some (rd, q') \<Longrightarrow>
    \<exists>s'. krun (owns [] th) s (pipe_run a ops) rd (owns [] th) s' \<and> pipe_ok (pipes s' a) \<and> pipe_queue (pipes s' a) = q'"
proof (induction ops arbitrary: s rd)
  case Nil
  have "krun (owns [] th) s (pipe_run a []) [] (owns [] th) s" unfolding pipe_run.simps by (rule kexec_kret)
  moreover have "rd = []" and "q' = pipe_queue (pipes s a)" using Nil by simp_all
  ultimately show ?case using Nil(1) by blast
next
  case (Cons x ops)
  let ?q = "pipe_queue (pipes s a)"
  show ?case
  proof (cases x)
    case (PWrite bs)
    let ?s = "(upd_pipe a (fold pipe_put bs) s)\<lparr>pt := woken (ChPipeRead a) (pt s)\<rparr>"
    have room: "length ?q + length bs \<le> PIPESIZE" and run: "queue_run (?q @ bs) ops = Some (rd, q')"
      using Cons.prems(2) PWrite by (auto split: if_splits)
    with pipe_puts_queue [OF Cons.prems(1) room] Cons.IH [of ?s rd] obtain s'
      where "krun (owns [] th) ?s (pipe_run a ops) rd (owns [] th) s'" "pipe_ok (pipes s' a)" "pipe_queue (pipes s' a) = q'"
      by auto
    moreover have "krun (owns [] th) s (pipe_run a (PWrite bs # ops)) rd (owns [] th) s'"
      unfolding pipe_run.simps by (rule kexec_kseq [OF pipewrite_owns [OF Cons.prems(1) room]]) fact
    ultimately show ?thesis using PWrite by blast
  next
    case (PRead n)
    have ne: "?q \<noteq> []" using Cons.prems(2) PRead by (auto split: if_splits)
    then obtain rd' where run: "queue_run (drop n ?q) ops = Some (rd', q')" and rd: "rd = take n ?q @ rd'"
      using Cons.prems(2) PRead by auto
    obtain r where r: "krun (owns [] th) s (piperead a n) (int (length (take n ?q)), take n ?q)
        (owns [] th) ((upd_pipe a (\<lambda>p. p\<lparr>pi_nread := r\<rparr>) s)\<lparr>pt := woken (ChPipeWrite a) (pt s)\<rparr>)"
      "pipe_ok ((pipes s a)\<lparr>pi_nread := r\<rparr>)" "pipe_queue ((pipes s a)\<lparr>pi_nread := r\<rparr>) = drop n ?q"
      by (rule piperead_owns [OF Cons.prems(1) disjI1 [OF ne]])
    let ?s = "(upd_pipe a (\<lambda>p. p\<lparr>pi_nread := r\<rparr>) s)\<lparr>pt := woken (ChPipeWrite a) (pt s)\<rparr>"
    from Cons.IH [of ?s rd'] run r(2,3) obtain s'
      where s': "krun (owns [] th) ?s (pipe_run a ops) rd' (owns [] th) s'" "pipe_ok (pipes s' a)" "pipe_queue (pipes s' a) = q'"
      by auto
    have "krun (owns [] th) s (pipe_run a (PRead n # ops)) rd (owns [] th) s'"
      unfolding pipe_run.simps
      by (rule kexec_kbind, rule r(1), unfold prod.case, rule kexec_kbind, rule s'(1)) (simp add: rd kexec_kret)
    with PRead s'(2,3) show ?thesis by auto
  qed
qed

text \<open>
  C11. A pipe is a first-in first-out queue of at most 512 bytes: for every sequence of reads and writes that such
  a queue accepts without waiting, the system returns from every call, the bytes read are those that the queue
  delivers, and the pipe holds what the queue holds, also when the 32-bit counters wrap around. In particular no
  byte is lost, duplicated or reordered.
\<close>

theorem pipe_stream:
  assumes "crit (hw s) [] th" and "pipe_ok (pipes s a)"
    and "queue_run (pipe_queue (pipes s a)) ops = Some (rd, q')"
  shows "\<exists>t. pipe_run a ops s = Inr (rd, t) \<and> pipe_ok (pipes t a) \<and> pipe_queue (pipes t a) = q' \<and>
    rd @ pipe_queue (pipes t a) = pipe_queue (pipes s a) @ written ops"
proof -
  obtain s' where s': "krun (owns [] th) s (pipe_run a ops) rd (owns [] th) s'" "pipe_ok (pipes s' a)" "pipe_queue (pipes s' a) = q'"
    using pipe_run_refines [OF assms(2,3)] by blast
  obtain t where t: "pipe_run a ops s = Inr (rd, t)" "owns [] th s' t"
    using krunE [OF s'(1) owns_self [OF assms(1)]] .
  then have "pipes t = pipes s'" by (auto simp: owns_def)
  with t s' queue_run_stream [OF assms(3)] show ?thesis by auto
qed

text \<open>A pipe whose counters are about to wrap around.\<close>

definition wrap_pipe :: pipe where
  "wrap_pipe = zero_pipe\<lparr>pi_nread := 0xFFFFFFFF, pi_nwrite := 0xFFFFFFFF, pi_readopen := True, pi_writeopen := True\<rparr>"

lemma wrap_pipe_queue: "pipe_ok wrap_pipe" "pipe_queue wrap_pipe = []"
  by (simp_all add: wrap_pipe_def pipe_ok_def pipe_queue_def rb_ok_def zero_pipe_def PIPESIZE_def)

theorem pipe_stream_witness:
  "\<exists>t. pipe_run 0x80200000 [PWrite [1, 2, 3], PRead 2, PWrite [4], PRead 5]
     (zero_kernel\<lparr>pipes := (\<lambda>_. wrap_pipe)\<rparr>) = Inr ([1, 2, 3, 4], t)"
  using pipe_stream [of "zero_kernel\<lparr>pipes := (\<lambda>_. wrap_pipe)\<rparr>" "(Some 0, True)" "0x80200000"
      "[PWrite [1, 2, 3], PRead 2, PWrite [4], PRead 5]" "[1, 2, 3, 4]" "[]"] zero_kernel_crit wrap_pipe_queue
  by (simp add: PIPESIZE_def del: pipe_run.simps) blast

text \<open>
  C12. A writer that fills the pipe up goes to sleep instead of overwriting unread bytes: exactly the bytes that
  fit are stored, every reader asleep on the pipe becomes runnable, and the writer sleeps on the channel that
  \<open>piperead\<close> wakes up.
\<close>

theorem pipewrite_waits:
  assumes "crit (hw s) [] (Some p, b)" and "pipe_ok (pipes s a)" and "pi_readopen (pipes s a)"
    and "length (pipe_queue (pipes s a)) + length bs = PIPESIZE" and "cs \<noteq> []"
    and "\<not> p_killed (proc_at s p)" and "p < length (procs (pt s))"
  shows "\<exists>t. pipewrite a (bs @ cs) s = Inl (Switch t) \<and> pipe_ok (pipes t a) \<and>
    pipe_queue (pipes t a) = pipe_queue (pipes s a) @ bs \<and>
    p_state (proc_at t p) = SLEEPING \<and> p_chan (proc_at t p) = Some (ChPipeWrite a) \<and>
    (\<forall>r < length (procs (pt s)). r \<noteq> p \<longrightarrow> p_state (proc_at s r) = SLEEPING \<longrightarrow>
      p_chan (proc_at s r) = Some (ChPipeRead a) \<longrightarrow> p_state (proc_at t r) = RUNNABLE)"
proof -
  obtain t where t: "pipewrite a (bs @ cs) s = Inl (Switch t)" "owns [LPtable] (Some p, b)
    ((upd_pipe a (fold pipe_put bs) s)\<lparr>pt := slept p (ChPipeWrite a) (woken (ChPipeRead a) (pt s))\<rparr>) t"
    using kexecD [OF pipewrite_full_owns [OF assms(2,4,5,3,6,7)] owns_self [OF assms(1)]] by (auto simp: switches_def)
  have pi: "pipes t a = fold pipe_put bs (pipes s a)" and pt: "pt t = slept p (ChPipeWrite a) (woken (ChPipeRead a) (pt s))"
    using t(2) by (auto simp: owns_def)
  show ?thesis
    using t(1) pi pt pipe_puts_queue [OF assms(2), of bs] assms(4,7) by (auto simp: wakeup_proc_def)
qed

lemma zero_kernel_procs: "length (procs (pt zero_kernel)) = NPROC" "proc_at zero_kernel 0 = first_proc"
  by (simp_all add: zero_kernel_def NPROC_def)

theorem pipewrite_waits_witness:
  "\<exists>t. pipewrite 0x80200000 (replicate 512 7 @ [8]) (zero_kernel\<lparr>pipes := (\<lambda>_. wrap_pipe)\<rparr>) = Inl (Switch t) \<and>
     pipe_queue (pipes t 0x80200000) = replicate 512 7"
proof -
  let ?s = "zero_kernel\<lparr>pipes := (\<lambda>_. wrap_pipe)\<rparr>"
  have "pi_readopen wrap_pipe" "\<not> p_killed first_proc" by (simp_all add: wrap_pipe_def first_proc_def zero_proc_def)
  then show ?thesis
    using pipewrite_waits [of ?s 0 True "0x80200000" "replicate 512 7" "[8]"]
      zero_kernel_crit wrap_pipe_queue zero_kernel_procs
    by (auto simp: PIPESIZE_def NPROC_def)
qed

text \<open>
  C13. A write that does not fit into the pipe fails with -1 when nobody can read any more or the writer has been
  killed; the bytes that fitted stay in the pipe and the lock is free again.
\<close>

theorem pipewrite_broken:
  assumes "crit (hw s) [] (Some p, b)" and "pipe_ok (pipes s a)"
    and "length (pipe_queue (pipes s a)) + length bs = PIPESIZE" and "cs \<noteq> []"
    and "\<not> pi_readopen (pipes s a) \<or> p_killed (proc_at s p)"
  shows "\<exists>t. pipewrite a (bs @ cs) s = Inr (- 1, t) \<and> crit (hw t) [] (Some p, b) \<and>
    pipe_queue (pipes t a) = pipe_queue (pipes s a) @ bs"
proof -
  let ?th = "(Some p, b)" and ?s = "upd_pipe a (fold pipe_put bs) s"
  have room: "length (pipe_queue (pipes s a)) + length bs \<le> PIPESIZE" using assms(3) by simp
  note q = pipe_puts_queue [OF assms(2) room]
  have ro: "pi_readopen (fold pipe_put bs (pipes s a)) = pi_readopen (pipes s a)"
    by (induction bs rule: rev_induct) (simp_all add: pipe_put_def)
  obtain c ds where cs: "cs = c # ds" using assms(4) by (cases cs) auto
  have stop: "krun (owns [LPipe a] ?th) ?s (if pi_readopen (pipes ?s a) then my_killed else kret True) True (owns [LPipe a] ?th) ?s"
    using assms(5) ro my_killed_owns [of "[LPipe a]" p b ?s] kexec_kret [of "owns [LPipe a] ?th" ?s True] by auto
  have "krun (owns [LPipe a] ?th) ?s (kbind (if pi_readopen (pipes ?s a) then my_killed else kret True) (\<lambda>stop.
       if stop then kret False
       else kseq (wakeup (ChPipeRead a)) (kseq (sleep (ChPipeWrite a) (LPipe a)) (kstop (Fault ''sleep'')))))
      False (owns [LPipe a] ?th) ?s"
    by (rule kexec_kbind, rule stop, unfold if_True, rule kexec_kret)
  then have "krun (owns [LPipe a] ?th) ?s (pipewrite_loop a cs) False (owns [LPipe a] ?th) ?s"
    unfolding cs pipewrite_loop.simps
    by (rule_tac get_owns [where v = "pipes ?s a"]) (use q assms(3) in \<open>auto simp: pipe_full_iff\<close>)
  then have loop: "krun (owns [LPipe a] ?th) s (pipewrite_loop a (bs @ cs)) False (owns [LPipe a] ?th) ?s"
    by (rule pipewrite_loop_prefix [OF assms(2) room])
  have "krun (owns [] ?th) s (pipewrite a (bs @ cs)) (- 1) (owns [] ?th) ?s"
    unfolding pipewrite_def
    by (rule kexec_kseq, rule acquire_owns, simp, rule kexec_kbind, rule loop, unfold pipewrite_end_def if_False,
        rule kexec_kseq, rule release_head_owns, rule kexec_kret)
  from krunE [OF this owns_self [OF assms(1)]] q show ?thesis by (force simp: owns_def)
qed

theorem pipewrite_broken_witness:
  "\<exists>t. pipewrite 0x80200000 (replicate 512 7 @ [8])
     (zero_kernel\<lparr>pipes := (\<lambda>_. wrap_pipe\<lparr>pi_readopen := False\<rparr>)\<rparr>) = Inr (- 1, t)"
proof -
  let ?w = "wrap_pipe\<lparr>pi_readopen := False\<rparr>"
  have "pipe_ok ?w" "pipe_queue ?w = []" using wrap_pipe_queue by (simp_all add: pipe_ok_def pipe_queue_def)
  then show ?thesis
    using pipewrite_broken [of "zero_kernel\<lparr>pipes := (\<lambda>_. ?w)\<rparr>" 0 True "0x80200000" "replicate 512 7" "[8]"]
      zero_kernel_crit
    by (auto simp: PIPESIZE_def)
qed

end
