(* ===== verification/Proc.thy ===== *)
theory Proc
  imports File
begin

text \<open>
  The life of a process, from \<open>proc.c\<close>: \<open>allocproc\<close>, \<open>userinit\<close>, \<open>growproc\<close>, \<open>fork\<close>, \<open>exit\<close>, \<open>wait\<close> and
  \<open>forkret\<close>. The trap frame and the saved context, which the source places at the top of the kernel stack,
  are the fields \<open>p_tf\<close> and \<open>p_context\<close>. A process name is the string before the zero byte of \<open>name[16]\<close>.
\<close>

definition cur :: "nat kern" where
  "cur = kbind myproc null_check"

definition my :: "(proc \<Rightarrow> 'a) \<Rightarrow> 'a kern" where
  "my f = kbind cur (\<lambda>p. kget (\<lambda>s. f (proc_at s p)))"

text \<open>\<open>safestrcpy\<close> into the 16 bytes of \<open>name\<close>.\<close>

definition set_name :: "string \<Rightarrow> string" where
  "set_name n = take 15 n"

definition TF_SIZE :: u32 where "TF_SIZE = 76"

definition pinit :: "unit kern" where
  "pinit = initlock LPtable ''ptable''"

section \<open>Creation\<close>

definition allocproc :: "nat option kern" where
  "allocproc =
     kseq (acquire LPtable) (
     kbind (kget (\<lambda>s. find_index (\<lambda>q. p_state q = UNUSED) (procs (pt s)))) (\<lambda>r.
     case r of
       None \<Rightarrow> kseq (release LPtable) (kret None)
     | Some p \<Rightarrow>
         kseq (kmod (\<lambda>s. upd_proc p (\<lambda>q. q\<lparr>p_state := EMBRYO, p_pid := nextpid (pt s)\<rparr>) s)) (
         kseq (kmod (\<lambda>s. s\<lparr>pt := (pt s)\<lparr>nextpid := nextpid (pt s) + 1\<rparr>\<rparr>)) (
         kseq (release LPtable) (
         kbind kalloc (\<lambda>k.
         kseq (kmod (upd_proc p (\<lambda>q. q\<lparr>p_kstack := k\<rparr>))) (
         if k = 0 then
           kseq (kmod (upd_proc p (\<lambda>q. q\<lparr>p_state := UNUSED\<rparr>)))
           (kret None)
         else
           kbind (kget kmem) (\<lambda>km.
           kseq (store_word (k + KSTACKSIZE - TF_SIZE - 4) (km_trapret km)) (
           kseq (kmod (upd_proc p (\<lambda>q. q\<lparr>p_context := zero_context\<lparr>c_eip := km_forkret km\<rparr>\<rparr>)))
           (kret (Some p)))))))))))"

definition SEG_UCODE :: u16 where "SEG_UCODE = 3"
definition SEG_UDATA :: u16 where "SEG_UDATA = 4"
definition DPL_USER :: u16 where "DPL_USER = 3"
definition FL_IF :: u32 where "FL_IF = 0x200"

definition userinit :: "u8 list \<Rightarrow> unit kern" where
  "userinit initcode =
     kbind allocproc (\<lambda>r.
     kseq (kmod (\<lambda>s. s\<lparr>pt := (pt s)\<lparr>initproc := r\<rparr>\<rparr>)) (
     kbind setupkvm (\<lambda>d.
     kbind (null_check r) (\<lambda>p.
     kseq (kmod (upd_proc p (\<lambda>q. q\<lparr>p_pgdir := d\<rparr>))) (
     if d = 0 then panic ''userinit: out of memory?''
     else
       kseq (inituvm d initcode) (
       kseq (kmod (upd_proc p (\<lambda>q. q\<lparr>p_sz := PGSIZE,
               p_tf := zero_tf\<lparr>tf_cs := push_bit 3 SEG_UCODE OR DPL_USER,
                  tf_ds := push_bit 3 SEG_UDATA OR DPL_USER, tf_es := push_bit 3 SEG_UDATA OR DPL_USER,
                  tf_ss := push_bit 3 SEG_UDATA OR DPL_USER, tf_eflags := FL_IF, tf_esp := PGSIZE, tf_eip := 0\<rparr>,
               p_name := set_name ''initcode''\<rparr>))) (
       kbind (namei [slash]) (\<lambda>ip.
       kseq (kmod (upd_proc p (\<lambda>q. q\<lparr>p_cwd := ip\<rparr>))) (
       kseq (acquire LPtable) (
       kseq (kmod (upd_proc p (\<lambda>q. q\<lparr>p_state := RUNNABLE\<rparr>)))
       (release LPtable)))))))))))"

definition growproc :: "u32 \<Rightarrow> int kern" where
  "growproc n =
     kbind cur (\<lambda>p.
     kbind (kget (\<lambda>s. proc_at s p)) (\<lambda>q.
     kbind (if 0 < sint n then allocuvm (p_pgdir q) (p_sz q) (p_sz q + n)
            else if sint n < 0 then deallocuvm (p_pgdir q) (p_sz q) (p_sz q + n)
            else kret (p_sz q)) (\<lambda>sz.
     if sint n \<noteq> 0 \<and> sz = 0 then kret (- 1)
     else
       kseq (kmod (upd_proc p (\<lambda>q. q\<lparr>p_sz := sz\<rparr>))) (
       kseq (switchuvm (Some p))
       (kret 0)))))"

text \<open>\<open>fork\<close> duplicates the reference to every open file.\<close>

definition fork_fd :: "nat \<Rightarrow> nat \<Rightarrow> nat \<Rightarrow> unit kern" where
  "fork_fd p np i =
     kbind (kget (\<lambda>s. p_ofile (proc_at s p) ! i)) (\<lambda>fo.
     case fo of
       None \<Rightarrow> kret ()
     | Some f \<Rightarrow>
         kbind (filedup f) (\<lambda>f.
         kmod (upd_proc np (\<lambda>q. q\<lparr>p_ofile := (p_ofile q)[i := Some f]\<rparr>))))"

definition fork :: "int kern" where
  "fork =
     kbind cur (\<lambda>p.
     kbind allocproc (\<lambda>r.
     case r of
       None \<Rightarrow> kret (- 1)
     | Some np \<Rightarrow>
         kbind (kget (\<lambda>s. proc_at s p)) (\<lambda>cp.
         kbind (copyuvm (p_pgdir cp) (p_sz cp)) (\<lambda>d.
         kseq (kmod (upd_proc np (\<lambda>q. q\<lparr>p_pgdir := d\<rparr>))) (
         if d = 0 then
           kbind (kget (\<lambda>s. p_kstack (proc_at s np))) (\<lambda>k.
           kseq (kfree k) (
           kseq (kmod (upd_proc np (\<lambda>q. q\<lparr>p_kstack := 0, p_state := UNUSED\<rparr>)))
           (kret (- 1))))
         else
           kseq (kmod (\<lambda>s. upd_proc np (\<lambda>q. q\<lparr>p_sz := p_sz (proc_at s p), p_parent := Some p,
                   p_tf := (p_tf (proc_at s p))\<lparr>tf_eax := 0\<rparr>\<rparr>) s)) (
           kseq (kfor [0..<NOFILE] (fork_fd p np)) (
           kbind (kget (\<lambda>s. p_cwd (proc_at s p))) (\<lambda>cwd.
           kbind (null_check cwd) (\<lambda>cwd.
           kbind (idup cwd) (\<lambda>cwd.
           kseq (kmod (upd_proc np (\<lambda>q. q\<lparr>p_cwd := Some cwd\<rparr>))) (
           kseq (kmod (\<lambda>s. upd_proc np (\<lambda>q. q\<lparr>p_name := set_name (p_name (proc_at s p))\<rparr>) s)) (
           kbind (kget (\<lambda>s. p_pid (proc_at s np))) (\<lambda>pid.
           kseq (acquire LPtable) (
           kseq (kmod (upd_proc np (\<lambda>q. q\<lparr>p_state := RUNNABLE\<rparr>))) (
           kseq (release LPtable)
           (kret pid))))))))))))))))"

section \<open>Exit and wait\<close>

text \<open>\<open>wakeup1\<close> on a process pointer. No process sleeps on the null pointer.\<close>

definition wakeup1_proc :: "nat option \<Rightarrow> unit kern" where
  "wakeup1_proc po = (case po of None \<Rightarrow> kret () | Some p \<Rightarrow> wakeup1 (ChProc p))"

definition exit_fd :: "nat \<Rightarrow> nat \<Rightarrow> unit kern" where
  "exit_fd p fd =
     kbind (kget (\<lambda>s. p_ofile (proc_at s p) ! fd)) (\<lambda>fo.
     case fo of
       None \<Rightarrow> kret ()
     | Some f \<Rightarrow>
         kseq (fileclose f)
         (kmod (upd_proc p (\<lambda>q. q\<lparr>p_ofile := (p_ofile q)[fd := None]\<rparr>))))"

definition exit_child :: "nat \<Rightarrow> nat \<Rightarrow> unit kern" where
  "exit_child p c =
     kbind (kget (\<lambda>s. proc_at s c)) (\<lambda>q.
     kwhen (p_parent q = Some p) (
       kbind (kget (\<lambda>s. initproc (pt s))) (\<lambda>ini.
       kseq (kmod (upd_proc c (\<lambda>q. q\<lparr>p_parent := ini\<rparr>)))
       (kwhen (p_state q = ZOMBIE) (wakeup1_proc ini)))))"

definition exit :: "unit kern" where
  "exit =
     kbind cur (\<lambda>p.
     kbind (kget (\<lambda>s. initproc (pt s))) (\<lambda>ini.
     if Some p = ini then panic ''init exiting''
     else
       kseq (kfor [0..<NOFILE] (exit_fd p)) (
       kseq begin_op (
       kbind (kget (\<lambda>s. p_cwd (proc_at s p))) (\<lambda>cwd.
       kseq (kbind (null_check cwd) iput) (
       kseq end_op (
       kseq (kmod (upd_proc p (\<lambda>q. q\<lparr>p_cwd := None\<rparr>))) (
       kseq (acquire LPtable) (
       kbind (kget (\<lambda>s. p_parent (proc_at s p))) (\<lambda>par.
       kseq (wakeup1_proc par) (
       kbind (kget (\<lambda>s. length (procs (pt s)))) (\<lambda>n.
       kseq (kfor [0..<n] (exit_child p)) (
       kseq (kmod (upd_proc p (\<lambda>q. q\<lparr>p_state := ZOMBIE\<rparr>))) (
       kseq sched
       (panic ''zombie exit'')))))))))))))))"

text \<open>One round of the loop of \<open>wait\<close>, with \<open>ptable.lock\<close> held.\<close>

definition wait_reap :: "nat \<Rightarrow> int kern" where
  "wait_reap c =
     kbind (kget (\<lambda>s. proc_at s c)) (\<lambda>q.
     kseq (kfree (p_kstack q)) (
     kseq (kmod (upd_proc c (\<lambda>q. q\<lparr>p_kstack := 0\<rparr>))) (
     kseq (freevm (p_pgdir q)) (
     kseq (kmod (upd_proc c (\<lambda>q. q\<lparr>p_pid := 0, p_parent := None, p_name := [], p_killed := False, p_state := UNUSED\<rparr>))) (
     kseq (release LPtable)
     (kret (p_pid q)))))))"

definition wait_body :: "nat \<Rightarrow> int kern" where
  "wait_body p =
     kbind (kget (\<lambda>s. procs (pt s))) (\<lambda>ps.
     case find_index (\<lambda>q. p_parent q = Some p \<and> p_state q = ZOMBIE) ps of
       Some c \<Rightarrow> wait_reap c
     | None \<Rightarrow>
         if (\<forall>q \<in> set ps. p_parent q \<noteq> Some p) \<or> p_killed (ps ! p)
         then kseq (release LPtable) (kret (- 1))
         else kseq (sleep (ChProc p) LPtable) (kstop (Fault ''sleep'')))"

definition wait :: "int kern" where
  "wait = kbind cur (\<lambda>p. kseq (acquire LPtable) (wait_body p))"

definition wait_resume :: "bool \<Rightarrow> nat \<Rightarrow> int kern" where
  "wait_resume ie p = kseq (sleep_resume ie p LPtable) (wait_body p)"

text \<open>\<open>first\<close> is the static variable of \<open>forkret\<close>; the result is its new value.\<close>

definition forkret :: "bool \<Rightarrow> bool kern" where
  "forkret first =
     kseq (release LPtable) (
     if first then kseq (iinit ROOTDEV) (kseq (initlog ROOTDEV) (kret False))
     else kret first)"

end
