(* ===== verification/Syscall.thy ===== *)
theory Syscall
  imports Proc
begin

text \<open>
  The arguments of system calls (\<open>syscall.c\<close>) and the calls on processes and files (\<open>sysproc.c\<close>,
  \<open>sysfile.c\<close>, \<open>exec.c\<close>). User memory is read and written through the page table of the processor. A
  function that returns -1 or stores through a pointer returns an \<open>option\<close>; \<open>fetchstr\<close> returns the string
  itself in place of its length and its address.
\<close>

section \<open>Fetching arguments\<close>

definition fetchint :: "u32 \<Rightarrow> u32 option kern" where
  "fetchint addr =
     kbind (my p_sz) (\<lambda>sz.
     if sz \<le> addr \<or> sz < addr + 4 then kret None
     else kbind (deref addr) (\<lambda>v. kret (Some v)))"

primrec fetchstr_loop :: "nat \<Rightarrow> u32 \<Rightarrow> u8 list option kern" where
  "fetchstr_loop 0 a = kret None"
| "fetchstr_loop (Suc n) a =
     kbind (mem_load a) (\<lambda>c.
     if c = 0 then kret (Some [])
     else kbind (fetchstr_loop n (a + 1)) (\<lambda>r. kret (map_option ((#) c) r)))"

definition fetchstr :: "u32 \<Rightarrow> u8 list option kern" where
  "fetchstr addr =
     kbind (my p_sz) (\<lambda>sz.
     if sz \<le> addr then kret None else fetchstr_loop (unat (sz - addr)) addr)"

definition argint :: "nat \<Rightarrow> u32 option kern" where
  "argint n = kbind (my (\<lambda>p. tf_esp (p_tf p))) (\<lambda>esp. fetchint (esp + 4 + 4 * of_nat n))"

definition argptr :: "nat \<Rightarrow> u32 \<Rightarrow> u32 option kern" where
  "argptr n sz =
     kbind cur (\<lambda>p.
     kbind (argint n) (\<lambda>r.
     case r of
       None \<Rightarrow> kret None
     | Some i \<Rightarrow>
         kbind (kget (\<lambda>s. p_sz (proc_at s p))) (\<lambda>psz.
         if sint sz < 0 \<or> psz \<le> i \<or> psz < i + sz then kret None else kret (Some i))))"

definition argstr :: "nat \<Rightarrow> u8 list option kern" where
  "argstr n = kbind (argint n) (\<lambda>r. case r of None \<Rightarrow> kret None | Some a \<Rightarrow> fetchstr a)"

text \<open>A call whose arguments are checked one after the other returns -1 at the first that fails.\<close>

definition with_arg :: "'a option kern \<Rightarrow> ('a \<Rightarrow> int kern) \<Rightarrow> int kern" where
  "with_arg m f = kbind m (\<lambda>r. case r of None \<Rightarrow> kret (- 1) | Some x \<Rightarrow> f x)"

section \<open>Calls on processes\<close>

definition sys_fork :: "int kern" where
  "sys_fork = fork"

definition sys_exit :: "int kern" where
  "sys_exit = kseq exit (kret 0)"

definition sys_wait :: "int kern" where
  "sys_wait = wait"

definition sys_kill :: "int kern" where
  "sys_kill = with_arg (argint 0) (\<lambda>pid. kill (sint pid))"

definition sys_getpid :: "int kern" where
  "sys_getpid = my p_pid"

definition sys_sbrk :: "int kern" where
  "sys_sbrk =
     with_arg (argint 0) (\<lambda>n.
     kbind (my p_sz) (\<lambda>addr.
     kbind (growproc n) (\<lambda>r. kret (if r < 0 then - 1 else sint addr))))"

text \<open>The loop of \<open>sys_sleep\<close>, with \<open>tickslock\<close> held. The comparison with \<open>n\<close> is unsigned.\<close>

definition sys_sleep_loop :: "u32 \<Rightarrow> u32 \<Rightarrow> int kern" where
  "sys_sleep_loop ticks0 n =
     kbind (kget ticks) (\<lambda>t.
     if t - ticks0 < n then
       kbind my_killed (\<lambda>killed.
       if killed then kseq (release LTicks) (kret (- 1))
       else kseq (sleep ChTicks LTicks) (kstop (Fault ''sleep'')))
     else kseq (release LTicks) (kret 0))"

definition sys_sleep :: "int kern" where
  "sys_sleep =
     with_arg (argint 0) (\<lambda>n.
     kseq (acquire LTicks) (
     kbind (kget ticks) (\<lambda>ticks0. sys_sleep_loop ticks0 n)))"

definition sys_sleep_resume :: "bool \<Rightarrow> nat \<Rightarrow> u32 \<Rightarrow> u32 \<Rightarrow> int kern" where
  "sys_sleep_resume ie p ticks0 n = kseq (sleep_resume ie p LTicks) (sys_sleep_loop ticks0 n)"

definition sys_uptime :: "int kern" where
  "sys_uptime =
     kseq (acquire LTicks) (
     kbind (kget ticks) (\<lambda>x.
     kseq (release LTicks)
     (kret (sint x))))"

section \<open>Calls on descriptors\<close>

definition argfd :: "nat \<Rightarrow> (nat \<times> nat) option kern" where
  "argfd n =
     kbind (argint n) (\<lambda>r.
     case r of
       None \<Rightarrow> kret None
     | Some fd \<Rightarrow>
         if sint fd < 0 \<or> int NOFILE \<le> sint fd then kret None
         else
           kbind (my (\<lambda>p. p_ofile p ! unat fd)) (\<lambda>fo.
           kret (map_option (Pair (unat fd)) fo)))"

definition fdalloc :: "nat \<Rightarrow> nat option kern" where
  "fdalloc f =
     kbind cur (\<lambda>p.
     kbind (kget (\<lambda>s. find_index (\<lambda>x. x = None) (p_ofile (proc_at s p)))) (\<lambda>r.
     case r of
       None \<Rightarrow> kret None
     | Some fd \<Rightarrow>
         kseq (kmod (upd_proc p (\<lambda>q. q\<lparr>p_ofile := (p_ofile q)[fd := Some f]\<rparr>)))
         (kret (Some fd))))"

definition sys_dup :: "int kern" where
  "sys_dup =
     with_arg (argfd 0) (\<lambda>(_, f).
     with_arg (fdalloc f) (\<lambda>fd.
     kseq (filedup f)
     (kret (int fd))))"

definition sys_read :: "int kern" where
  "sys_read =
     with_arg (argfd 0) (\<lambda>(_, f).
     with_arg (argint 2) (\<lambda>n.
     with_arg (argptr 1 n) (\<lambda>p.
     kbind (fileread f n) (\<lambda>(r, bs).
     kseq (store_bytes bs p)
     (kret r)))))"

definition sys_write :: "int kern" where
  "sys_write =
     with_arg (argfd 0) (\<lambda>(_, f).
     with_arg (argint 2) (\<lambda>n.
     with_arg (argptr 1 n) (\<lambda>p.
     kbind (load_bytes (unat n) p) (\<lambda>bs.
     filewrite f bs))))"

definition sys_close :: "int kern" where
  "sys_close =
     with_arg (argfd 0) (\<lambda>(fd, f).
     kbind cur (\<lambda>p.
     kseq (kmod (upd_proc p (\<lambda>q. q\<lparr>p_ofile := (p_ofile q)[fd := None]\<rparr>))) (
     kseq (fileclose f)
     (kret 0))))"

text \<open>\<open>struct stat\<close> in memory: \<open>short\<close> fields are followed by two bytes of padding, written as zero here.\<close>

definition STAT_SIZE :: nat where "STAT_SIZE = 20"

definition stat_bytes :: "stat \<Rightarrow> u8 list" where
  "stat_bytes st =
     bytes16 (st_type st) @ [0, 0] @ bytes32 (st_dev st) @ bytes32 (st_ino st) @
     bytes16 (st_nlink st) @ [0, 0] @ bytes32 (st_size st)"

definition sys_fstat :: "int kern" where
  "sys_fstat =
     with_arg (argfd 0) (\<lambda>(_, f).
     with_arg (argptr 1 (of_nat STAT_SIZE)) (\<lambda>a.
     with_arg (filestat f) (\<lambda>st.
     kseq (store_bytes (stat_bytes st) a)
     (kret 0))))"

definition sys_pipe :: "int kern" where
  "sys_pipe =
     with_arg (argptr 0 8) (\<lambda>a.
     with_arg pipealloc (\<lambda>(rf, wf).
     kbind (fdalloc rf) (\<lambda>r0.
     kbind (case r0 of None \<Rightarrow> kret None | Some _ \<Rightarrow> fdalloc wf) (\<lambda>r1.
     case (r0, r1) of
       (Some fd0, Some fd1) \<Rightarrow>
         kseq (store_bytes (bytes32 (of_nat fd0)) a) (
         kseq (store_bytes (bytes32 (of_nat fd1)) (a + 4))
         (kret 0))
     | _ \<Rightarrow>
         kseq (case r0 of
                 None \<Rightarrow> kret ()
               | Some fd0 \<Rightarrow> kbind cur (\<lambda>p. kmod (upd_proc p (\<lambda>q. q\<lparr>p_ofile := (p_ofile q)[fd0 := None]\<rparr>)))) (
         kseq (fileclose rf) (
         kseq (fileclose wf)
         (kret (- 1))))))))"

definition sys_swapread :: "int kern" where
  "sys_swapread =
     with_arg (argptr 0 PGSIZE) (\<lambda>ptr.
     with_arg (argint 1) (\<lambda>blkno.
     kseq (swapread ptr blkno)
     (kret 0)))"

definition sys_swapwrite :: "int kern" where
  "sys_swapwrite =
     with_arg (argptr 0 PGSIZE) (\<lambda>ptr.
     with_arg (argint 1) (\<lambda>blkno.
     kseq (swapwrite ptr blkno)
     (kret 0)))"

definition sys_swapstat :: "int kern" where
  "sys_swapstat =
     with_arg (argptr 0 4) (\<lambda>nr_read.
     with_arg (argptr 1 4) (\<lambda>nr_write.
     kbind (kget nr_sectors_read) (\<lambda>r.
     kseq (store_bytes (bytes32 (word_of_int r)) nr_read) (
     kbind (kget nr_sectors_write) (\<lambda>w.
     kseq (store_bytes (bytes32 (word_of_int w)) nr_write)
     (kret 0))))))"

section \<open>What checked arguments guarantee\<close>

lemma nonneg_sint_unat:
  assumes "\<not> sint w < 0"
  shows "unat (w :: u32) < 2147483648"
proof -
  have "\<not> bit w 31" using bit_last_iff [of w] assms by simp
  then have "take_bit 31 w = w" by (intro bit_word_eqI) (auto simp: bit_simps less_Suc_eq numeral_eq_Suc)
  then have "unat w = unat w mod 2147483648" using unat_mod_distrib [of w 2147483648] by (simp add: take_bit_eq_mod)
  then show ?thesis by (metis mod_less_divisor zero_less_numeral)
qed

lemma cur_owns [krule]: "krun (owns H (Some p, b)) s cur p (owns H (Some p, b)) s"
  unfolding cur_def by (rule kexec_kbind, rule myproc_owns, unfold fst_conv, rule null_check_owns)

lemma my_owns: "(\<And>h. f (proc_at (s\<lparr>hw := h\<rparr>) p) = f (proc_at s p)) \<Longrightarrow>
    krun (owns H (Some p, b)) s (my f) (f (proc_at s p)) (owns H (Some p, b)) s"
  unfolding my_def by (rule kexec_kbind, rule cur_owns, rule kget_owns) simp

lemma mem_load_state: "mem_load va t = Inr (v, t') \<Longrightarrow> t' = t"
  by (auto simp: mem_load_def split: option.splits)

lemma load_bytes_state: "load_bytes n va t = Inr (bs, t') \<Longrightarrow> t' = t"
proof (induction n arbitrary: va bs)
  case (Suc n)
  from Suc.prems obtain c t1 where c: "mem_load va t = Inr (c, t1)" "kbind (load_bytes n (va + 1)) (\<lambda>bs. kret (c # bs)) t1 = Inr (bs, t')"
    unfolding load_bytes.simps by (rule kbind_eq_InrE)
  then have "t1 = t" by (blast dest: mem_load_state)
  with c(2) obtain bs1 t2 where "load_bytes n (va + 1) t = Inr (bs1, t2)" "kret (c # bs1) t2 = Inr (bs, t')"
    by (elim kbind_eq_InrE) auto
  with Suc.IH show ?case by auto
qed simp

lemma deref_state: "deref va t = Inr (v, t') \<Longrightarrow> t' = t"
  unfolding deref_def by (elim kbind_eq_InrE) (auto dest: load_bytes_state)

lemma fetchint_accepts:
  assumes "owns H (Some p, b) s t" and "fetchint a t = Inr (Some v, t')"
  shows "a < p_sz (proc_at s p)" and "a + 4 \<le> p_sz (proc_at s p)" and "owns H (Some p, b) s t'"
proof -
  obtain t1 where t1: "my p_sz t = Inr (p_sz (proc_at s p), t1)" "owns H (Some p, b) s t1"
    using krunE [OF my_owns [of p_sz s p] assms(1)] by auto
  have run: "fetchint a t = (if p_sz (proc_at s p) \<le> a \<or> p_sz (proc_at s p) < a + 4 then kret None
      else kbind (deref a) (\<lambda>v. kret (Some v))) t1"
    unfolding fetchint_def by (simp add: t1(1))
  with assms(2) have ok: "\<not> (p_sz (proc_at s p) \<le> a \<or> p_sz (proc_at s p) < a + 4)" by (auto split: if_splits)
  then show "a < p_sz (proc_at s p)" and "a + 4 \<le> p_sz (proc_at s p)" by auto
  from ok run assms(2) have "kbind (deref a) (\<lambda>v. kret (Some v)) t1 = Inr (Some v, t')" by simp
  then obtain w t2 where "deref a t1 = Inr (w, t2)" "t2 = t'" by (rule kbind_eq_InrE) simp
  with deref_state t1(2) show "owns H (Some p, b) s t'" by metis
qed

lemma argint_accepts:
  assumes "owns H (Some p, b) s t" and "argint n t = Inr (Some v, t')"
  shows "owns H (Some p, b) s t'"
proof -
  obtain t1 where "my (\<lambda>p. tf_esp (p_tf p)) t = Inr (tf_esp (p_tf (proc_at s p)), t1)" "owns H (Some p, b) s t1"
    using krunE [OF my_owns [of "\<lambda>p. tf_esp (p_tf p)" s p] assms(1)] by auto
  with assms(2) show ?thesis unfolding argint_def by (auto dest: fetchint_accepts(3))
qed

text \<open>
  C39. A pointer argument that \<open>argptr\<close> accepts with a size lies with all its bytes inside the memory of the calling process,
  for every process that ends below \<open>KERNBASE\<close>: the sum in the check does not wrap around.
\<close>

theorem argptr_in_process:
  assumes "crit (hw s) [] (Some p, b)" and "p_sz (proc_at s p) \<le> KERNBASE" and "argptr n sz s = Inr (Some a, t)"
  shows "unat a + unat sz \<le> unat (p_sz (proc_at s p))"
proof -
  let ?psz = "p_sz (proc_at s p)"
  obtain t1 where t1: "cur s = Inr (p, t1)" "owns [] (Some p, b) s t1"
    using krunE [OF cur_owns owns_self [OF assms(1)]] by auto
  obtain r t2 where r: "argint n t1 = Inr (r, t2)"
    using assms(3) t1(1) unfolding argptr_def by (auto elim!: kbind_eq_InrE)
  then obtain i where i: "r = Some i" using assms(3) t1(1) by (cases r) (auto simp: argptr_def)
  have o2: "owns [] (Some p, b) s t2" using argint_accepts [OF t1(2)] r i by simp
  then have "p_sz (proc_at t2 p) = ?psz" by (auto simp: owns_def)
  then have ok: "\<not> (sint sz < 0 \<or> ?psz \<le> i \<or> ?psz < i + sz)" and a: "a = i"
    using assms(3) t1(1) r i by (auto simp: argptr_def split: if_splits)
  have k: "unat ?psz \<le> 2147483648" using assms(2) by (simp add: word_le_nat_alt KERNBASE_def)
  have lt: "unat i < unat ?psz" using ok by (simp add: word_less_nat_alt not_le)
  have "unat sz < 2147483648" using nonneg_sint_unat ok by simp
  then have "unat (i + sz) = unat i + unat sz" using lt k by (simp add: unat_word_ariths)
  with ok a show ?thesis by (simp add: word_le_nat_alt not_less)
qed

lemma fetchint_run:
  assumes "crit (hw s) [] (Some p, b)" and "p_sz (proc_at s p) \<le> KERNBASE" and "aligned4 addr"
    and "addr < KERNBASE" and "mmu (mem s) (cr3_of (hw s)) addr = Some a"
  shows "\<exists>t. fetchint addr s =
      Inr (if unat addr + 4 \<le> unat (p_sz (proc_at s p)) then Some (load32 (mem s) a) else None, t) \<and> owns [] (Some p, b) s t \<and> cr3_of (hw t) = cr3_of (hw s)"
proof -
  let ?sz = "p_sz (proc_at s p)"
  obtain t where t: "myproc s = Inr (Some p, t)" "owns [] (Some p, b) s t"
    using krunE [OF myproc_owns owns_self [OF assms(1)]] by auto
  then have same: "mem t = mem s" "proc_at t p = proc_at s p" "cr3_of (hw t) = cr3_of (hw s)"
    using myproc_cr3 [OF t(1)] by (auto simp: owns_def)
  have u: "unat (addr + of_nat 4) = unat addr + 4"
    by (rule unat_add_of_nat) (use assms(4) in \<open>simp add: word_less_nat_alt KERNBASE_def\<close>)
  have "(?sz \<le> addr \<or> ?sz < addr + 4) \<longleftrightarrow> \<not> unat addr + 4 \<le> unat ?sz"
    using u by (auto simp: word_le_nat_alt word_less_nat_alt)
  with t same deref_user [OF assms(3,4), of t a] assms(5) show ?thesis
    by (intro exI [of _ t]) (auto simp: fetchint_def my_def cur_def null_check_def)
qed

text \<open>A process whose first page is mapped by \<open>paged_memory\<close> and holds its stack.\<close>

definition user_kernel :: kstate where
  "user_kernel = zero_kernel\<lparr>mem := store32 0x80403004 0x10 paged_memory,
     hw := zero_hw\<lparr>cpus := [(first_cpu (Some 0))\<lparr>cpu_cr3 := 0x401000\<rparr>]\<rparr>,
     pt := (pt zero_kernel)\<lparr>procs := [first_proc\<lparr>p_sz := 0x1000\<rparr>]\<rparr>\<rparr>"

lemma user_kernel_props:
  "crit (hw user_kernel) [] (Some 0, True)" "proc_at user_kernel 0 = first_proc\<lparr>p_sz := 0x1000\<rparr>"
  "load32 (mem user_kernel) 0x80403004 = 0x10" "mmu (mem user_kernel) (cr3_of (hw user_kernel)) 4 = Some 0x80403004"
proof -
  show "crit (hw user_kernel) [] (Some 0, True)"
    by (simp add: user_kernel_def critd_def zero_hw_def this_cpu_def first_cpu_def zero_lock_def)
  show "proc_at user_kernel 0 = first_proc\<lparr>p_sz := 0x1000\<rparr>" by (simp add: user_kernel_def)
  show "load32 (mem user_kernel) 0x80403004 = 0x10" by (simp add: user_kernel_def)
  have al: "aligned4 0x80401000" "aligned4 0x80402000" "aligned4 0x80403004" by (simp_all add: aligned4_def)
  have "load32 (mem user_kernel) 0x80401000 = 0x00402007" "load32 (mem user_kernel) 0x80402000 = 0x00403007"
    using al by (simp_all add: user_kernel_def paged_memory_def load32_store32_other)
  moreover have "cr3_of (hw user_kernel) = 0x401000"
    by (simp add: cr3_of_def user_kernel_def zero_hw_def this_cpu_def first_cpu_def)
  ultimately show "mmu (mem user_kernel) (cr3_of (hw user_kernel)) 4 = Some 0x80403004"
    by (simp add: mmu_def walk_def KERNBASE_def P2V_def PDX_def PTX_def PTE_P_def PTE_ADDR_def)
qed



lemma my_run:
  assumes "owns [] (Some p, b) s t"
  obtains u where "my f t = Inr (f (proc_at s p), u)" and "owns [] (Some p, b) s u" and "cr3_of (hw u) = cr3_of (hw t)"
proof -
  obtain u where u: "myproc t = Inr (Some p, u)" "owns [] (Some p, b) s u"
    using krunE [OF myproc_owns assms] by auto
  then have "my f t = Inr (f (proc_at s p), u)" by (auto simp: my_def cur_def null_check_def owns_def)
  with u(2) myproc_cr3 [OF u(1)] that show thesis by blast
qed

lemma user_kernel_argint: "\<exists>t. argint 0 u = Inr (Some 0x10, t) \<and> owns [] (Some 0, True) user_kernel t"
  if u: "owns [] (Some 0, True) user_kernel u" "cr3_of (hw u) = cr3_of (hw user_kernel)"
proof -
  obtain v where v: "my (\<lambda>p. tf_esp (p_tf p)) u = Inr (tf_esp (p_tf (proc_at user_kernel 0)), v)"
    "owns [] (Some 0, True) user_kernel v" "cr3_of (hw v) = cr3_of (hw u)" by (rule my_run [OF u(1)])
  have same: "crit (hw v) [] (Some 0, True)" "mem v = mem user_kernel" "proc_at v 0 = proc_at user_kernel 0"
    using v(2) by (auto simp: owns_def)
  obtain t where t: "fetchint 4 v = Inr (Some 0x10, t)" "owns [] (Some 0, True) v t"
    using fetchint_run [OF same(1), of 4 "0x80403004"] user_kernel_props same(2,3) u(2) v(3)
    by (auto simp: KERNBASE_def aligned4_def)
  have "tf_esp (p_tf (proc_at user_kernel 0)) = 0" by (simp add: user_kernel_props first_proc_def zero_proc_def zero_tf_def)
  with v t show ?thesis by (auto simp: argint_def owns_def)
qed

theorem argptr_in_process_witness:
  "\<exists>t. argptr 0 16 user_kernel = Inr (Some 0x10, t) \<and> unat (0x10 :: u32) + unat (16 :: u32) \<le> unat (p_sz (proc_at user_kernel 0))"
proof -
  obtain u where u: "myproc user_kernel = Inr (Some 0, u)" "owns [] (Some 0, True) user_kernel u"
    using krunE [OF myproc_owns owns_self [OF user_kernel_props(1)]] by auto
  obtain t where t: "argint 0 u = Inr (Some 0x10, t)" "owns [] (Some 0, True) user_kernel t"
    using user_kernel_argint [OF u(2) myproc_cr3 [OF u(1)]] by blast
  then have "p_sz (proc_at t 0) = 0x1000" using user_kernel_props(2) by (auto simp: owns_def)
  with u t have "argptr 0 16 user_kernel = Inr (Some 0x10, t)" by (simp add: argptr_def cur_def null_check_def)
  moreover from argptr_in_process [OF user_kernel_props(1) _ this]
  have "unat (0x10 :: u32) + unat (16 :: u32) \<le> unat (p_sz (proc_at user_kernel 0))"
    using user_kernel_props(2) by (simp add: KERNBASE_def)
  ultimately show ?thesis by blast
qed

end
