(* ===== verification/Sysfile.thy ===== *)
theory Sysfile
  imports Syscall
begin

text \<open>
  The system calls on paths (\<open>sysfile.c\<close>) and \<open>exec\<close> (\<open>exec.c\<close>). The array \<open>name[DIRSIZ]\<close> on the stack of a
  call is filled by \<open>nameiparent\<close>; its initial contents do not matter and are zero here.
\<close>

definition no_name :: "u8 list" where "no_name = replicate DIRSIZ 0"

definition O_RDONLY :: u32 where "O_RDONLY = 0x000"
definition O_WRONLY :: u32 where "O_WRONLY = 0x001"
definition O_RDWR :: u32 where "O_RDWR = 0x002"
definition O_CREATE :: u32 where "O_CREATE = 0x200"

definition fail_op :: "int kern" where
  "fail_op = kseq end_op (kret (- 1))"

section \<open>Links\<close>

text \<open>The label \<open>bad\<close> of \<open>sys_link\<close>.\<close>

definition link_bad :: "nat \<Rightarrow> int kern" where
  "link_bad ip =
     kseq (ilock (Some ip)) (
     kseq (kmod (upd_inode ip (\<lambda>x. x\<lparr>i_nlink := i_nlink x - 1\<rparr>))) (
     kseq (iupdate ip) (
     kseq (iunlockput ip)
     fail_op)))"

definition sys_link :: "int kern" where
  "sys_link =
     with_arg (argstr 0) (\<lambda>old.
     with_arg (argstr 1) (\<lambda>new.
     kseq begin_op (
     kbind (namei old) (\<lambda>r.
     case r of None \<Rightarrow> fail_op
     | Some ip \<Rightarrow>
     kseq (ilock (Some ip)) (
     kbind (kget (inode_at ip)) (\<lambda>x.
     if i_type x = T_DIR then kseq (iunlockput ip) fail_op
     else
     kseq (kmod (upd_inode ip (\<lambda>x. x\<lparr>i_nlink := i_nlink x + 1\<rparr>))) (
     kseq (iupdate ip) (
     kseq (iunlock (Some ip)) (
     kbind (nameiparent new no_name) (\<lambda>r.
     case r of None \<Rightarrow> link_bad ip
     | Some (dp, name) \<Rightarrow>
     kseq (ilock (Some dp)) (
     kbind (kget (\<lambda>s. i_dev (inode_at dp s) = i_dev (inode_at ip s))) (\<lambda>same.
     kbind (kget (\<lambda>s. i_inum (inode_at ip s))) (\<lambda>inum.
     kbind (if same then dirlink dp name inum else kret (- 1)) (\<lambda>d.
     if d < 0 then kseq (iunlockput dp) (link_bad ip)
     else
     kseq (iunlockput dp) (
     kseq (iput ip) (
     kseq end_op
     (kret 0)))))))))))))))))"

fun isdirempty_loop :: "nat \<Rightarrow> nat list \<Rightarrow> bool kern" where
  "isdirempty_loop dp [] = kret True"
| "isdirempty_loop dp (off # offs) =
     kbind (readi dp (of_nat off) (of_nat DIRENT_SIZE)) (\<lambda>(n, de).
     if n \<noteq> int DIRENT_SIZE then panic ''isdirempty: readi''
     else if get16 de 0 \<noteq> 0 then kret False
     else isdirempty_loop dp offs)"

definition isdirempty :: "nat \<Rightarrow> bool kern" where
  "isdirempty dp =
     kbind (kget (\<lambda>s. i_size (inode_at dp s))) (\<lambda>sz. isdirempty_loop dp (drop 2 (dirent_offs sz)))"

definition unlink_bad :: "nat \<Rightarrow> int kern" where
  "unlink_bad dp = kseq (iunlockput dp) fail_op"

definition sys_unlink :: "int kern" where
  "sys_unlink =
     with_arg (argstr 0) (\<lambda>pth.
     kseq begin_op (
     kbind (nameiparent pth no_name) (\<lambda>r.
     case r of None \<Rightarrow> fail_op
     | Some (dp, name) \<Rightarrow>
     kseq (ilock (Some dp)) (
     if namecmp_eq name (ascii ''.'') \<or> namecmp_eq name (ascii ''..'') then unlink_bad dp
     else
     kbind (dirlookup dp name) (\<lambda>r.
     case r of None \<Rightarrow> unlink_bad dp
     | Some (ip, off) \<Rightarrow>
     kseq (ilock (Some ip)) (
     kbind (kget (inode_at ip)) (\<lambda>x.
     if sint (i_nlink x) < 1 then panic ''unlink: nlink < 1''
     else
     kbind (if i_type x = T_DIR then isdirempty ip else kret True) (\<lambda>ok.
     if \<not> ok then kseq (iunlockput ip) (unlink_bad dp)
     else
     kbind (writei dp (replicate DIRENT_SIZE 0) off) (\<lambda>n.
     if n \<noteq> int DIRENT_SIZE then panic ''unlink: writei''
     else
     kseq (kwhen (i_type x = T_DIR) (
             kseq (kmod (upd_inode dp (\<lambda>y. y\<lparr>i_nlink := i_nlink y - 1\<rparr>)))
             (iupdate dp))) (
     kseq (iunlockput dp) (
     kseq (kmod (upd_inode ip (\<lambda>y. y\<lparr>i_nlink := i_nlink y - 1\<rparr>))) (
     kseq (iupdate ip) (
     kseq (iunlockput ip) (
     kseq end_op
     (kret 0)))))))))))))))"

section \<open>Creating and opening\<close>

text \<open>The result is the inode, locked.\<close>

definition create :: "u8 list \<Rightarrow> u16 \<Rightarrow> u16 \<Rightarrow> u16 \<Rightarrow> nat option kern" where
  "create pth type major minor =
     kbind (nameiparent pth no_name) (\<lambda>r.
     case r of None \<Rightarrow> kret None
     | Some (dp, name) \<Rightarrow>
     kseq (ilock (Some dp)) (
     kbind (dirlookup dp name) (\<lambda>r.
     case r of
       Some (ip, _) \<Rightarrow>
         kseq (iunlockput dp) (
         kseq (ilock (Some ip)) (
         kbind (kget (\<lambda>s. i_type (inode_at ip s))) (\<lambda>t.
         if type = T_FILE \<and> t = T_FILE then kret (Some ip)
         else kseq (iunlockput ip) (kret None))))
     | None \<Rightarrow>
         kbind (kget (inode_at dp)) (\<lambda>d.
         kbind (ialloc (i_dev d) type) (\<lambda>ip.
         kseq (ilock (Some ip)) (
         kseq (kmod (upd_inode ip (\<lambda>x. x\<lparr>i_major := major, i_minor := minor, i_nlink := 1\<rparr>))) (
         kseq (iupdate ip) (
         kbind (kget (\<lambda>s. i_inum (inode_at ip s))) (\<lambda>inum.
         kseq (kwhen (type = T_DIR) (
                 kseq (kmod (upd_inode dp (\<lambda>y. y\<lparr>i_nlink := i_nlink y + 1\<rparr>))) (
                 kseq (iupdate dp) (
                 kbind (dirlink ip (ascii ''.'') inum) (\<lambda>a.
                 kbind (if a < 0 then kret a else dirlink ip (ascii ''..'') (i_inum d)) (\<lambda>b.
                 kwhen (b < 0) (panic ''create dots''))))))) (
         kbind (dirlink dp name inum) (\<lambda>a.
         if a < 0 then panic ''create: dirlink''
         else
         kseq (iunlockput dp)
         (kret (Some ip)))))))))))))"

definition open_inode :: "u8 list \<Rightarrow> u32 \<Rightarrow> nat option kern" where
  "open_inode pth omode =
     (if omode AND O_CREATE \<noteq> 0 then create pth T_FILE 0 0
      else
        kbind (namei pth) (\<lambda>r.
        case r of None \<Rightarrow> kret None
        | Some ip \<Rightarrow>
            kseq (ilock (Some ip)) (
            kbind (kget (\<lambda>s. i_type (inode_at ip s))) (\<lambda>t.
            if t = T_DIR \<and> omode \<noteq> O_RDONLY then kseq (iunlockput ip) (kret None)
            else kret (Some ip)))))"

definition sys_open :: "int kern" where
  "sys_open =
     with_arg (argstr 0) (\<lambda>pth.
     with_arg (argint 1) (\<lambda>omode.
     kseq begin_op (
     kbind (open_inode pth omode) (\<lambda>r.
     case r of None \<Rightarrow> fail_op
     | Some ip \<Rightarrow>
     kbind filealloc (\<lambda>fo.
     kbind (case fo of None \<Rightarrow> kret None | Some f \<Rightarrow> fdalloc f) (\<lambda>fdo.
     case (fo, fdo) of
       (Some f, Some fd) \<Rightarrow>
         kseq (iunlock (Some ip)) (
         kseq end_op (
         kseq (kmod (upd_file f (\<lambda>x. x\<lparr>f_type := FD_INODE, f_ip := Some ip, f_off := 0,
                 f_readable := (omode AND O_WRONLY = 0),
                 f_writable := (omode AND O_WRONLY \<noteq> 0 \<or> omode AND O_RDWR \<noteq> 0)\<rparr>)))
         (kret (int fd))))
     | _ \<Rightarrow>
         kseq (case fo of None \<Rightarrow> kret () | Some f \<Rightarrow> fileclose f) (
         kseq (iunlockput ip)
         fail_op)))))))"

definition sys_mkdir :: "int kern" where
  "sys_mkdir =
     kseq begin_op (
     kbind (argstr 0) (\<lambda>r.
     kbind (case r of None \<Rightarrow> kret None | Some pth \<Rightarrow> create pth T_DIR 0 0) (\<lambda>r.
     case r of None \<Rightarrow> fail_op
     | Some ip \<Rightarrow> kseq (iunlockput ip) (kseq end_op (kret 0)))))"

definition sys_mknod :: "int kern" where
  "sys_mknod =
     kseq begin_op (
     kbind (argstr 0) (\<lambda>r.
     case r of None \<Rightarrow> fail_op
     | Some pth \<Rightarrow>
     kbind (argint 1) (\<lambda>r.
     case r of None \<Rightarrow> fail_op
     | Some major \<Rightarrow>
     kbind (argint 2) (\<lambda>r.
     case r of None \<Rightarrow> fail_op
     | Some minor \<Rightarrow>
     kbind (create pth T_DEV (ucast major) (ucast minor)) (\<lambda>r.
     case r of None \<Rightarrow> fail_op
     | Some ip \<Rightarrow> kseq (iunlockput ip) (kseq end_op (kret 0)))))))"

definition sys_chdir :: "int kern" where
  "sys_chdir =
     kbind cur (\<lambda>p.
     kseq begin_op (
     kbind (argstr 0) (\<lambda>r.
     kbind (case r of None \<Rightarrow> kret None | Some pth \<Rightarrow> namei pth) (\<lambda>r.
     case r of None \<Rightarrow> fail_op
     | Some ip \<Rightarrow>
     kseq (ilock (Some ip)) (
     kbind (kget (\<lambda>s. i_type (inode_at ip s))) (\<lambda>t.
     if t \<noteq> T_DIR then kseq (iunlockput ip) fail_op
     else
     kseq (iunlock (Some ip)) (
     kbind (kget (\<lambda>s. p_cwd (proc_at s p))) (\<lambda>cwd.
     kseq (kbind (null_check cwd) iput) (
     kseq end_op (
     kseq (kmod (upd_proc p (\<lambda>q. q\<lparr>p_cwd := Some ip\<rparr>)))
     (kret 0)))))))))))"

section \<open>exec\<close>

record elfhdr =
  elf_magic :: u32
  elf_entry :: u32
  elf_phoff :: u32
  elf_phnum :: u16

record proghdr =
  ph_type :: u32
  ph_off :: u32
  ph_vaddr :: u32
  ph_filesz :: u32
  ph_memsz :: u32

definition ELF_MAGIC :: u32 where "ELF_MAGIC = 0x464C457F"
definition ELF_PROG_LOAD :: u32 where "ELF_PROG_LOAD = 1"
definition ELFHDR_SIZE :: nat where "ELFHDR_SIZE = 52"
definition PROGHDR_SIZE :: nat where "PROGHDR_SIZE = 32"

definition get_elfhdr :: "u8 list \<Rightarrow> elfhdr" where
  "get_elfhdr b = \<lparr>elf_magic = get32 b 0, elf_entry = get32 b 24, elf_phoff = get32 b 28, elf_phnum = get16 b 44\<rparr>"

definition get_proghdr :: "u8 list \<Rightarrow> proghdr" where
  "get_proghdr b = \<lparr>ph_type = get32 b 0, ph_off = get32 b 4, ph_vaddr = get32 b 8, ph_filesz = get32 b 16, ph_memsz = get32 b 20\<rparr>"

text \<open>The loop over the program headers: the new size, or \<open>None\<close> for a jump to \<open>bad\<close>.\<close>

primrec exec_load :: "nat \<Rightarrow> nat \<Rightarrow> u32 \<Rightarrow> u32 \<Rightarrow> u32 \<Rightarrow> u32 option kern" where
  "exec_load 0 ip pgdir off sz = kret (Some sz)"
| "exec_load (Suc n) ip pgdir off sz =
     kbind (readi ip off (of_nat PROGHDR_SIZE)) (\<lambda>(r, b).
     let ph = get_proghdr b in
     if r \<noteq> int PROGHDR_SIZE then kret None
     else if ph_type ph \<noteq> ELF_PROG_LOAD then exec_load n ip pgdir (off + of_nat PROGHDR_SIZE) sz
     else if ph_memsz ph < ph_filesz ph then kret None
     else if ph_vaddr ph + ph_memsz ph < ph_vaddr ph then kret None
     else
       kbind (allocuvm pgdir sz (ph_vaddr ph + ph_memsz ph)) (\<lambda>sz.
       if sz = 0 then kret None
       else if ph_vaddr ph mod PGSIZE \<noteq> 0 then kret None
       else
         kbind (loaduvm pgdir (ph_vaddr ph) ip (ph_off ph) (ph_filesz ph)) (\<lambda>r.
         if r < 0 then kret None
         else exec_load n ip pgdir (off + of_nat PROGHDR_SIZE) sz)))"

text \<open>Pushing the argument strings: the stack pointer and the addresses of the strings.\<close>

fun exec_push :: "nat \<Rightarrow> u32 \<Rightarrow> u32 \<Rightarrow> u8 list list \<Rightarrow> (u32 \<times> u32 list) option kern" where
  "exec_push argc pgdir sp [] = kret (Some (sp, []))"
| "exec_push argc pgdir sp (a # as) =
     (if MAXARG \<le> argc then kret None
      else
        let sp = (sp - (of_nat (length a) + 1)) AND NOT 3 in
        kbind (copyout pgdir sp (a @ [0])) (\<lambda>r.
        if r < 0 then kret None
        else
          kbind (exec_push (Suc argc) pgdir sp as) (\<lambda>r.
          kret (map_option (\<lambda>(sp', ps). (sp', sp # ps)) r))))"

definition ustack :: "u32 \<Rightarrow> u32 list \<Rightarrow> u32 list" where
  "ustack sp ps = [0xffffffff, of_nat (length ps), sp - (of_nat (length ps) + 1) * 4] @ ps @ [0]"

definition path_base :: "u8 list \<Rightarrow> u8 list" where
  "path_base pth = rev (takeWhile (\<lambda>c. c \<noteq> slash) (rev pth))"

definition exec_bad :: "u32 \<Rightarrow> nat option \<Rightarrow> int kern" where
  "exec_bad pgdir ipo =
     kseq (kwhen (pgdir \<noteq> 0) (freevm pgdir)) (
     kseq (case ipo of None \<Rightarrow> kret () | Some ip \<Rightarrow> kseq (iunlockput ip) end_op)
     (kret (- 1)))"

definition exec_commit :: "nat \<Rightarrow> u8 list \<Rightarrow> u32 \<Rightarrow> u32 \<Rightarrow> u32 \<Rightarrow> u32 \<Rightarrow> int kern" where
  "exec_commit p pth pgdir sz sp entry =
     kseq (kmod (upd_proc p (\<lambda>q. q\<lparr>p_name := set_name (map (\<lambda>b. char_of (unat b)) (path_base pth))\<rparr>))) (
     kbind (kget (\<lambda>s. p_pgdir (proc_at s p))) (\<lambda>oldpgdir.
     kseq (kmod (upd_proc p (\<lambda>q. q\<lparr>p_pgdir := pgdir, p_sz := sz, p_tf := (p_tf q)\<lparr>tf_eip := entry, tf_esp := sp\<rparr>\<rparr>))) (
     kseq (switchuvm (Some p)) (
     kseq (freevm oldpgdir)
     (kret 0)))))"

text \<open>The part of \<open>exec\<close> after the file has been closed.\<close>

definition exec_stack :: "nat \<Rightarrow> u8 list \<Rightarrow> u8 list list \<Rightarrow> u32 \<Rightarrow> u32 \<Rightarrow> u32 \<Rightarrow> int kern" where
  "exec_stack p pth argv pgdir sz entry =
     kbind (allocuvm pgdir (PGROUNDUP sz) (PGROUNDUP sz + 2 * PGSIZE)) (\<lambda>sz.
     if sz = 0 then exec_bad pgdir None
     else
       kseq (clearpteu pgdir (sz - 2 * PGSIZE)) (
       kbind (exec_push 0 pgdir sz argv) (\<lambda>r.
       case r of None \<Rightarrow> exec_bad pgdir None
       | Some (sp, ps) \<Rightarrow>
       let us = ustack sp ps; sp = sp - of_nat (length us) * 4 in
       kbind (copyout pgdir sp (concat (map bytes32 us))) (\<lambda>r.
       if r < 0 then exec_bad pgdir None
       else exec_commit p pth pgdir sz sp entry))))"

definition exec :: "u8 list \<Rightarrow> u8 list list \<Rightarrow> int kern" where
  "exec pth argv =
     kbind cur (\<lambda>p.
     kseq begin_op (
     kbind (namei pth) (\<lambda>r.
     case r of
       None \<Rightarrow> kseq end_op (kseq (cprintf (ascii ''exec: fail'' @ [10]) []) (kret (- 1)))
     | Some ip \<Rightarrow>
     kseq (ilock (Some ip)) (
     kbind (readi ip 0 (of_nat ELFHDR_SIZE)) (\<lambda>(r, b).
     if r \<noteq> int ELFHDR_SIZE then exec_bad 0 (Some ip)
     else if elf_magic (get_elfhdr b) \<noteq> ELF_MAGIC then exec_bad 0 (Some ip)
     else
     kbind setupkvm (\<lambda>pgdir.
     if pgdir = 0 then exec_bad 0 (Some ip)
     else
     kbind (exec_load (unat (elf_phnum (get_elfhdr b))) ip pgdir (elf_phoff (get_elfhdr b)) 0) (\<lambda>r.
     case r of None \<Rightarrow> exec_bad pgdir (Some ip)
     | Some sz \<Rightarrow>
     kseq (iunlockput ip) (
     kseq end_op
     (exec_stack p pth argv pgdir sz (elf_entry (get_elfhdr b)))))))))))"

text \<open>The loop of \<open>sys_exec\<close> collects at most \<open>MAXARG - 1\<close> strings before the null pointer.\<close>

primrec sys_exec_args :: "nat \<Rightarrow> u32 \<Rightarrow> u8 list list option kern" where
  "sys_exec_args 0 uargv = kret None"
| "sys_exec_args (Suc n) uargv =
     kbind (fetchint uargv) (\<lambda>r.
     case r of None \<Rightarrow> kret None
     | Some uarg \<Rightarrow>
         if uarg = 0 then kret (Some [])
         else
           kbind (fetchstr uarg) (\<lambda>r.
           case r of None \<Rightarrow> kret None
           | Some a \<Rightarrow>
               kbind (sys_exec_args n (uargv + 4)) (\<lambda>r. kret (map_option ((#) a) r))))"

definition sys_exec :: "int kern" where
  "sys_exec =
     with_arg (argstr 0) (\<lambda>pth.
     with_arg (argint 1) (\<lambda>uargv.
     with_arg (sys_exec_args MAXARG uargv) (\<lambda>argv.
     exec pth argv)))"

end
