(* ===== verification/Trap.thy ===== *)
theory Trap
  imports Sysfile
begin

text \<open>
  \<open>syscall\<close> (\<open>syscall.c\<close>) and \<open>trap\<close> (\<open>trap.c\<close>). What the devices and the processor deliver with an
  interrupt is the record \<open>trapin\<close>: the register \<open>cr2\<close>, the bytes waiting in the keyboard controller and in
  the receiver of the serial port, and the static variable \<open>shift\<close> of the keyboard driver.
\<close>

section \<open>Dispatch of system calls\<close>

definition syscalls :: "u32 \<Rightarrow> int kern option" where
  "syscalls num =
     (if sint num < 1 \<or> 25 \<le> sint num then None
      else Some ([sys_fork, sys_exit, sys_wait, sys_pipe, sys_read, sys_kill, sys_exec, sys_fstat, sys_chdir,
                  sys_dup, sys_getpid, sys_sbrk, sys_sleep, sys_uptime, sys_open, sys_write, sys_mknod,
                  sys_unlink, sys_link, sys_mkdir, sys_close, sys_swapread, sys_swapwrite, sys_swapstat]
                 ! (unat num - 1)))"

definition set_eax :: "nat \<Rightarrow> int \<Rightarrow> unit kern" where
  "set_eax p r = kmod (upd_proc p (\<lambda>q. q\<lparr>p_tf := (p_tf q)\<lparr>tf_eax := word_of_int r\<rparr>\<rparr>))"

definition syscall :: "unit kern" where
  "syscall =
     kbind cur (\<lambda>p.
     kbind (kget (\<lambda>s. proc_at s p)) (\<lambda>q.
     case syscalls (tf_eax (p_tf q)) of
       Some f \<Rightarrow> kbind f (set_eax p)
     | None \<Rightarrow>
         kseq (cprintf (ascii ''%d %s: unknown sys call %d'' @ [10])
                 [AWord (word_of_int (p_pid q)), AStr (Some (ascii (p_name q))), AWord (tf_eax (p_tf q))])
         (set_eax p (- 1))))"

section \<open>Traps and interrupts\<close>

definition T_PGFLT :: u32 where "T_PGFLT = 14"
definition T_SYSCALL :: u32 where "T_SYSCALL = 64"
definition T_IRQ0 :: u32 where "T_IRQ0 = 32"
definition IRQ_TIMER :: u32 where "IRQ_TIMER = 0"
definition IRQ_KBD :: u32 where "IRQ_KBD = 1"
definition IRQ_COM1 :: u32 where "IRQ_COM1 = 4"
definition IRQ_IDE :: u32 where "IRQ_IDE = 14"
definition IRQ_SPURIOUS :: u32 where "IRQ_SPURIOUS = 31"

record trapin =
  ti_cr2 :: u32
  ti_shift :: u8
  ti_kbd :: "u8 list"
  ti_uart :: "u8 list"

definition tvinit :: "unit kern" where
  "tvinit = initlock LTicks ''time''"

definition exit_if_killed :: "unit kern" where
  "exit_if_killed = kbind my_killed (\<lambda>killed. kwhen killed exit)"

definition trap_syscall :: "trapframe \<Rightarrow> unit kern" where
  "trap_syscall tf =
     kseq exit_if_killed (
     kbind cur (\<lambda>p.
     kseq (kmod (upd_proc p (\<lambda>q. q\<lparr>p_tf := tf\<rparr>))) (
     kseq syscall
     exit_if_killed)))"

definition timer_tick :: "unit kern" where
  "timer_tick =
     kbind cpuid (\<lambda>c.
     kwhen (c = 0) (
       kseq (acquire LTicks) (
       kseq (kmod (\<lambda>s. s\<lparr>ticks := ticks s + 1\<rparr>)) (
       kseq (wakeup ChTicks)
       (release LTicks)))))"

definition trap_default :: "trapin \<Rightarrow> trapframe \<Rightarrow> unit kern" where
  "trap_default ti tf =
     kbind myproc (\<lambda>po.
     kbind cpuid (\<lambda>c.
     if po = None \<or> tf_cs tf AND 3 = 0 then
       kseq (cprintf (ascii ''unexpected trap %d from cpu %d eip %x (cr2=0x%x)'' @ [10])
               [AWord (tf_trapno tf), AWord (of_nat c), AWord (tf_eip tf), AWord (ti_cr2 ti)])
       (panic ''trap'')
     else
       kbind (null_check po) (\<lambda>p.
       kbind (kget (\<lambda>s. proc_at s p)) (\<lambda>q.
       kseq (cprintf (ascii ''pid %d %s: trap %d err %d on cpu %d eip 0x%x addr 0x%x--kill proc'' @ [10])
               [AWord (word_of_int (p_pid q)), AStr (Some (ascii (p_name q))), AWord (tf_trapno tf),
                AWord (tf_err tf), AWord (of_nat c), AWord (tf_eip tf), AWord (ti_cr2 ti)])
       (kmod (upd_proc p (\<lambda>q. q\<lparr>p_killed := True\<rparr>)))))))"

text \<open>The switch statement; the result is the new value of \<open>shift\<close>.\<close>

definition trap_switch :: "trapin \<Rightarrow> trapframe \<Rightarrow> u8 kern" where
  "trap_switch ti tf =
     (let t = tf_trapno tf; done = (\<lambda>m. kseq m (kret (ti_shift ti))) in
      if t = T_IRQ0 + IRQ_TIMER then done timer_tick
      else if t = T_IRQ0 + IRQ_IDE then done ideintr
      else if t = T_IRQ0 + IRQ_IDE + 1 then done (kret ())
      else if t = T_IRQ0 + IRQ_KBD then kbdintr (ti_shift ti) (ti_kbd ti)
      else if t = T_IRQ0 + IRQ_COM1 then done (uartintr (ti_uart ti))
      else if t = T_IRQ0 + 7 \<or> t = T_IRQ0 + IRQ_SPURIOUS then
        done (kbind cpuid (\<lambda>c.
              cprintf (ascii ''cpu%d: spurious interrupt at %x:%x'' @ [10])
                [AWord (of_nat c), AWord (ucast (tf_cs tf)), AWord (tf_eip tf)]))
      else if t = T_PGFLT then done (pgintr (ti_cr2 ti))
      else done (trap_default ti tf))"

definition exit_if_killed_user :: "trapframe \<Rightarrow> unit kern" where
  "exit_if_killed_user tf =
     kbind myproc (\<lambda>po.
     case po of
       None \<Rightarrow> kret ()
     | Some p \<Rightarrow>
         kbind (kget (\<lambda>s. p_killed (proc_at s p))) (\<lambda>killed.
         kwhen (killed \<and> tf_cs tf AND 3 = DPL_USER) exit))"

definition trap :: "trapin \<Rightarrow> trapframe \<Rightarrow> u8 kern" where
  "trap ti tf =
     (if tf_trapno tf = T_SYSCALL then kseq (trap_syscall tf) (kret (ti_shift ti))
      else
        kbind (trap_switch ti tf) (\<lambda>shift.
        kseq (exit_if_killed_user tf) (
        kbind myproc (\<lambda>po.
        kbind (case po of None \<Rightarrow> kret False | Some p \<Rightarrow> kget (\<lambda>s. p_state (proc_at s p) = RUNNING)) (\<lambda>running.
        kseq (kwhen (running \<and> tf_trapno tf = T_IRQ0 + IRQ_TIMER) yield) (
        kseq (exit_if_killed_user tf)
        (kret shift)))))))"

text \<open>What is left of \<open>trap\<close> when a process that yielded runs again.\<close>

definition trap_resume :: "bool \<Rightarrow> trapframe \<Rightarrow> unit kern" where
  "trap_resume ie tf = kseq (yield_resume ie) (exit_if_killed_user tf)"

end
