(* ===== verification/Apic.thy ===== *)
theory Apic
  imports Mp Trap
begin

text \<open>
  The interrupt controllers and the clock: \<open>lapic.c\<close>, \<open>ioapic.c\<close> and \<open>picirq.c\<close>. Their registers are device registers
  and ports of \<open>platform\<close>. The theory shows which interrupts are delivered after \<open>ioapicinit\<close> and
  \<open>ioapicenable\<close>, and that \<open>cmostime\<close> decodes the clock.
\<close>

section \<open>The local APIC\<close>

text \<open>Registers, as indices of 32-bit words.\<close>

definition LAPIC_ID :: u32 where "LAPIC_ID = 0x0020 div 4"
definition LAPIC_VER :: u32 where "LAPIC_VER = 0x0030 div 4"
definition LAPIC_TPR :: u32 where "LAPIC_TPR = 0x0080 div 4"
definition LAPIC_EOI :: u32 where "LAPIC_EOI = 0x00B0 div 4"
definition LAPIC_SVR :: u32 where "LAPIC_SVR = 0x00F0 div 4"
definition LAPIC_ENABLE :: u32 where "LAPIC_ENABLE = 0x00000100"
definition LAPIC_ESR :: u32 where "LAPIC_ESR = 0x0280 div 4"
definition LAPIC_ICRLO :: u32 where "LAPIC_ICRLO = 0x0300 div 4"
definition LAPIC_INIT :: u32 where "LAPIC_INIT = 0x00000500"
definition LAPIC_STARTUP :: u32 where "LAPIC_STARTUP = 0x00000600"
definition LAPIC_DELIVS :: u32 where "LAPIC_DELIVS = 0x00001000"
definition LAPIC_ASSERT :: u32 where "LAPIC_ASSERT = 0x00004000"
definition LAPIC_LEVEL :: u32 where "LAPIC_LEVEL = 0x00008000"
definition LAPIC_BCAST :: u32 where "LAPIC_BCAST = 0x00080000"
definition LAPIC_ICRHI :: u32 where "LAPIC_ICRHI = 0x0310 div 4"
definition LAPIC_TIMER :: u32 where "LAPIC_TIMER = 0x0320 div 4"
definition LAPIC_X1 :: u32 where "LAPIC_X1 = 0x0000000B"
definition LAPIC_PERIODIC :: u32 where "LAPIC_PERIODIC = 0x00020000"
definition LAPIC_PCINT :: u32 where "LAPIC_PCINT = 0x0340 div 4"
definition LAPIC_LINT0 :: u32 where "LAPIC_LINT0 = 0x0350 div 4"
definition LAPIC_LINT1 :: u32 where "LAPIC_LINT1 = 0x0360 div 4"
definition LAPIC_ERROR :: u32 where "LAPIC_ERROR = 0x0370 div 4"
definition LAPIC_MASKED :: u32 where "LAPIC_MASKED = 0x00010000"
definition LAPIC_TICR :: u32 where "LAPIC_TICR = 0x0380 div 4"
definition LAPIC_TDCR :: u32 where "LAPIC_TDCR = 0x03E0 div 4"

definition IRQ_ERROR :: u32 where "IRQ_ERROR = 19"

definition lapicr :: "u32 \<Rightarrow> u32 plat" where
  "lapicr index = kbind (kget pl_lapic) (\<lambda>lapic. reg_read (lapic + 4 * index))"

definition lapicw :: "u32 \<Rightarrow> u32 \<Rightarrow> unit plat" where
  "lapicw index val =
     kbind (kget pl_lapic) (\<lambda>lapic.
     kseq (reg_write (lapic + 4 * index) val) (
     kbind (lapicr LAPIC_ID) (\<lambda>_. kret ())))"

text \<open>
  The wait for the delivery of an interrupt to other processors ends when the device says so; \<open>f\<close> bounds the
  number of times that it is asked.
\<close>

primrec lapic_wait :: "nat \<Rightarrow> unit plat" where
  "lapic_wait 0 = kstop Spin"
| "lapic_wait (Suc f) = kbind (lapicr LAPIC_ICRLO) (\<lambda>v. if v AND LAPIC_DELIVS \<noteq> 0 then lapic_wait f else kret ())"

definition lapicinit :: "nat \<Rightarrow> unit plat" where
  "lapicinit f =
     kbind (kget pl_lapic) (\<lambda>lapic.
     if lapic = 0 then kret ()
     else
       kseq (lapicw LAPIC_SVR (LAPIC_ENABLE OR (T_IRQ0 + IRQ_SPURIOUS))) (
       kseq (lapicw LAPIC_TDCR LAPIC_X1) (
       kseq (lapicw LAPIC_TIMER (LAPIC_PERIODIC OR (T_IRQ0 + IRQ_TIMER))) (
       kseq (lapicw LAPIC_TICR 10000000) (
       kseq (lapicw LAPIC_LINT0 LAPIC_MASKED) (
       kseq (lapicw LAPIC_LINT1 LAPIC_MASKED) (
       kbind (lapicr LAPIC_VER) (\<lambda>ver.
       kseq (kwhen (4 \<le> drop_bit 16 ver AND 0xFF) (lapicw LAPIC_PCINT LAPIC_MASKED)) (
       kseq (lapicw LAPIC_ERROR (T_IRQ0 + IRQ_ERROR)) (
       kseq (lapicw LAPIC_ESR 0) (
       kseq (lapicw LAPIC_ESR 0) (
       kseq (lapicw LAPIC_EOI 0) (
       kseq (lapicw LAPIC_ICRHI 0) (
       kseq (lapicw LAPIC_ICRLO (LAPIC_BCAST OR LAPIC_INIT OR LAPIC_LEVEL)) (
       kseq (lapic_wait f)
       (lapicw LAPIC_TPR 0))))))))))))))))"

definition lapic_id :: "u32 plat" where
  "lapic_id =
     kbind (kget pl_lapic) (\<lambda>lapic.
     if lapic = 0 then kret 0 else kbind (lapicr LAPIC_ID) (\<lambda>v. kret (drop_bit 24 v)))"

definition lapiceoi :: "unit plat" where
  "lapiceoi = kbind (kget pl_lapic) (\<lambda>lapic. kwhen (lapic \<noteq> 0) (lapicw LAPIC_EOI 0))"

definition microdelay :: "int \<Rightarrow> unit plat" where
  "microdelay us = kret ()"

definition CMOS_PORT :: u16 where "CMOS_PORT = 0x70"
definition CMOS_RETURN :: u16 where "CMOS_RETURN = 0x71"

definition store16 :: "u32 \<Rightarrow> u16 \<Rightarrow> memory \<Rightarrow> memory" where
  "store16 a v m = m(a := ucast v, a + 1 := ucast (drop_bit 8 v))"

definition startup_ipi :: "u8 \<Rightarrow> u32 \<Rightarrow> unit plat" where
  "startup_ipi i addr =
     kseq (lapicw LAPIC_ICRHI (push_bit 24 (ucast i))) (
     kseq (lapicw LAPIC_ICRLO (LAPIC_STARTUP OR drop_bit 12 addr))
     (microdelay 200))"

definition lapicstartap :: "u8 \<Rightarrow> u32 \<Rightarrow> unit plat" where
  "lapicstartap i addr =
     kseq (outb CMOS_PORT 0xF) (
     kseq (outb (CMOS_PORT + 1) 0x0A) (
     kseq (kmod (\<lambda>s. s\<lparr>pl_mem := store16 (P2V 0x467) 0 (pl_mem s)\<rparr>)) (
     kseq (kmod (\<lambda>s. s\<lparr>pl_mem := store16 (P2V 0x467 + 2) (ucast (drop_bit 4 addr)) (pl_mem s)\<rparr>)) (
     kseq (lapicw LAPIC_ICRHI (push_bit 24 (ucast i))) (
     kseq (lapicw LAPIC_ICRLO (LAPIC_INIT OR LAPIC_LEVEL OR LAPIC_ASSERT)) (
     kseq (microdelay 200) (
     kseq (lapicw LAPIC_ICRLO (LAPIC_INIT OR LAPIC_LEVEL)) (
     kseq (microdelay 100)
     (kfor [0..<2] (\<lambda>_. startup_ipi i addr))))))))))"

section \<open>The clock\<close>

record rtcdate =
  r_second :: u32
  r_minute :: u32
  r_hour :: u32
  r_day :: u32
  r_month :: u32
  r_year :: u32

definition cmos_read :: "u8 \<Rightarrow> u32 plat" where
  "cmos_read reg =
     kseq (outb CMOS_PORT reg) (
     kseq (microdelay 200) (
     kbind (inb CMOS_RETURN) (\<lambda>v.
     kret (ucast v))))"

definition fill_rtcdate :: "rtcdate plat" where
  "fill_rtcdate =
     kbind (cmos_read 0x00) (\<lambda>sec.
     kbind (cmos_read 0x02) (\<lambda>mi.
     kbind (cmos_read 0x04) (\<lambda>h.
     kbind (cmos_read 0x07) (\<lambda>d.
     kbind (cmos_read 0x08) (\<lambda>mo.
     kbind (cmos_read 0x09) (\<lambda>y.
     kret \<lparr>r_second = sec, r_minute = mi, r_hour = h, r_day = d, r_month = mo, r_year = y\<rparr>))))))"

definition CMOS_STATA :: u8 where "CMOS_STATA = 0x0a"
definition CMOS_STATB :: u8 where "CMOS_STATB = 0x0b"
definition CMOS_UIP :: u32 where "CMOS_UIP = 0x80"

text \<open>
  The loop ends when the clock is not being updated and two readings in a row agree; \<open>f\<close> bounds the number of
  attempts.
\<close>

primrec cmos_loop :: "nat \<Rightarrow> rtcdate plat" where
  "cmos_loop 0 = kstop Spin"
| "cmos_loop (Suc f) =
     kbind fill_rtcdate (\<lambda>t1.
     kbind (cmos_read CMOS_STATA) (\<lambda>a.
     if a AND CMOS_UIP \<noteq> 0 then cmos_loop f
     else kbind fill_rtcdate (\<lambda>t2. if t1 = t2 then kret t1 else cmos_loop f)))"

definition conv :: "u32 \<Rightarrow> u32" where
  "conv x = drop_bit 4 x * 10 + (x AND 0xf)"

definition cmostime :: "nat \<Rightarrow> rtcdate plat" where
  "cmostime f =
     kbind (cmos_read CMOS_STATB) (\<lambda>b.
     kbind (cmos_loop f) (\<lambda>t.
     let t = (if b AND 4 = 0
              then \<lparr>r_second = conv (r_second t), r_minute = conv (r_minute t), r_hour = conv (r_hour t),
                    r_day = conv (r_day t), r_month = conv (r_month t), r_year = conv (r_year t)\<rparr>
              else t)
     in kret (t\<lparr>r_year := r_year t + 2000\<rparr>)))"

section \<open>The I/O APIC and the old controllers\<close>

definition IOAPIC :: u32 where "IOAPIC = 0xFEC00000"
definition REG_ID :: u32 where "REG_ID = 0"
definition REG_VER :: u32 where "REG_VER = 1"
definition REG_TABLE :: u32 where "REG_TABLE = 0x10"
definition INT_DISABLED :: u32 where "INT_DISABLED = 0x00010000"

definition ioapicread :: "u32 \<Rightarrow> u32 plat" where
  "ioapicread reg = kseq (reg_write IOAPIC reg) (reg_read (IOAPIC + 16))"

definition ioapicwrite :: "u32 \<Rightarrow> u32 \<Rightarrow> unit plat" where
  "ioapicwrite reg data = kseq (reg_write IOAPIC reg) (reg_write (IOAPIC + 16) data)"

definition ioapicinit :: "unit plat" where
  "ioapicinit =
     kbind (ioapicread REG_VER) (\<lambda>ver.
     kbind (ioapicread REG_ID) (\<lambda>idr.
     kbind (kget pl_ioapicid) (\<lambda>iid.
     kseq (kwhen (drop_bit 24 idr \<noteq> ucast iid)
       (kmod (\<lambda>s. s\<lparr>pl_msgs := pl_msgs s @ [''ioapicinit: id isn't equal to ioapicid; not a MP'' @ [CHR 0x0A]]\<rparr>))) (
     kfor [0..<Suc (unat (drop_bit 16 ver AND 0xFF))] (\<lambda>i.
       kseq (ioapicwrite (REG_TABLE + 2 * of_nat i) (INT_DISABLED OR (T_IRQ0 + of_nat i)))
       (ioapicwrite (REG_TABLE + 2 * of_nat i + 1) 0))))))"

definition ioapicenable :: "u32 \<Rightarrow> u32 \<Rightarrow> unit plat" where
  "ioapicenable irq cpunum =
     kseq (ioapicwrite (REG_TABLE + 2 * irq) (T_IRQ0 + irq))
     (ioapicwrite (REG_TABLE + 2 * irq + 1) (push_bit 24 cpunum))"

definition IO_PIC1 :: u16 where "IO_PIC1 = 0x20"
definition IO_PIC2 :: u16 where "IO_PIC2 = 0xA0"

definition picinit :: "unit plat" where
  "picinit = kseq (outb (IO_PIC1 + 1) 0xFF) (outb (IO_PIC2 + 1) 0xFF)"

section \<open>Which interrupts are delivered\<close>

text \<open>
  The registers of the I/O APIC after a sequence of writes, the latest first: a write to the first word selects a
  register, a write to the data word changes the selected one.
\<close>

fun ioapic_view :: "(u32 \<times> u32) list \<Rightarrow> u32 \<times> (u32 \<Rightarrow> u32)" where
  "ioapic_view [] = (0, \<lambda>_. 0)"
| "ioapic_view ((a, v) # ws) =
     (let (sel, rg) = ioapic_view ws in
      if a = IOAPIC then (v, rg) else if a = IOAPIC + 16 then (sel, rg(sel := v)) else (sel, rg))"

definition ioapic_reg :: "platform \<Rightarrow> u32 \<Rightarrow> u32" where
  "ioapic_reg s = snd (ioapic_view (pl_writes s))"

lemma IOAPIC_words: "IOAPIC + 16 \<noteq> IOAPIC"
  by (simp add: IOAPIC_def)

lemma ioapicwrite_run:
  "\<exists>t. ioapicwrite r d s = Inr ((), t) \<and> ioapic_reg t = (ioapic_reg s)(r := d)"
  by (simp add: ioapicwrite_def reg_write_def ioapic_reg_def IOAPIC_words split_beta)

lemma ioapicread_run: "\<exists>v t. ioapicread r s = Inr (v, t) \<and> ioapic_reg t = ioapic_reg s \<and> v = pl_regs s (pl_reads s) ((IOAPIC, r) # pl_writes s) (IOAPIC + 16)"
  by (simp add: ioapicread_def reg_write_def reg_read_def ioapic_reg_def split_beta)

text \<open>Any sequence of register writes.\<close>

lemma kfor_ioapic:
  assumes "\<And>i s. i \<in> set is \<Longrightarrow> \<exists>t. f i s = Inr ((), t) \<and> ioapic_reg t = g i (ioapic_reg s)"
  shows "\<exists>t. kfor is f s = Inr ((), t) \<and> ioapic_reg t = fold g is (ioapic_reg s)"
  using assms
proof (induction "is" arbitrary: s)
  case (Cons i "is")
  from Cons.prems [of i s] obtain u where u: "f i s = Inr ((), u)" "ioapic_reg u = g i (ioapic_reg s)" by auto
  from Cons.IH [of u] Cons.prems obtain t where "kfor is f u = Inr ((), t)" "ioapic_reg t = fold g is (ioapic_reg u)" by auto
  with u show ?case by auto
qed simp

lemma two_writes:
  "\<exists>t. kseq (ioapicwrite a v) (ioapicwrite b w) s = Inr ((), t) \<and> ioapic_reg t = (ioapic_reg s)(a := v, b := w)"
proof -
  obtain u where u: "ioapicwrite a v s = Inr ((), u)" "ioapic_reg u = (ioapic_reg s)(a := v)" using ioapicwrite_run by blast
  obtain t where "ioapicwrite b w u = Inr ((), t)" "ioapic_reg t = (ioapic_reg u)(b := w)" using ioapicwrite_run by blast
  with u show ?thesis by auto
qed

definition row :: "u32 \<Rightarrow> u32" where "row i = REG_TABLE + 2 * i"

lemma row_inject:
  assumes "unat i < 256" and "unat j < 256"
  shows "row i = row j \<longleftrightarrow> i = j" and "row i + 1 \<noteq> row j"
proof -
  have u: "unat (row k) = 16 + 2 * unat k" if "unat k < 256" for k
    using that by (simp add: row_def REG_TABLE_def unat_word_ariths)
  show "row i = row j \<longleftrightarrow> i = j" using u [OF assms(1)] u [OF assms(2)] by (auto simp: word_unat_eq_iff)
  have "unat (row i + 1) = 17 + 2 * unat i" using u [OF assms(1)] assms(1) by (simp add: unat_word_ariths)
  then have "unat (row i + 1) \<noteq> unat (row j)" using u [OF assms(2)] by presburger
  then show "row i + 1 \<noteq> row j" by auto
qed

definition put_row :: "u32 \<Rightarrow> u32 \<Rightarrow> u32 \<Rightarrow> (u32 \<Rightarrow> u32) \<Rightarrow> u32 \<Rightarrow> u32" where
  "put_row i v w rg = rg(row i := v, row i + 1 := w)"

lemma put_row_at: "unat i < 256 \<Longrightarrow> unat j < 256 \<Longrightarrow> put_row i v w rg (row j) = (if i = j then v else rg (row j))"
  using row_inject [of i j] by (auto simp: put_row_def)

lemma two_writes_row:
  "\<exists>t. kseq (ioapicwrite (row i) v) (ioapicwrite (row i + 1) w) s = Inr ((), t) \<and> ioapic_reg t = put_row i v w (ioapic_reg s)"
  unfolding put_row_def by (rule two_writes)

lemma fold_rows:
  assumes "\<And>i. i \<in> set is \<Longrightarrow> unat (k i) < 256" and "unat j < 256"
    and "\<And>i. i \<in> set is \<Longrightarrow> k i = j \<Longrightarrow> v i = x"
  shows "fold (\<lambda>i. put_row (k i) (v i) (w i)) is rg (row j) =
     (if j \<in> k ` set is then x else rg (row j))"
  using assms
proof (induction "is" arbitrary: rg)
  case (Cons i "is")
  have "k i = j \<Longrightarrow> v i = x" "unat (k i) < 256" using Cons.prems by simp_all
  with Cons.IH [of "put_row (k i) (v i) (w i) rg"] Cons.prems show ?case by (auto simp: put_row_at)
qed simp

lemma unat_irq: "i < 256 \<Longrightarrow> unat (of_nat i :: u32) = i"
  by (simp add: unat_of_nat)

lemma byte_mask: "unat (x AND 0xFF :: u32) < 256"
proof -
  have "x AND 0xFF \<le> 0xFF" by (rule word_and_le1)
  then show ?thesis by (simp add: word_le_nat_alt)
qed

text \<open>What the version register reports as the highest interrupt number.\<close>

definition max_intr :: "platform \<Rightarrow> nat" where
  "max_intr s = unat (drop_bit 16 (pl_regs s (pl_reads s) ((IOAPIC, REG_VER) # pl_writes s) (IOAPIC + 16)) AND 0xFF)"

lemma ioapicinit_run:
  "\<exists>t. ioapicinit s = Inr ((), t) \<and>
     (\<forall>j \<le> max_intr s. ioapic_reg t (row (of_nat j)) = INT_DISABLED OR (T_IRQ0 + of_nat j))"
proof -
  let ?n = "Suc (max_intr s)"
  obtain u where u: "ioapicread REG_VER s = Inr (pl_regs s (pl_reads s) ((IOAPIC, REG_VER) # pl_writes s) (IOAPIC + 16), u)"
    using ioapicread_run by blast
  obtain v w where w: "ioapicread REG_ID u = Inr (v, w)" using ioapicread_run by blast
  obtain x where x: "kwhen (drop_bit 24 v \<noteq> ucast (pl_ioapicid w))
      (kmod (\<lambda>s. s\<lparr>pl_msgs := pl_msgs s @ [''ioapicinit: id isn't equal to ioapicid; not a MP'' @ [CHR 0x0A]]\<rparr>)) w = Inr ((), x)"
    by (cases "drop_bit 24 v \<noteq> ucast (pl_ioapicid w)") simp_all
  let ?row = "\<lambda>i. put_row (of_nat i) (INT_DISABLED OR (T_IRQ0 + of_nat i)) 0"
  let ?w = "\<lambda>i. kseq (ioapicwrite (row (of_nat i)) (INT_DISABLED OR (T_IRQ0 + of_nat i))) (ioapicwrite (row (of_nat i) + 1) 0)"
  obtain t where t: "kfor [0..<?n] ?w x = Inr ((), t)" "ioapic_reg t = fold ?row [0..<?n] (ioapic_reg x)"
    using kfor_ioapic [of "[0..<?n]" ?w ?row x, OF two_writes_row] by blast
  have "ioapicinit s = Inr ((), t)"
    using u w x t(1) by (simp add: ioapicinit_def max_intr_def row_def)
  moreover have "ioapic_reg t (row (of_nat j)) = INT_DISABLED OR (T_IRQ0 + of_nat j)" if j: "j \<le> max_intr s" for j
  proof -
    have m: "max_intr s < 256" unfolding max_intr_def by (rule byte_mask)
    have eq: "i = j" if "i \<in> set [0..<?n]" "of_nat i = (of_nat j :: u32)" for i
      using that j m unat_irq [of i] unat_irq [of j] by auto
    have "(of_nat j :: u32) \<in> of_nat ` set [0..<?n]" using j by (simp del: upt_Suc)
    moreover have "ioapic_reg t (row (of_nat j)) =
        (if (of_nat j :: u32) \<in> of_nat ` set [0..<?n] then INT_DISABLED OR (T_IRQ0 + of_nat j) else ioapic_reg x (row (of_nat j)))"
      unfolding t(2) by (rule fold_rows) (use j m unat_irq eq in auto)
    ultimately show ?thesis by simp
  qed
  ultimately show ?thesis by blast
qed

text \<open>
  C27. Interrupts that are delivered: after \<open>ioapicinit\<close> and any sequence of \<open>ioapicenable\<close>, the
  entry of an interrupt that was enabled delivers the vector \<open>T_IRQ0\<close> plus its number, and the entry of every other
  interrupt of the controller is masked.
\<close>

theorem ioapic_delivers_enabled:
  assumes "\<forall>e \<in> set es. fst e < 256"
  shows "\<exists>t. kseq ioapicinit (kfor es (\<lambda>(irq, c). ioapicenable irq c)) s = Inr ((), t) \<and>
     (\<forall>j \<le> max_intr s. ioapic_reg t (REG_TABLE + 2 * of_nat j) =
        (if of_nat j \<in> fst ` set es then T_IRQ0 + of_nat j else INT_DISABLED OR (T_IRQ0 + of_nat j)))"
proof -
  obtain u where u: "ioapicinit s = Inr ((), u)"
    "\<forall>j \<le> max_intr s. ioapic_reg u (row (of_nat j)) = INT_DISABLED OR (T_IRQ0 + of_nat j)"
    using ioapicinit_run by blast
  let ?row = "\<lambda>e. put_row (fst e) (T_IRQ0 + fst e) (push_bit 24 (snd e))"
  have "\<exists>t. (\<lambda>(irq, c). ioapicenable irq c) e r = Inr ((), t) \<and> ioapic_reg t = ?row e (ioapic_reg r)" for e r
    using two_writes_row by (cases e) (simp add: ioapicenable_def row_def)
  then obtain t where t: "kfor es (\<lambda>(irq, c). ioapicenable irq c) u = Inr ((), t)" "ioapic_reg t = fold ?row es (ioapic_reg u)"
    using kfor_ioapic [of es _ ?row u] by blast
  have "ioapic_reg t (row (of_nat j)) =
      (if of_nat j \<in> fst ` set es then T_IRQ0 + of_nat j else INT_DISABLED OR (T_IRQ0 + of_nat j))"
    if j: "j \<le> max_intr s" for j
  proof -
    have m: "max_intr s < 256" unfolding max_intr_def by (rule byte_mask)
    show ?thesis
      unfolding t(2)
      by (subst fold_rows [where x = "T_IRQ0 + of_nat j"])
        (use assms j m unat_irq [of j] u(2) in \<open>auto simp: word_less_nat_alt\<close>)
  qed
  with u(1) t(1) show ?thesis by (auto simp: row_def)
qed

text \<open>A controller with 24 entries and a clock that shows 12:34:59 on 31 December 25.\<close>

definition clock_regs :: "u8 \<Rightarrow> u8" where
  "clock_regs r = (if r = 0 then 0x59 else if r = 2 then 0x34 else if r = 4 then 0x12 else if r = 7 then 0x31
     else if r = 8 then 0x12 else if r = 9 then 0x25 else 0)"

definition board :: platform where
  "board = \<lparr>pl_mem = (\<lambda>_. 0), pl_cpus = [], pl_ncpu = 0, pl_ioapicid = 0, pl_lapic = 0xFEE00000,
     pl_in = (\<lambda>n out port. case out of (p, r) # _ \<Rightarrow> if r = CMOS_STATA \<and> n < 8 then 0x80 else clock_regs r | [] \<Rightarrow> 0),
     pl_out = [], pl_regs = (\<lambda>_ _ _. 0x00170011), pl_writes = [], pl_reads = 0, pl_msgs = []\<rparr>"

theorem ioapic_delivers_enabled_witness:
  "\<exists>t. kseq ioapicinit (kfor [(1, 0), (14, 1)] (\<lambda>(irq, c). ioapicenable irq c)) board = Inr ((), t) \<and>
     ioapic_reg t (REG_TABLE + 2 * of_nat 14) = T_IRQ0 + 14 \<and>
     ioapic_reg t (REG_TABLE + 2 * of_nat 15) = INT_DISABLED OR (T_IRQ0 + 15)"
proof -
  have m: "max_intr board = 23" by (simp add: max_intr_def board_def)
  let ?es = "[(1 :: u32, 0 :: u32), (14, 1)]"
  have e: "\<forall>e \<in> set ?es. fst e < 256" by simp
  from ioapic_delivers_enabled [of ?es board, OF e] obtain t where
    t: "kseq ioapicinit (kfor ?es (\<lambda>(irq, c). ioapicenable irq c)) board = Inr ((), t)"
    "\<forall>j \<le> max_intr board. ioapic_reg t (REG_TABLE + 2 * of_nat j) =
        (if of_nat j \<in> fst ` set ?es then T_IRQ0 + of_nat j else INT_DISABLED OR (T_IRQ0 + of_nat j))"
    by blast
  from t(2) [rule_format, of 14] t(2) [rule_format, of 15] m
  have "ioapic_reg t (REG_TABLE + 2 * of_nat 14) = T_IRQ0 + 14"
    "ioapic_reg t (REG_TABLE + 2 * of_nat 15) = INT_DISABLED OR (T_IRQ0 + 15)" by simp_all
  with t(1) show ?thesis by blast
qed

section \<open>Reading the clock\<close>

text \<open>
  The clock answers a read of the data port with the register that was selected last; the answer may change from
  one read to the next.
\<close>

definition clock_dev :: "platform \<Rightarrow> (nat \<Rightarrow> u8 \<Rightarrow> u8) \<Rightarrow> bool" where
  "clock_dev s c \<longleftrightarrow> (\<forall>n r out. pl_in s n ((CMOS_PORT, r) # out) CMOS_RETURN = c n r)"

definition date_of :: "(u8 \<Rightarrow> u8) \<Rightarrow> rtcdate" where
  "date_of c = \<lparr>r_second = ucast (c 0), r_minute = ucast (c 2), r_hour = ucast (c 4), r_day = ucast (c 7),
     r_month = ucast (c 8), r_year = ucast (c 9)\<rparr>"

definition later :: "platform \<Rightarrow> nat \<Rightarrow> platform \<Rightarrow> bool" where
  "later s k t \<longleftrightarrow> pl_in t = pl_in s \<and> pl_reads t = pl_reads s + k"

lemma clock_dev_later: "later s k t \<Longrightarrow> clock_dev s c \<Longrightarrow> clock_dev t c"
  by (simp add: later_def clock_dev_def)

lemma later_trans: "later s k t \<Longrightarrow> later t m u \<Longrightarrow> later s (k + m) u"
  by (simp add: later_def)

lemma cmos_read_run:
  "clock_dev s c \<Longrightarrow> \<exists>t. cmos_read r s = Inr (ucast (c (pl_reads s) r), t) \<and> later s 1 t"
  by (simp add: cmos_read_def outb_def inb_def microdelay_def clock_dev_def later_def)

lemma fill_rtcdate_run:
  assumes "clock_dev s c"
  shows "\<exists>d t. fill_rtcdate s = Inr (d, t) \<and> later s 6 t \<and>
     ((\<forall>n \<ge> pl_reads s. c n = c0) \<longrightarrow> d = date_of c0)"
  using assms
  by (simp add: fill_rtcdate_def cmos_read_def outb_def inb_def microdelay_def clock_dev_def later_def date_of_def)

lemma cmos_loop_run:
  assumes "clock_dev s c" and "\<And>j. j < k \<Longrightarrow> (ucast (c (pl_reads s + 7 * j + 6) CMOS_STATA) :: u32) AND CMOS_UIP \<noteq> 0"
    and "\<And>n. pl_reads s + 7 * k \<le> n \<Longrightarrow> c n = c0" and "(ucast (c0 CMOS_STATA) :: u32) AND CMOS_UIP = 0" and "k < f"
  shows "\<exists>t. cmos_loop f s = Inr (date_of c0, t)"
  using assms
proof (induction k arbitrary: s f)
  case 0
  obtain f' where f: "f = Suc f'" using 0 by (cases f) auto
  obtain d t where t: "fill_rtcdate s = Inr (d, t)" "later s 6 t" "d = date_of c0"
    using fill_rtcdate_run [OF 0(1), of c0] 0(3) by auto
  obtain u where u: "cmos_read CMOS_STATA t = Inr (ucast (c (pl_reads t) CMOS_STATA), u)" "later t 1 u"
    using cmos_read_run [OF clock_dev_later [OF t(2) 0(1)]] by blast
  have dv: "clock_dev u c" using clock_dev_later t(2) u(2) 0(1) by blast
  have r: "pl_reads s \<le> pl_reads t" "pl_reads s \<le> pl_reads u" using t(2) u(2) by (simp_all add: later_def)
  obtain e w where w: "fill_rtcdate u = Inr (e, w)" "e = date_of c0"
    using fill_rtcdate_run [OF dv, of c0] 0(3) r by auto
  have "c (pl_reads t) = c0" using 0(3) r by simp
  then show ?case unfolding f using t u w 0(4) by simp
next
  case (Suc k)
  obtain f' where f: "f = Suc f'" using Suc.prems by (cases f) auto
  obtain d t where t: "fill_rtcdate s = Inr (d, t)" "later s 6 t"
    using fill_rtcdate_run [OF Suc.prems(1)] by blast
  obtain u where u: "cmos_read CMOS_STATA t = Inr (ucast (c (pl_reads t) CMOS_STATA), u)" "later t 1 u"
    using cmos_read_run [OF clock_dev_later [OF t(2) Suc.prems(1)]] by blast
  have l: "later s 7 u" using later_trans [OF t(2) u(2)] by simp
  then have r: "pl_reads u = pl_reads s + 7" "pl_reads t = pl_reads s + 6" using t(2) by (simp_all add: later_def)
  have "\<exists>t. cmos_loop f' u = Inr (date_of c0, t)"
  proof (rule Suc.IH)
    show "(ucast (c (pl_reads u + 7 * j + 6) CMOS_STATA) :: u32) AND CMOS_UIP \<noteq> 0" if "j < k" for j
      using Suc.prems(2) [of "Suc j"] that r(1) by (simp add: add.assoc)
    show "c n = c0" if "pl_reads u + 7 * k \<le> n" for n using Suc.prems(3) that r(1) by simp
  qed (use Suc.prems f clock_dev_later [OF l] in auto)
  then show ?case unfolding f using t u Suc.prems(2) [of 0] r by simp
qed

text \<open>Two decimal digits in a byte.\<close>

definition bcd :: "nat \<Rightarrow> u8" where
  "bcd n = of_nat (16 * (n div 10) + n mod 10)"

lemma conv_bcd:
  assumes "n < 100"
  shows "conv (ucast (bcd n)) = of_nat n"
proof -
  have "\<forall>n \<in> set [0..<100]. conv (ucast (bcd n)) = of_nat n" by code_simp
  with assms show ?thesis by simp
qed

text \<open>
  C28. The time of day: a clock that holds two-digit numbers in BCD and is being updated during the first \<open>k\<close>
  attempts (when anything can be read from it) is read by \<open>cmostime\<close> at attempt \<open>k + 1\<close>, with every field converted to
  a number and the year counted from 2000.
\<close>

theorem cmostime_reads:
  assumes dev: "clock_dev s c" and upd: "\<And>j. j < k \<Longrightarrow> (ucast (c (pl_reads s + 7 * j + 7) CMOS_STATA) :: u32) AND CMOS_UIP \<noteq> 0"
    and stable: "\<And>n. pl_reads s + 7 * k < n \<Longrightarrow> c n = c0" and idle: "(ucast (c0 CMOS_STATA) :: u32) AND CMOS_UIP = 0"
    and mode: "(ucast (c (pl_reads s) CMOS_STATB) :: u32) AND 4 = 0"
    and shown: "c0 0 = bcd sec" "c0 2 = bcd mi" "c0 4 = bcd h" "c0 7 = bcd d" "c0 8 = bcd mo" "c0 9 = bcd y"
    and two: "sec < 100" "mi < 100" "h < 100" "d < 100" "mo < 100" "y < 100" and f: "k < f"
  shows "\<exists>t. cmostime f s = Inr (\<lparr>r_second = of_nat sec, r_minute = of_nat mi, r_hour = of_nat h, r_day = of_nat d,
     r_month = of_nat mo, r_year = of_nat (2000 + y)\<rparr>, t)"
proof -
  obtain u where u: "cmos_read CMOS_STATB s = Inr (ucast (c (pl_reads s) CMOS_STATB), u)" "later s 1 u"
    using cmos_read_run [OF dev] by blast
  then have r: "pl_reads u = pl_reads s + 1" by (simp add: later_def)
  have "\<exists>t. cmos_loop f u = Inr (date_of c0, t)"
  proof (rule cmos_loop_run [OF clock_dev_later [OF u(2) dev]])
    show "(ucast (c (pl_reads u + 7 * j + 6) CMOS_STATA) :: u32) AND CMOS_UIP \<noteq> 0" if "j < k" for j
      using upd [OF that] r by (simp add: add.commute)
    show "c n = c0" if "pl_reads u + 7 * k \<le> n" for n using stable [of n] that r by simp
  qed (rule idle f)+
  then show ?thesis
    using u(1) mode two by (auto simp: cmostime_def date_of_def shown conv_bcd)
qed

theorem cmostime_reads_witness:
  "\<exists>t. cmostime 3 board = Inr (\<lparr>r_second = 59, r_minute = 34, r_hour = 12, r_day = 31, r_month = 12, r_year = 2025\<rparr>, t)"
proof -
  let ?c = "\<lambda>n r. if r = CMOS_STATA \<and> n < 8 then 0x80 else clock_regs r"
  have "clock_dev board ?c" by (simp add: clock_dev_def board_def)
  moreover have "?c n = clock_regs" if "pl_reads board + 7 * 1 < n" for n using that by auto
  moreover have "clock_regs 0 = bcd 59" "clock_regs 2 = bcd 34" "clock_regs 4 = bcd 12" "clock_regs 7 = bcd 31"
    "clock_regs 8 = bcd 12" "clock_regs 9 = bcd 25" by (simp_all add: clock_regs_def bcd_def)
  moreover have "pl_reads board = 0" by (simp add: board_def)
  moreover have "clock_regs CMOS_STATA = 0" "clock_regs CMOS_STATB = 0"
    by (simp_all add: clock_regs_def CMOS_STATA_def CMOS_STATB_def)
  ultimately show ?thesis
    using cmostime_reads [of board ?c 1 clock_regs 59 34 12 31 12 25 3] by (simp add: CMOS_UIP_def)
qed
end
