(* ===== verification/Mkfs.thy ===== *)
theory Mkfs
  imports Fs
begin

text \<open>
  \<open>mkfs.c\<close>, the program that builds the initial file system. The image is a file of \<open>img_end\<close> sectors: a
  write past the end extends it, a read past the end fails. A failed \<open>assert\<close> and the exits of the program
  with an error are a \<open>Fault\<close>. The host's own failures to open, seek or write are not modelled. The input files
  are given as their names and the pieces in which \<open>read\<close> returns their contents.
\<close>

section \<open>Layout\<close>

definition NINODES :: nat where "NINODES = 200"
definition nbitmap :: nat where "nbitmap = FSSIZE div (BSIZE * 8) + 1"
definition ninodeblocks :: nat where "ninodeblocks = NINODES div IPB + 1"
definition nlog :: nat where "nlog = LOGSIZE"
definition nmeta :: nat where "nmeta = 2 + nlog + ninodeblocks + nbitmap"
definition nblocks :: nat where "nblocks = FSSIZE - nmeta"

text \<open>Conversion to the byte order of the target, on a host with the same order.\<close>

definition xshort :: "u16 \<Rightarrow> u16" where
  "xshort x = word16 (ucast x) (ucast (drop_bit 8 x))"

definition xint :: "u32 \<Rightarrow> u32" where
  "xint x = word32 (ucast x) (ucast (drop_bit 8 x)) (ucast (drop_bit 16 x)) (ucast (drop_bit 24 x))"

definition mkfs_sb :: superblock where
  "mkfs_sb = \<lparr>sb_size = xint (of_nat FSSIZE), sb_nblocks = xint (of_nat nblocks), sb_ninodes = xint (of_nat NINODES),
     sb_nlog = xint (of_nat nlog), sb_logstart = xint 2, sb_inodestart = xint (of_nat (2 + nlog)),
     sb_bmapstart = xint (of_nat (2 + nlog + ninodeblocks))\<rparr>"

definition sb_bytes :: "superblock \<Rightarrow> u8 list" where
  "sb_bytes s = bytes32 (sb_size s) @ bytes32 (sb_nblocks s) @ bytes32 (sb_ninodes s) @ bytes32 (sb_nlog s) @
     bytes32 (sb_logstart s) @ bytes32 (sb_inodestart s) @ bytes32 (sb_bmapstart s)"

section \<open>Sectors and inodes\<close>

record mkstate =
  img :: "u32 \<Rightarrow> block"
  img_end :: nat
  freeinode :: u32
  freeblock :: u32

text \<open>The globals at the start, with the image just truncated.\<close>

definition mkfs_start :: mkstate where
  "mkfs_start = \<lparr>img = (\<lambda>_. replicate BSIZE 0), img_end = 0, freeinode = 1, freeblock = 0\<rparr>"

type_synonym 'a mk = "(mkstate, 'a) K"

definition massert :: "bool \<Rightarrow> unit mk" where
  "massert b = (if b then kret () else kstop (Fault ''assert''))"

text \<open>The offset \<open>sec * BSIZE\<close> is computed in 32 bits; this is the sector it falls on.\<close>

definition sector :: "u32 \<Rightarrow> u32" where
  "sector sec = sec * of_nat BSIZE div of_nat BSIZE"

definition wsect :: "u32 \<Rightarrow> block \<Rightarrow> unit mk" where
  "wsect sec b = kmod (\<lambda>s. s\<lparr>img := (img s)(sector sec := b), img_end := max (img_end s) (unat (sector sec) + 1)\<rparr>)"

definition rsect :: "u32 \<Rightarrow> block mk" where
  "rsect sec =
     kbind (kget img_end) (\<lambda>n.
     if n \<le> unat (sector sec) then kstop (Fault ''read'') else kget (\<lambda>s. img s (sector sec)))"

definition winode :: "u32 \<Rightarrow> dinode \<Rightarrow> unit mk" where
  "winode inum ip =
     (let bn = IBLOCK inum mkfs_sb in
      kbind (rsect bn) (\<lambda>b.
      wsect bn (put_dinode b (dinode_off inum) ip)))"

definition rinode :: "u32 \<Rightarrow> dinode mk" where
  "rinode inum =
     kbind (rsect (IBLOCK inum mkfs_sb)) (\<lambda>b.
     kret (get_dinode b (dinode_off inum)))"

definition ialloc_mk :: "u16 \<Rightarrow> u32 mk" where
  "ialloc_mk type =
     kbind (kget freeinode) (\<lambda>inum.
     kseq (kmod (\<lambda>s. s\<lparr>freeinode := inum + 1\<rparr>)) (
     kseq (winode inum \<lparr>d_type = xshort type, d_major = 0, d_minor = 0, d_nlink = xshort 1, d_size = xint 0,
             d_addrs = replicate (NDIRECT + 1) 0\<rparr>)
     (kret inum)))"

definition mark_bit :: "nat \<Rightarrow> block \<Rightarrow> block" where
  "mark_bit i b = b[i div 8 := b ! (i div 8) OR bit_mask i]"

definition balloc_mk :: "int \<Rightarrow> unit mk" where
  "balloc_mk used =
     kseq (massert (used < int BSIZE * 8))
     (wsect (sb_bmapstart mkfs_sb) (fold mark_bit [0..<nat used] (replicate BSIZE 0)))"

section \<open>Appending to a file\<close>

definition new_block :: "u32 mk" where
  "new_block =
     kbind (kget freeblock) (\<lambda>b.
     kseq (kmod (\<lambda>s. s\<lparr>freeblock := b + 1\<rparr>))
     (kret (xint b)))"

text \<open>The block of the file with index \<open>fbn\<close>, allocated if there is none, and the inode with it.\<close>

definition file_block :: "nat \<Rightarrow> dinode \<Rightarrow> (u32 \<times> dinode) mk" where
  "file_block fbn din =
     (if fbn < NDIRECT then
        kbind (if xint (d_addrs din ! fbn) = 0
               then kbind new_block (\<lambda>b. kret (din\<lparr>d_addrs := (d_addrs din)[fbn := b]\<rparr>)) else kret din) (\<lambda>din.
        kret (xint (d_addrs din ! fbn), din))
      else
        kbind (if xint (d_addrs din ! NDIRECT) = 0
               then kbind new_block (\<lambda>b. kret (din\<lparr>d_addrs := (d_addrs din)[NDIRECT := b]\<rparr>)) else kret din) (\<lambda>din.
        let a = xint (d_addrs din ! NDIRECT); k = 4 * (fbn - NDIRECT) in
        kbind (rsect a) (\<lambda>ind.
        kbind (if get32 ind k = 0
               then kbind new_block (\<lambda>b. kseq (wsect a (put32 ind k b)) (kret (put32 ind k b))) else kret ind) (\<lambda>ind.
        kret (xint (get32 ind k), din)))))"

text \<open>Every round of the loop consumes a byte at least, so there are at most as many rounds as bytes.\<close>

primrec iappend_loop :: "nat \<Rightarrow> u8 list \<Rightarrow> nat \<Rightarrow> dinode \<Rightarrow> (nat \<times> dinode) mk" where
  "iappend_loop 0 p off din = kret (off, din)"
| "iappend_loop (Suc f) p off din =
     (if p = [] then kret (off, din)
      else
        let fbn = off div BSIZE in
        kseq (massert (fbn < MAXFILE)) (
        kbind (file_block fbn din) (\<lambda>(x, din).
        let n1 = min (length p) ((fbn + 1) * BSIZE - off) in
        kbind (rsect x) (\<lambda>b.
        kseq (wsect x (patch b (off - fbn * BSIZE) (take n1 p)))
        (iappend_loop f (drop n1 p) (off + n1) din)))))"

definition iappend :: "u32 \<Rightarrow> u8 list \<Rightarrow> unit mk" where
  "iappend inum p =
     kbind (rinode inum) (\<lambda>din.
     kbind (iappend_loop (length p) p (unat (xint (d_size din))) din) (\<lambda>(off, din).
     winode inum (din\<lparr>d_size := xint (of_nat off)\<rparr>)))"

section \<open>main\<close>

definition dirent_bytes :: "u32 \<Rightarrow> u8 list \<Rightarrow> u8 list" where
  "dirent_bytes inum name = bytes16 (xshort (ucast inum)) @ dirent_name name"

text \<open>A leading underscore of a name is skipped.\<close>

definition skip_underscore :: "u8 list \<Rightarrow> u8 list" where
  "skip_underscore name = (case name of [] \<Rightarrow> [] | c # cs \<Rightarrow> if c = 0x5F then cs else name)"

definition add_file :: "u32 \<Rightarrow> u8 list \<times> u8 list list \<Rightarrow> unit mk" where
  "add_file rootino = (\<lambda>(name, chunks).
     kseq (massert (slash \<notin> set name)) (
     kbind (ialloc_mk T_FILE) (\<lambda>inum.
     kseq (iappend rootino (dirent_bytes inum (skip_underscore name)))
     (kfor chunks (iappend inum)))))"

definition mkfs_main :: "(u8 list \<times> u8 list list) list \<Rightarrow> unit mk" where
  "mkfs_main args =
     kseq (kmod (\<lambda>s. s\<lparr>freeblock := of_nat nmeta\<rparr>)) (
     kseq (kfor [0..<FSSIZE] (\<lambda>i. wsect (of_nat i) (replicate BSIZE 0))) (
     kseq (wsect 1 (patch (replicate BSIZE 0) 0 (sb_bytes mkfs_sb))) (
     kbind (ialloc_mk T_DIR) (\<lambda>rootino.
     kseq (massert (rootino = ROOTINO)) (
     kseq (iappend rootino (dirent_bytes rootino [0x2E])) (
     kseq (iappend rootino (dirent_bytes rootino [0x2E, 0x2E])) (
     kseq (kfor args (add_file rootino)) (
     kbind (rinode rootino) (\<lambda>din.
     let off = (unat (xint (d_size din)) div BSIZE + 1) * BSIZE in
     kseq (winode rootino (din\<lparr>d_size := xint (of_nat off)\<rparr>)) (
     kbind (kget freeblock) (\<lambda>fb.
     balloc_mk (sint fb))))))))))))"

section \<open>Facts about the primitives\<close>

lemma xshort_id [simp]: "xshort x = x"
  by (simp add: xshort_def)

lemma xint_id [simp]: "xint x = x"
  by (simp add: xint_def)

lemma layout_vals:
  "nbitmap = 25" "ninodeblocks = 26" "nlog = 30" "nmeta = 83" "nblocks = 99917" "NDIRECT = 12" "MAXFILE = 140" "BSIZE = 512"
  by (simp_all add: nbitmap_def ninodeblocks_def nlog_def nmeta_def nblocks_def NINODES_def IPB_def DINODE_SIZE_def BSIZE_def
        FSSIZE_def LOGSIZE_def MAXOPBLOCKS_def NDIRECT_def MAXFILE_def NINDIRECT_def)

lemma mkfs_sb_vals [simp]:
  "sb_size mkfs_sb = 100000" "sb_nblocks mkfs_sb = 99917" "sb_ninodes mkfs_sb = 200" "sb_nlog mkfs_sb = 30"
  "sb_logstart mkfs_sb = 2" "sb_inodestart mkfs_sb = 32" "sb_bmapstart mkfs_sb = 58"
  by (simp_all add: mkfs_sb_def layout_vals FSSIZE_def NINODES_def)

lemma massert_run [simp]: "b \<Longrightarrow> massert b s = Inr ((), s)"
  by (simp add: massert_def)

lemma sector_id [simp]:
  assumes "unat sec < 2 ^ 23"
  shows "sector sec = sec"
proof (rule word_unat_eq_iff [THEN iffD2])
  have "unat sec * 512 < 2 ^ 32" using assms by simp
  then have "unat (sec * 512) = unat sec * 512" by (simp add: unat_word_ariths)
  then show "unat (sector sec) = unat sec" by (simp add: sector_def BSIZE_def unat_div_distrib)
qed

lemma wsect_run [simp]:
  "unat sec < img_end s \<Longrightarrow> img_end s \<le> 2 ^ 23 \<Longrightarrow> wsect sec b s = Inr ((), s\<lparr>img := (img s)(sec := b)\<rparr>)"
  by (simp add: wsect_def max_def)

lemma rsect_run [simp]:
  "unat sec < img_end s \<Longrightarrow> img_end s \<le> 2 ^ 23 \<Longrightarrow> rsect sec s = Inr (img s sec, s)"
  by (simp add: rsect_def)

lemma new_block_run [simp]: "new_block s = Inr (freeblock s, s\<lparr>freeblock := freeblock s + 1\<rparr>)"
  by (simp add: new_block_def)

subsection \<open>Inodes\<close>

lemma length_concat_bytes32 [simp]: "length (concat (map bytes32 xs)) = 4 * length xs"
  by (induction xs) auto

lemma length_dinode_bytes: "length (d_addrs x) = NDIRECT + 1 \<Longrightarrow> length (dinode_bytes x) = DINODE_SIZE"
  by (simp add: dinode_bytes_def NDIRECT_def DINODE_SIZE_def)

lemma nth_concat_bytes32: "i < length xs \<Longrightarrow> j < 4 \<Longrightarrow> concat (map bytes32 xs) ! (4 * i + j) = bytes32 (xs ! i) ! j"
proof (induction xs arbitrary: i)
  case (Cons x xs)
  then show ?case
  proof (cases i)
    case (Suc k)
    then have "4 * i + j = 4 + (4 * k + j)" by simp
    then show ?thesis using Cons Suc by (simp only: list.map concat.simps nth_append length_bytes) simp
  qed (simp add: nth_append)
qed simp

lemma get_patch:
  assumes "k + length bs \<le> length d"
  shows "i + 2 \<le> length bs \<Longrightarrow> get16 (patch d k bs) (k + i) = get16 bs i"
    and "i + 4 \<le> length bs \<Longrightarrow> get32 (patch d k bs) (k + i) = get32 bs i"
  using assms by (simp_all add: get16_def get32_def nth_patch)

lemma get_patch_other:
  assumes "k + length bs \<le> length d"
  shows "i + 2 \<le> length d \<Longrightarrow> i + 2 \<le> k \<or> k + length bs \<le> i \<Longrightarrow> get16 (patch d k bs) i = get16 d i"
    and "i + 4 \<le> length d \<Longrightarrow> i + 4 \<le> k \<or> k + length bs \<le> i \<Longrightarrow> get32 (patch d k bs) i = get32 d i"
  using assms by (auto simp: get16_def get32_def nth_patch)

lemma get32_concat: "i < length xs \<Longrightarrow> get32 (concat (map bytes32 xs)) (4 * i) = xs ! i"
  using nth_concat_bytes32 [of i xs 0] nth_concat_bytes32 [of i xs 1] nth_concat_bytes32 [of i xs 2] nth_concat_bytes32 [of i xs 3]
  by (simp add: get32_def) (simp add: bytes32_def)

lemma get_append:
  "length xs \<le> i \<Longrightarrow> get16 (xs @ ys) i = get16 ys (i - length xs)"
  "length xs \<le> i \<Longrightarrow> get32 (xs @ ys) i = get32 ys (i - length xs)"
  by (simp_all add: get16_def get32_def nth_append Suc_diff_le)

lemma get_bytes [simp]: "get16 (bytes16 v @ ys) 0 = v" "get32 (bytes32 w @ ys) 0 = w" "get32 (bytes32 w) 0 = w"
  by (simp_all add: get16_def get32_def bytes16_def bytes32_def numeral_2_eq_2 numeral_3_eq_3)

lemma dinode_bytes_fields:
  assumes "length (d_addrs x) = NDIRECT + 1"
  shows "get16 (dinode_bytes x) 0 = d_type x" "get16 (dinode_bytes x) 2 = d_major x" "get16 (dinode_bytes x) 4 = d_minor x"
    "get16 (dinode_bytes x) 6 = d_nlink x" "get32 (dinode_bytes x) 8 = d_size x"
    "i < NDIRECT + 1 \<Longrightarrow> get32 (dinode_bytes x) (12 + 4 * i) = d_addrs x ! i"
  using assms by (simp_all add: dinode_bytes_def get_append get32_concat)

lemma get_put_dinode:
  assumes "length (d_addrs x) = NDIRECT + 1" and "k + DINODE_SIZE \<le> length d"
  shows "get_dinode (put_dinode d k x) k = x"
proof -
  let ?b = "dinode_bytes x"
  have L: "length ?b = 64" using assms(1) length_dinode_bytes by (simp add: DINODE_SIZE_def)
  have K: "k + length ?b \<le> length d" using assms(2) L by (simp add: DINODE_SIZE_def)
  have A: "map (\<lambda>i. get32 (patch d k ?b) (k + 12 + 4 * i)) [0..<NDIRECT + 1] = d_addrs x"
  proof (rule nth_equalityI)
    fix i assume "i < length (map (\<lambda>i. get32 (patch d k ?b) (k + 12 + 4 * i)) [0..<NDIRECT + 1])"
    then have i: "i < NDIRECT + 1" by simp
    then show "map (\<lambda>i. get32 (patch d k ?b) (k + 12 + 4 * i)) [0..<NDIRECT + 1] ! i = d_addrs x ! i"
      using get_patch(2) [OF K, of "12 + 4 * i"] L dinode_bytes_fields(6) [OF assms(1) i]
      by (simp add: NDIRECT_def add.assoc del: upt_Suc)
  qed (simp add: assms(1))
  show ?thesis
    using get_patch [OF K, of 0] get_patch(1) [OF K, of 2] get_patch(1) [OF K, of 4] get_patch(1) [OF K, of 6]
      get_patch(2) [OF K, of 8] L dinode_bytes_fields [OF assms(1)] A
    by (simp add: get_dinode_def put_dinode_def del: upt_Suc)
qed

lemma get_put_dinode_other:
  assumes "length (d_addrs x) = NDIRECT + 1" and "k + DINODE_SIZE \<le> length d" and "j + DINODE_SIZE \<le> length d"
    and "j + DINODE_SIZE \<le> k \<or> k + DINODE_SIZE \<le> j"
  shows "get_dinode (put_dinode d k x) j = get_dinode d j"
proof -
  have K: "k + length (dinode_bytes x) \<le> length d" "length (dinode_bytes x) = 64"
    using assms(1,2) length_dinode_bytes by (simp_all add: DINODE_SIZE_def)
  have "get32 (patch d k (dinode_bytes x)) (j + 12 + 4 * i) = get32 d (j + 12 + 4 * i)" if "i < 13" for i
    by (rule get_patch_other(2) [OF K(1)]) (use assms(3,4) that K(2) in \<open>auto simp: DINODE_SIZE_def\<close>)
  moreover have "get32 (patch d k (dinode_bytes x)) (j + 8) = get32 d (j + 8)"
    by (rule get_patch_other(2) [OF K(1)]) (use assms(3,4) K(2) in \<open>auto simp: DINODE_SIZE_def\<close>)
  moreover have "get16 (patch d k (dinode_bytes x)) (j + i) = get16 d (j + i)" if "i < 7" for i
    by (rule get_patch_other(1) [OF K(1)]) (use assms(3,4) that K(2) in \<open>auto simp: DINODE_SIZE_def\<close>)
  from this [of 0] this [of 2] this [of 4] this [of 6] calculation show ?thesis
    by (simp add: get_dinode_def put_dinode_def NDIRECT_def del: upt_Suc)
qed

section \<open>Files of the image\<close>

text \<open>
  The block with index \<open>i\<close> of a file, the blocks that a file of \<open>n\<close> data blocks occupies, its bytes, and
  what holds of the image and of an inode between two calls.
\<close>

definition fblk :: "mkstate \<Rightarrow> dinode \<Rightarrow> nat \<Rightarrow> u32" where
  "fblk s din i =
     (if i < NDIRECT then d_addrs din ! i
      else if d_addrs din ! NDIRECT = 0 then 0
      else get32 (img s (d_addrs din ! NDIRECT)) (4 * (i - NDIRECT)))"

definition fblocks :: "nat \<Rightarrow> nat" where
  "fblocks sz = (sz + 511) div 512"

definition cost :: "nat \<Rightarrow> nat" where
  "cost n = n + (if n > NDIRECT then 1 else 0)"

definition occupied :: "mkstate \<Rightarrow> dinode \<Rightarrow> nat \<Rightarrow> u32 set" where
  "occupied s din n = fblk s din ` {..<n} \<union> (if n > NDIRECT then {d_addrs din ! NDIRECT} else {})"

definition fdata :: "mkstate \<Rightarrow> dinode \<Rightarrow> nat \<Rightarrow> u8 list" where
  "fdata s din sz = map (\<lambda>k. img s (fblk s din (k div 512)) ! (k mod 512)) [0..<sz]"

definition data_block :: "mkstate \<Rightarrow> u32 \<Rightarrow> bool" where
  "data_block s b \<longleftrightarrow> nmeta \<le> unat b \<and> unat b < unat (freeblock s)"

definition img_ok :: "mkstate \<Rightarrow> bool" where
  "img_ok s \<longleftrightarrow>
     (\<forall>b. length (img s b) = BSIZE) \<and> (\<forall>b. freeblock s \<le> b \<longrightarrow> img s b = replicate BSIZE 0) \<and>
     nmeta \<le> unat (freeblock s) \<and> unat (freeblock s) \<le> img_end s \<and> img_end s \<le> 2 ^ 23"

definition file_ok :: "mkstate \<Rightarrow> dinode \<Rightarrow> nat \<Rightarrow> bool" where
  "file_ok s din n \<longleftrightarrow>
     length (d_addrs din) = NDIRECT + 1 \<and> n \<le> MAXFILE \<and>
     (\<forall>i < n. data_block s (fblk s din i)) \<and> (\<forall>i < MAXFILE. n \<le> i \<longrightarrow> fblk s din i = 0) \<and>
     inj_on (fblk s din) {..<n} \<and>
     (if n \<le> NDIRECT then d_addrs din ! NDIRECT = 0
      else data_block s (d_addrs din ! NDIRECT) \<and> d_addrs din ! NDIRECT \<notin> fblk s din ` {..<n})"

lemma data_block_nz: "data_block s b \<Longrightarrow> b \<noteq> 0"
  by (auto simp: data_block_def layout_vals)

lemma data_block_bound: "img_ok s \<Longrightarrow> data_block s b \<Longrightarrow> unat b < img_end s"
  by (simp add: img_ok_def data_block_def)

lemma img_okD:
  assumes "img_ok s"
  shows "length (img s b) = 512" "freeblock s \<le> b \<Longrightarrow> img s b = replicate 512 0" "83 \<le> unat (freeblock s)"
    "unat (freeblock s) \<le> img_end s" "img_end s \<le> 2 ^ 23"
  using assms by (simp_all add: img_ok_def layout_vals)

lemma file_okD:
  assumes "file_ok s din n"
  shows "length (d_addrs din) = 13" "n \<le> 140" "i < n \<Longrightarrow> data_block s (fblk s din i)"
    "i < 140 \<Longrightarrow> n \<le> i \<Longrightarrow> fblk s din i = 0" "inj_on (fblk s din) {..<n}"
    "n \<le> 12 \<Longrightarrow> d_addrs din ! 12 = 0" "12 < n \<Longrightarrow> data_block s (d_addrs din ! 12)"
    "12 < n \<Longrightarrow> i < n \<Longrightarrow> fblk s din i \<noteq> d_addrs din ! 12"
  using assms unfolding file_ok_def by (force simp: layout_vals split: if_splits)+

text \<open>A block that the file has already.\<close>

lemma file_block_old:
  assumes "img_ok s" and "file_ok s din n" and "i < n"
  shows "file_block i din s = Inr ((fblk s din i, din), s)"
proof (cases "i < 12")
  case True
  then show ?thesis
    using data_block_nz [OF file_okD(3) [OF assms(2,3)]] by (simp add: file_block_def fblk_def layout_vals)
next
  case False
  then have n: "12 < n" using assms(3) by simp
  note a = file_okD(7) [OF assms(2) n]
  show ?thesis
    using data_block_nz [OF file_okD(3) [OF assms(2,3)]] data_block_nz [OF a] data_block_bound [OF assms(1) a] False
      img_okD(5) [OF assms(1)]
    by (simp add: file_block_def fblk_def layout_vals Let_def)
qed

text \<open>What an append does to the image and to the inode it works on.\<close>

definition grows :: "mkstate \<Rightarrow> dinode \<Rightarrow> nat \<Rightarrow> mkstate \<Rightarrow> dinode \<Rightarrow> nat \<Rightarrow> bool" where
  "grows s din n s' din' n' \<longleftrightarrow>
     img_ok s' \<and> file_ok s' din' n' \<and> n \<le> n' \<and> img_end s' = img_end s \<and> freeinode s' = freeinode s \<and>
     din' = din\<lparr>d_addrs := d_addrs din'\<rparr> \<and> unat (freeblock s') + cost n = unat (freeblock s) + cost n' \<and>
     (\<forall>i < n. fblk s' din' i = fblk s din i) \<and>
     occupied s din n \<subseteq> occupied s' din' n' \<and> occupied s' din' n' \<subseteq> occupied s din n \<union> {b. freeblock s \<le> b} \<and>
     (\<forall>b. b \<notin> occupied s' din' n' \<longrightarrow> img s' b = img s b)"

lemma growsD:
  assumes "grows s din n s' din' n'"
  shows "img_ok s'" "file_ok s' din' n'" "n \<le> n'" "img_end s' = img_end s" "freeinode s' = freeinode s"
    "din' = din\<lparr>d_addrs := d_addrs din'\<rparr>" "unat (freeblock s') + cost n = unat (freeblock s) + cost n'"
    "i < n \<Longrightarrow> fblk s' din' i = fblk s din i"
    "occupied s din n \<subseteq> occupied s' din' n'" "occupied s' din' n' \<subseteq> occupied s din n \<union> {b. freeblock s \<le> b}"
    "b \<notin> occupied s' din' n' \<Longrightarrow> img s' b = img s b"
  using assms unfolding grows_def by blast+

lemma cost_mono: "m \<le> n \<Longrightarrow> cost m \<le> cost n"
  by (simp add: cost_def)

lemma grows_refl: "img_ok s \<Longrightarrow> file_ok s din n \<Longrightarrow> grows s din n s din n"
  by (simp add: grows_def)

lemma grows_trans:
  assumes "grows s din n s1 din1 n1" and "grows s1 din1 n1 s2 din2 n2"
  shows "grows s din n s2 din2 n2"
proof -
  note a = growsD [OF assms(1)] and b = growsD [OF assms(2)]
  have le: "freeblock s \<le> freeblock s1"
    using a(7) cost_mono [OF a(3)] by (simp add: word_le_nat_alt)
  have "din2 = din\<lparr>d_addrs := d_addrs din2\<rparr>"
    using a(6) b(6) by (metis dinode.unfold_congs(6) dinode.surjective dinode.update_convs(6))
  moreover have "occupied s2 din2 n2 \<subseteq> occupied s din n \<union> {b. freeblock s \<le> b}"
    using a(10) b(10) le by (auto dest!: subsetD)
  moreover have "img s2 c = img s c" if "c \<notin> occupied s2 din2 n2" for c
    using that a(11) b(9,11) by (metis subsetD)
  moreover have "fblk s2 din2 i = fblk s din i" if "i < n" for i
    using a(3,8) b(8) that by simp
  ultimately show ?thesis
    unfolding grows_def using a(3,4,5,7,9) b(1,2,3,4,5,7,9) by (intro conjI) auto
qed

lemma data_block_mono: "data_block s b \<Longrightarrow> unat (freeblock s) \<le> unat (freeblock s') \<Longrightarrow> data_block s' b"
  by (simp add: data_block_def)

lemma file_ok_Suc:
  assumes f: "file_ok s din n" and n: "n < 140"
    and fb: "\<forall>i < 140. fblk s' din' i = (if i = n then x else fblk s din i)"
    and x: "data_block s' x" "freeblock s \<le> x" and le: "unat (freeblock s) \<le> unat (freeblock s')"
    and len: "length (d_addrs din') = 13"
    and a: "if n < 12 then d_addrs din' ! 12 = 0 else data_block s' (d_addrs din' ! 12) \<and> d_addrs din' ! 12 \<noteq> x \<and>
              (if n = 12 then freeblock s \<le> d_addrs din' ! 12 else d_addrs din' ! 12 = d_addrs din ! 12)"
  shows "file_ok s' din' (Suc n)"
proof -
  have old: "fblk s din i < freeblock s" "fblk s' din' i = fblk s din i" if "i < n" for i
    using file_okD(3) [OF f that] fb n that by (auto simp: data_block_def word_less_nat_alt)
  have xn: "fblk s' din' n = x" using fb n by simp
  have "\<forall>i < Suc n. data_block s' (fblk s' din' i)"
    using old(2) xn x(1) data_block_mono [OF file_okD(3) [OF f] le] by (auto simp: less_Suc_eq)
  moreover have "\<forall>i < 140. Suc n \<le> i \<longrightarrow> fblk s' din' i = 0" using fb file_okD(4) [OF f] by simp
  moreover have "inj_on (fblk s' din') {..<Suc n}"
  proof -
    have "inj_on (fblk s' din') {..<n}" using file_okD(5) [OF f] old(2) by (simp add: inj_on_def)
    moreover have "x \<notin> fblk s' din' ` {..<n}" using old x(2) by force
    ultimately show ?thesis using xn by (simp add: lessThan_Suc)
  qed
  moreover have "d_addrs din' ! 12 \<notin> fblk s' din' ` {..<Suc n}" if "12 \<le> n"
  proof
    assume "d_addrs din' ! 12 \<in> fblk s' din' ` {..<Suc n}"
    then obtain i where i: "i < Suc n" "d_addrs din' ! 12 = fblk s' din' i" by blast
    then have "i < n" using a xn that by (auto simp: less_Suc_eq)
    then show False using i(2) old [of i] a that file_okD(8) [OF f, of i] by (auto split: if_splits dest: leD)
  qed
  ultimately show ?thesis using a len n by (auto simp: file_ok_def layout_vals)
qed

lemma grows_Suc:
  assumes f: "file_ok s din n" and n: "n < 140" and s': "img_ok s'" "img_end s' = img_end s" "freeinode s' = freeinode s"
    and din': "din' = din\<lparr>d_addrs := d_addrs din'\<rparr>" "length (d_addrs din') = 13"
    and free: "unat (freeblock s') + cost n = unat (freeblock s) + cost (Suc n)"
    and fb: "\<forall>i < 140. fblk s' din' i = (if i = n then x else fblk s din i)"
    and x: "data_block s' x" "freeblock s \<le> x"
    and a: "if n < 12 then d_addrs din' ! 12 = 0 else data_block s' (d_addrs din' ! 12) \<and> d_addrs din' ! 12 \<noteq> x \<and>
              (if n = 12 then freeblock s \<le> d_addrs din' ! 12 else d_addrs din' ! 12 = d_addrs din ! 12)"
    and same: "\<forall>b. n < 12 \<or> b \<noteq> d_addrs din' ! 12 \<longrightarrow> img s' b = img s b"
  shows "grows s din n s' din' (Suc n)"
proof -
  have le: "unat (freeblock s) \<le> unat (freeblock s')" using free cost_mono [of n "Suc n"] by simp
  have im: "fblk s' din' ` {..<Suc n} = insert x (fblk s din ` {..<n})"
    using fb n by (auto simp: lessThan_Suc)
  have "occupied s din n \<subseteq> occupied s' din' (Suc n)" using a by (auto simp: occupied_def im layout_vals)
  moreover have "occupied s' din' (Suc n) \<subseteq> occupied s din n \<union> {b. freeblock s \<le> b}"
    using a x(2) by (auto simp: occupied_def im layout_vals split: if_splits)
  moreover have "img s' b = img s b" if "b \<notin> occupied s' din' (Suc n)" for b
    using same that by (auto simp: occupied_def layout_vals split: if_splits)
  moreover have "file_ok s' din' (Suc n)" by (rule file_ok_Suc [OF f n fb x le din'(2) a])
  ultimately show ?thesis
    unfolding grows_def using s' din' free fb n by (intro conjI) auto
qed

lemma unat_add_small: "unat (a :: u32) \<le> 2 ^ 23 \<Longrightarrow> unat (b :: u32) < 2 ^ 23 \<Longrightarrow> unat (a + b) = unat a + unat b"
  by (simp add: unat_word_ariths)

lemma img_ok_alloc:
  assumes "img_ok s" and "unat (freeblock s) + unat k \<le> img_end s" and "unat k < 2 ^ 23"
    and "unat b < unat (freeblock s) + unat k" and "length d = 512"
  shows "img_ok (s\<lparr>freeblock := freeblock s + k, img := (img s)(b := d)\<rparr>)"
proof -
  note i = img_okD [OF assms(1)]
  have u: "unat (freeblock s + k) = unat (freeblock s) + unat k" by (rule unat_add_small) (use i assms in auto)
  then have "img s c = replicate 512 0" if "freeblock s + k \<le> c" for c
    using that i(2) [of c] by (simp add: word_le_nat_alt)
  moreover have "\<not> freeblock s + k \<le> b" using assms(4) u by (simp add: word_le_nat_alt)
  ultimately show ?thesis using i u assms(2,5) by (auto simp: img_ok_def layout_vals)
qed

lemma img_ok_bump:
  assumes "img_ok s" and "unat (freeblock s) < img_end s"
  shows "img_ok (s\<lparr>freeblock := freeblock s + 1\<rparr>)"
proof -
  have "img_ok (s\<lparr>freeblock := freeblock s + 1, img := (img s)(0 := img s 0)\<rparr>)"
    by (rule img_ok_alloc) (use assms img_okD [OF assms(1)] in auto)
  then show ?thesis by simp
qed

lemma unat_freeblock_Suc: "img_ok s \<Longrightarrow> unat (freeblock s + 1) = Suc (unat (freeblock s))"
  using img_okD(4,5) [of s] by (simp add: unat_add_small)

lemma data_block_fresh:
  "img_ok s \<Longrightarrow> freeblock t = freeblock s + 1 \<Longrightarrow> data_block t (freeblock s)"
  using unat_freeblock_Suc [of s] img_okD(3) [of s] by (simp add: data_block_def layout_vals)

text \<open>The three ways in which a file gets its next block: direct, the first indirect one, a further indirect one.\<close>

abbreviation next_block :: "mkstate \<Rightarrow> dinode \<Rightarrow> nat \<Rightarrow> mkstate \<Rightarrow> dinode \<Rightarrow> bool" where
  "next_block s din n s' din' \<equiv>
     file_block n din s = Inr ((fblk s' din' n, din'), s') \<and> grows s din n s' din' (Suc n) \<and>
     (\<forall>b. n < 12 \<or> b \<noteq> d_addrs din' ! 12 \<longrightarrow> img s' b = img s b)"

lemma file_block_direct:
  assumes i: "img_ok s" and f: "file_ok s din n" and n: "n < 12" and room: "unat (freeblock s) < img_end s"
  shows "\<exists>s' din'. next_block s din n s' din'"
proof -
  define s' where "s' = s\<lparr>freeblock := freeblock s + 1\<rparr>"
  define din' where "din' = din\<lparr>d_addrs := (d_addrs din)[n := freeblock s]\<rparr>"
  have z: "d_addrs din ! n = 0" "d_addrs din ! 12 = 0" "length (d_addrs din) = 13"
    using file_okD(4) [OF f, of n] file_okD(1,6) [OF f] n by (simp_all add: fblk_def layout_vals)
  have fb: "fblk s' din' j = (if j = n then freeblock s else fblk s din j)" for j
    using n z by (simp add: fblk_def din'_def layout_vals)
  have "file_block n din s = Inr ((fblk s' din' n, din'), s')"
    using n z by (simp add: file_block_def layout_vals fblk_def s'_def din'_def)
  moreover have "grows s din n s' din' (Suc n)"
  proof (rule grows_Suc [OF f, where x = "freeblock s"])
    show "img_ok s'" unfolding s'_def by (rule img_ok_bump [OF i room])
    show "data_block s' (freeblock s)" by (rule data_block_fresh [OF i]) (simp add: s'_def)
  qed (use n z fb unat_freeblock_Suc [OF i] in \<open>auto simp: s'_def din'_def cost_def layout_vals\<close>)
  moreover have "img s' = img s" by (simp add: s'_def)
  ultimately show ?thesis by (intro exI [of _ s'] exI [of _ din']) simp
qed

lemma file_block_first:
  assumes i: "img_ok s" and f: "file_ok s din 12" and room: "unat (freeblock s) + 2 \<le> img_end s"
  shows "\<exists>s' din'. next_block s din 12 s' din'"
proof -
  let ?F = "freeblock s"
  define d :: block where "d = put32 (replicate 512 0) 0 (?F + 1)"
  define s' where "s' = s\<lparr>freeblock := ?F + 2, img := (img s)(?F := d)\<rparr>"
  define din' where "din' = din\<lparr>d_addrs := (d_addrs din)[12 := ?F]\<rparr>"
  have z: "d_addrs din ! 12 = 0" "length (d_addrs din) = 13" using file_okD(1,6) [OF f] by simp_all
  note io = img_okD [OF i]
  have F0: "?F \<noteq> 0" using io(3) by auto
  have u: "unat (?F + 1) = unat ?F + 1" "unat (?F + 2) = unat ?F + 2" using io(4,5) by (simp_all add: unat_add_small)
  have F2: "?F + 1 + 1 = ?F + 2" by simp
  have zF: "img s ?F = replicate 512 0" using io(2) by simp
  have zd: "get32 d (4 * (j - 12)) = (if j = 12 then ?F + 1 else 0)" if "12 \<le> j" "j < 140" for j
    using that unfolding d_def by (auto simp: get32_put32_other) (simp add: get32_def word32_def)
  have fb: "\<forall>j < 140. fblk s' din' j = (if j = 12 then ?F + 1 else fblk s din j)"
    using z F0 zd zd [of 12] by (auto simp: fblk_def din'_def s'_def layout_vals)
  have "get32 (replicate 512 (0 :: u8)) 0 = 0" by (simp add: get32_def word32_def)
  then have "file_block 12 din s = Inr ((fblk s' din' 12, din'), s')"
    using z F0 zF io(4,5) room
    by (simp add: file_block_def layout_vals fblk_def s'_def din'_def Let_def d_def F2)
  moreover have "grows s din 12 s' din' (Suc 12)"
  proof (rule grows_Suc [OF f, where x = "?F + 1"])
    show "img_ok s'" unfolding s'_def by (rule img_ok_alloc [OF i]) (use room in \<open>auto simp: d_def\<close>)
    show "data_block s' (?F + 1)" using u io(3) by (simp add: data_block_def s'_def layout_vals)
    show "?F \<le> ?F + 1" using u by (simp add: word_le_nat_alt)
  qed (use z fb u io(3) in \<open>auto simp: s'_def din'_def cost_def layout_vals data_block_def\<close>)
  moreover have "img s' b = img s b" if "b \<noteq> d_addrs din' ! 12" for b using that z by (simp add: s'_def din'_def)
  ultimately show ?thesis by (intro exI [of _ s'] exI [of _ din']) simp
qed

lemma file_block_indirect:
  assumes i: "img_ok s" and f: "file_ok s din n" and n: "12 < n" "n < 140" and room: "unat (freeblock s) < img_end s"
  shows "\<exists>s' din'. next_block s din n s' din'"
proof -
  let ?F = "freeblock s" and ?a = "d_addrs din ! 12"
  define d where "d = put32 (img s ?a) (4 * (n - 12)) ?F"
  define s' where "s' = s\<lparr>freeblock := ?F + 1, img := (img s)(?a := d)\<rparr>"
  note io = img_okD [OF i] and a = file_okD(7) [OF f n(1)]
  note a0 = data_block_nz [OF a] and ab = data_block_bound [OF i a]
  have l: "length (d_addrs din) = 13" by (rule file_okD(1) [OF f])
  have zn: "get32 (img s ?a) (4 * (n - 12)) = 0"
    using file_okD(4) [OF f n(2)] n(1) a0 by (simp add: fblk_def layout_vals)
  have zd: "get32 d (4 * (j - 12)) = (if j = n then ?F else get32 (img s ?a) (4 * (j - 12)))" if "12 \<le> j" "j < 140" for j
  proof (cases "j = n")
    case False
    then have "4 * (j - 12) + 4 \<le> 4 * (n - 12) \<or> 4 * (n - 12) + 4 \<le> 4 * (j - 12)" using that n by auto
    then show ?thesis using that n io(1) [of ?a] False unfolding d_def by (simp add: get32_put32_other)
  qed (use n io(1) [of ?a] in \<open>simp add: d_def\<close>)
  have fb: "\<forall>j < 140. fblk s' din j = (if j = n then ?F else fblk s din j)"
    using n a0 zd by (auto simp: fblk_def s'_def layout_vals)
  have "file_block n din s = Inr ((fblk s' din n, din), s')"
    using n a0 ab zn io(5) io(1) [of ?a] fb by (simp add: file_block_def layout_vals s'_def Let_def d_def)
  moreover have "grows s din n s' din (Suc n)"
  proof (rule grows_Suc [OF f, where x = ?F])
    show "img_ok s'" unfolding s'_def
      by (rule img_ok_alloc [OF i]) (use room a io(1) [of ?a] n in \<open>auto simp: d_def data_block_def\<close>)
    show "data_block s' ?F" by (rule data_block_fresh [OF i]) (simp add: s'_def)
    have "data_block s' ?a" using data_block_mono [OF a, of s'] unat_freeblock_Suc [OF i] by (simp add: s'_def)
    moreover have "?a \<noteq> ?F" using a by (auto simp: data_block_def)
    ultimately show "if n < 12 then ?a = 0 else data_block s' ?a \<and> ?a \<noteq> ?F \<and> (if n = 12 then ?F \<le> ?a else ?a = ?a)"
      using n by simp
  qed (use n l fb unat_freeblock_Suc [OF i] in \<open>auto simp: s'_def cost_def layout_vals\<close>)
  moreover have "img s' b = img s b" if "b \<noteq> ?a" for b using that by (simp add: s'_def)
  ultimately show ?thesis using n by (intro exI [of _ s'] exI [of _ din]) simp
qed

lemma file_block_new:
  assumes "img_ok s" and "file_ok s din n" and "n < 140" and "unat (freeblock s) + cost (Suc n) \<le> img_end s + cost n"
  shows "\<exists>s' din'. next_block s din n s' din'"
proof -
  consider "n < 12" | "n = 12" | "12 < n" by linarith
  then show ?thesis
  proof cases
    case 1
    then show ?thesis using assms by (intro file_block_direct) (auto simp: cost_def layout_vals)
  next
    case 2
    then show ?thesis using file_block_first [of s din] assms by (simp add: cost_def layout_vals)
  next
    case 3
    then show ?thesis using assms by (intro file_block_indirect) (auto simp: cost_def layout_vals)
  qed
qed

text \<open>The copy of bytes into a block of the file.\<close>

lemma fblk_write:
  assumes "file_ok s din n" and "m < n" and "i < 140"
  shows "fblk (s\<lparr>img := (img s)(fblk s din m := d)\<rparr>) din i = fblk s din i"
proof (cases "12 < n")
  case True
  then show ?thesis using file_okD(8) [OF assms(1) True assms(2)] by (simp add: fblk_def layout_vals)
next
  case False
  then show ?thesis using file_okD(6) [OF assms(1)] by (simp add: fblk_def layout_vals)
qed

lemma grows_write:
  assumes i: "img_ok s" and f: "file_ok s din n" and m: "m < n" and d: "length d = 512"
  shows "grows s din n (s\<lparr>img := (img s)(fblk s din m := d)\<rparr>) din n"
proof -
  let ?x = "fblk s din m"
  let ?s = "s\<lparr>img := (img s)(?x := d)\<rparr>"
  have fb: "fblk ?s din j = fblk s din j" if "j < 140" for j by (rule fblk_write [OF f m that])
  have n: "n \<le> 140" by (rule file_okD(2) [OF f])
  have im: "fblk ?s din ` {..<n} = fblk s din ` {..<n}" using fb n by (intro image_cong) auto
  have "img_ok ?s"
    using i d file_okD(3) [OF f m] by (auto simp: img_ok_def layout_vals data_block_def word_le_nat_alt)
  moreover have "file_ok ?s din n"
  proof -
    have "inj_on (fblk ?s din) {..<n}" using file_okD(5) [OF f] fb n by (simp add: inj_on_def)
    then show ?thesis using f fb n unfolding file_ok_def im by (auto simp: data_block_def layout_vals)
  qed
  moreover have "occupied ?s din n = occupied s din n" by (simp only: occupied_def im)
  moreover have "?x \<in> occupied s din n" using m by (simp add: occupied_def)
  ultimately show ?thesis using fb n by (auto simp: grows_def)
qed

lemma length_fdata [simp]: "length (fdata s din k) = k"
  by (simp add: fdata_def)

lemma nth_fdata: "k < m \<Longrightarrow> fdata s din m ! k = img s (fblk s din (k div 512)) ! (k mod 512)"
  by (simp add: fdata_def)

lemma fdata_write:
  assumes i: "img_ok s" and f: "file_ok s din n" and m: "m < n"
    and off: "off div 512 = m" and p: "off mod 512 + length p \<le> 512"
  defines "t \<equiv> s\<lparr>img := (img s)(fblk s din m := patch (img s (fblk s din m)) (off mod 512) p)\<rparr>"
  shows "fdata t din (off + length p) = fdata s din off @ p"
proof (rule nth_equalityI)
  fix k assume "k < length (fdata t din (off + length p))"
  then have k: "k < off + length p" by simp
  have n: "n \<le> 140" by (rule file_okD(2) [OF f])
  have "k < Suc m * 512" using k p mult_div_mod_eq [of 512 off] off by (simp add: mult.commute)
  then have km: "k div 512 \<le> m" using less_mult_imp_div_less [of k "Suc m" 512] by simp
  have eq: "fblk t din (k div 512) = fblk s din (k div 512)"
    unfolding t_def by (rule fblk_write [OF f m]) (use km m n in simp)
  have L: "length (img s (fblk s din m)) = 512" by (rule img_okD(1) [OF i])
  have b: "fdata t din (off + length p) ! k = img t (fblk s din (k div 512)) ! (k mod 512)"
    using k eq by (simp add: nth_fdata)
  show "fdata t din (off + length p) ! k = (fdata s din off @ p) ! k"
  proof (cases "k div 512 = m")
    case True
    have e: "off = 512 * m + off mod 512" "k = 512 * m + k mod 512"
      using mult_div_mod_eq [of 512 off] mult_div_mod_eq [of 512 k] off True by simp_all
    have "fdata t din (off + length p) ! k = patch (img s (fblk s din m)) (off mod 512) p ! (k mod 512)"
      unfolding b using True by (simp add: t_def)
    also have "\<dots> = (fdata s din off @ p) ! k"
    proof (cases "k < off")
      case True
      then have "k mod 512 < off mod 512" using e by linarith
      then show ?thesis using p L True \<open>k div 512 = m\<close> by (simp add: nth_patch nth_append nth_fdata)
    next
      case False
      then have "off mod 512 \<le> k mod 512" "k mod 512 < off mod 512 + length p" "k mod 512 - off mod 512 = k - off"
        using e k by linarith+
      then show ?thesis using p L False by (simp add: nth_patch nth_append)
    qed
    finally show ?thesis .
  next
    case False
    then have lt: "k div 512 < m" using km by simp
    then have "fblk s din (k div 512) \<noteq> fblk s din m"
      using file_okD(5) [OF f] m by (auto simp: inj_on_def)
    moreover have "k < off" using lt off by (metis div_le_mono not_less)
    ultimately show ?thesis unfolding b by (simp add: t_def nth_append nth_fdata)
  qed
qed simp

subsection \<open>The loop of iappend\<close>

lemma fdata_cong:
  assumes "\<And>i. i < n \<Longrightarrow> fblk s' din' i = fblk s din i" and "\<And>i. i < n \<Longrightarrow> img s' (fblk s din i) = img s (fblk s din i)"
    and "off \<le> 512 * n"
  shows "fdata s' din' off = fdata s din off"
proof -
  have "k div 512 < n" if "k < off" for k using that assms(3) by (simp add: less_mult_imp_div_less)
  then show ?thesis using assms(1,2) by (simp add: fdata_def)
qed

lemma fblocks_bounds: "off \<le> 512 * fblocks off" "fblocks off * 512 < off + 512"
  using mult_div_mod_eq [of 512 "off + 511"] mod_less_divisor [of 512 "off + 511"] by (simp_all add: fblocks_def)

lemma fblocks_eq: "512 * m < off \<Longrightarrow> off \<le> 512 * Suc m \<Longrightarrow> fblocks off = Suc m"
  unfolding fblocks_def by (intro div_nat_eqI) auto

lemma fblocks_mono: "a \<le> b \<Longrightarrow> fblocks a \<le> fblocks b"
  by (simp add: fblocks_def div_le_mono)

lemma file_block_for:
  assumes i: "img_ok s" and f: "file_ok s din (fblocks off)" and off: "off < 71680"
    and room: "unat (freeblock s) + cost (Suc (off div 512)) \<le> img_end s + cost (fblocks off)"
  shows "\<exists>s' din'. file_block (off div 512) din s = Inr ((fblk s' din' (off div 512), din'), s') \<and>
    grows s din (fblocks off) s' din' (Suc (off div 512)) \<and> fdata s' din' off = fdata s din off"
proof (cases "off mod 512 = 0")
  case False
  then have "fblocks off = Suc (off div 512)"
    using mult_div_mod_eq [of 512 off] mod_less_divisor [of 512 off] by (intro fblocks_eq; simp; linarith)
  then show ?thesis using file_block_old [OF i f] grows_refl [OF i f] by (intro exI [of _ s] exI [of _ din]) simp
next
  case True
  let ?n = "off div 512"
  have n: "fblocks off = ?n"
    using True mult_div_mod_eq [of 512 off] unfolding fblocks_def by (intro div_nat_eqI) simp_all
  have lt: "?n < 140" using off by (simp add: less_mult_imp_div_less)
  obtain s' din' where *: "file_block ?n din s = Inr ((fblk s' din' ?n, din'), s')" "grows s din ?n s' din' (Suc ?n)"
    "\<And>b. ?n < 12 \<or> b \<noteq> d_addrs din' ! 12 \<Longrightarrow> img s' b = img s b"
    using file_block_new [OF i f [unfolded n] lt] room n by auto
  have "fdata s' din' off = fdata s din off"
  proof (rule fdata_cong)
    fix j assume j: "j < ?n"
    show fb: "fblk s' din' j = fblk s din j" by (rule growsD(8) [OF *(2) j])
    show "img s' (fblk s din j) = img s (fblk s din j)"
      using file_okD(8) [OF growsD(2) [OF *(2)], of j] j fb by (intro *(3)) auto
  qed (use True mult_div_mod_eq [of 512 off] in simp)
  then show ?thesis using * n by auto
qed

lemma iappend_round:
  assumes i: "img_ok s" and f: "file_ok s din (fblocks off)" and p: "p \<noteq> []" and lt: "off < 71680"
    and room: "unat (freeblock s) + cost (Suc (off div 512)) \<le> img_end s + cost (fblocks off)"
  defines "n1 \<equiv> min (length p) (512 - off mod 512)"
  shows "\<exists>s' din'. (\<forall>f. iappend_loop (Suc f) p off din s = iappend_loop f (drop n1 p) (off + n1) din' s') \<and>
    grows s din (fblocks off) s' din' (fblocks (off + n1)) \<and> fdata s' din' (off + n1) = fdata s din off @ take n1 p"
proof -
  let ?m = "off div 512" and ?r = "off mod 512"
  let ?p = "take n1 p" and ?o = "off + n1"
  have e: "off = 512 * ?m + ?r" "?r < 512" using mult_div_mod_eq [of 512 off] by simp_all
  have n1: "0 < n1" "n1 \<le> length p" "?r + n1 \<le> 512" "length ?p = n1" using p e(2) by (auto simp: n1_def)
  have m: "?m < 140" using lt by (simp add: less_mult_imp_div_less)
  have o: "512 * ?m < ?o" "?o \<le> 512 * Suc ?m" using e n1 unfolding mult_Suc_right by linarith+
  have fb: "fblocks ?o = Suc ?m" by (rule fblocks_eq [OF o])
  obtain s1 d1 where 1: "file_block ?m din s = Inr ((fblk s1 d1 ?m, d1), s1)"
      "grows s din (fblocks off) s1 d1 (Suc ?m)" "fdata s1 d1 off = fdata s din off"
    using file_block_for [OF i f lt room] by blast
  note i1 = growsD(1) [OF 1(2)] and f1 = growsD(2) [OF 1(2)]
  let ?x = "fblk s1 d1 ?m"
  define s2 where "s2 = s1\<lparr>img := (img s1)(?x := patch (img s1 ?x) ?r ?p)\<rparr>"
  have x: "unat ?x < img_end s1" by (rule data_block_bound [OF i1 file_okD(3) [OF f1]]) simp
  have "grows s din (fblocks off) s2 d1 (fblocks ?o)"
    unfolding s2_def fb by (rule grows_trans [OF 1(2) grows_write [OF i1 f1]]) (use n1 img_okD(1) [OF i1] in auto)
  moreover have "fdata s2 d1 ?o = fdata s din off @ ?p"
    using fdata_write [OF i1 f1, of ?m off ?p] n1(3,4) 1(3) by (simp add: s2_def)
  moreover have "(?m + 1) * 512 - off = 512 - ?r" "off - ?m * 512 = ?r"
    using e unfolding add_mult_distrib by linarith+
  then have "iappend_loop (Suc f) p off din s = iappend_loop f (drop n1 p) ?o d1 s2" for f
    using p m 1(1) x img_okD(5) [OF i1] by (simp add: layout_vals Let_def s2_def n1_def)
  ultimately show ?thesis by blast
qed

lemma iappend_loop_run:
  assumes "img_ok s" and "file_ok s din (fblocks off)" and "length p \<le> f" and "off + length p \<le> 71680"
    and "unat (freeblock s) + cost (fblocks (off + length p)) \<le> img_end s + cost (fblocks off)"
  shows "\<exists>s' din'. iappend_loop f p off din s = Inr ((off + length p, din'), s') \<and>
    grows s din (fblocks off) s' din' (fblocks (off + length p)) \<and> fdata s' din' (off + length p) = fdata s din off @ p"
  using assms
proof (induction f arbitrary: s din off p)
  case 0
  then show ?case by (auto intro: grows_refl)
next
  case (Suc f)
  show ?case
  proof (cases "p = []")
    case True
    then show ?thesis using grows_refl [OF Suc.prems(1,2)] by auto
  next
    case False
    define n1 where "n1 = min (length p) (512 - off mod 512)"
    have n1: "0 < n1" "n1 \<le> length p" using False by (auto simp: n1_def)
    then have o: "off + n1 + length (drop n1 p) = off + length p" by simp
    have lt: "off < 71680" using False Suc.prems(4) by (cases p) auto
    have "Suc (off div 512) \<le> fblocks (off + length p)"
      using False mult_div_mod_eq [of 512 off] fblocks_bounds(1) [of "off + length p"] length_greater_0_conv [of p] by linarith
    then have room: "unat (freeblock s) + cost (Suc (off div 512)) \<le> img_end s + cost (fblocks off)"
      using cost_mono Suc.prems(5) by (meson add_left_mono order_trans)
    obtain s2 d2 where 2: "\<And>f. iappend_loop (Suc f) p off din s = iappend_loop f (drop n1 p) (off + n1) d2 s2"
        "grows s din (fblocks off) s2 d2 (fblocks (off + n1))" "fdata s2 d2 (off + n1) = fdata s din off @ take n1 p"
      using iappend_round [OF Suc.prems(1,2) False lt room] unfolding n1_def by blast
    have "length (drop n1 p) \<le> f" "off + n1 + length (drop n1 p) \<le> 71680" using Suc.prems(3,4) n1 by auto
    moreover have "unat (freeblock s2) + cost (fblocks (off + n1 + length (drop n1 p))) \<le> img_end s2 + cost (fblocks (off + n1))"
      unfolding o using growsD(4,7) [OF 2(2)] Suc.prems(5) by linarith
    ultimately obtain s' d' where IH: "iappend_loop f (drop n1 p) (off + n1) d2 s2 = Inr ((off + length p, d'), s')"
        "grows s2 d2 (fblocks (off + n1)) s' d' (fblocks (off + length p))"
        "fdata s' d' (off + length p) = fdata s2 d2 (off + n1) @ drop n1 p"
      using Suc.IH [OF growsD(1,2) [OF 2(2)], of "drop n1 p"] unfolding o by blast
    have "fdata s' d' (off + length p) = fdata s din off @ p" unfolding IH(3) 2(3) by simp
    then show ?thesis using IH(1) grows_trans [OF 2(2) IH(2)] unfolding 2(1) by blast
  qed
qed

section \<open>The image as a list of files\<close>

text \<open>
  The abstract view of the image: a list of types and contents, of which the file with index \<open>i\<close> has the
  inode number \<open>i + 1\<close>.
\<close>

definition dino :: "mkstate \<Rightarrow> u32 \<Rightarrow> dinode" where
  "dino s inum = get_dinode (img s (IBLOCK inum mkfs_sb)) (dinode_off inum)"

definition blocks_of :: "mkstate \<Rightarrow> u32 \<Rightarrow> u32 set" where
  "blocks_of s inum = occupied s (dino s inum) (fblocks (unat (d_size (dino s inum))))"

definition file_holds :: "mkstate \<Rightarrow> u32 \<Rightarrow> u16 \<times> u8 list \<Rightarrow> bool" where
  "file_holds s inum = (\<lambda>(t, data).
     d_type (dino s inum) = t \<and> d_nlink (dino s inum) = 1 \<and> unat (d_size (dino s inum)) = length data \<and>
     file_ok s (dino s inum) (fblocks (length data)) \<and> fdata s (dino s inum) (length data) = data)"

definition used_blocks :: "(u16 \<times> u8 list) list \<Rightarrow> nat" where
  "used_blocks fs = nmeta + sum_list (map (\<lambda>f. cost (fblocks (length (snd f)))) fs)"

definition ino :: "nat \<Rightarrow> u32" where
  "ino i = of_nat (Suc i)"

definition fs_ok :: "mkstate \<Rightarrow> (u16 \<times> u8 list) list \<Rightarrow> bool" where
  "fs_ok s fs \<longleftrightarrow>
     img_ok s \<and> length fs < NINODES \<and> freeinode s = ino (length fs) \<and> unat (freeblock s) = used_blocks fs \<and>
     (\<forall>i < length fs. file_holds s (ino i) (fs ! i)) \<and>
     (\<forall>i < length fs. \<forall>j < length fs. i \<noteq> j \<longrightarrow> blocks_of s (ino i) \<inter> blocks_of s (ino j) = {})"

lemma fblk_size [simp]: "fblk s (din\<lparr>d_size := x\<rparr>) = fblk s din"
  by (rule ext) (simp add: fblk_def)

lemma size_irrelevant [simp]:
  "occupied s (din\<lparr>d_size := x\<rparr>) n = occupied s din n" "file_ok s (din\<lparr>d_size := x\<rparr>) n = file_ok s din n"
  "fdata s (din\<lparr>d_size := x\<rparr>) k = fdata s din k"
  by (simp_all add: occupied_def file_ok_def fdata_def)

lemma occupied_data_block: "file_ok s din n \<Longrightarrow> b \<in> occupied s din n \<Longrightarrow> data_block s b"
  using file_okD(3,7) [of s din n] by (auto simp: occupied_def layout_vals split: if_splits)

lemma file_cong:
  assumes f: "file_ok s din n" and same: "\<And>b. b \<in> occupied s din n \<Longrightarrow> img s' b = img s b"
    and le: "unat (freeblock s) \<le> unat (freeblock s')"
  shows "fblk s' din = fblk s din" "occupied s' din n = occupied s din n" "file_ok s' din n"
    "k \<le> 512 * n \<Longrightarrow> fdata s' din k = fdata s din k"
proof -
  show fb: "fblk s' din = fblk s din"
  proof (cases "12 < n")
    case True
    then have "img s' (d_addrs din ! 12) = img s (d_addrs din ! 12)" by (intro same) (simp add: occupied_def layout_vals)
    then show ?thesis by (intro ext) (simp add: fblk_def layout_vals)
  next
    case False
    then show ?thesis using file_okD(6) [OF f] by (intro ext) (simp add: fblk_def layout_vals)
  qed
  then show "occupied s' din n = occupied s din n" by (simp add: occupied_def)
  show "file_ok s' din n" using f data_block_mono [OF _ le] unfolding file_ok_def fb by (auto split: if_splits)
  show "fdata s' din k = fdata s din k" if "k \<le> 512 * n"
    by (rule fdata_cong [OF _ _ that]) (use fb same in \<open>auto simp: occupied_def\<close>)
qed

lemma inode_block:
  assumes "i < 199"
  shows "unat (ino i) = Suc i" "unat (IBLOCK (ino i) mkfs_sb) = 32 + Suc i div 8" "dinode_off (ino i) = 64 * (Suc i mod 8)"
proof -
  show u: "unat (ino i) = Suc i" using assms by (simp only: ino_def unat_of_nat) simp
  have "unat (ino i div 8) = Suc i div 8" using u by (simp only: unat_div_distrib) simp
  moreover have "Suc i div 8 < 26" using assms by (simp add: less_mult_imp_div_less)
  ultimately show "unat (IBLOCK (ino i) mkfs_sb) = 32 + Suc i div 8"
    by (simp add: IBLOCK_def IPB_def BSIZE_def DINODE_SIZE_def unat_add_small)
  show "dinode_off (ino i) = 64 * (Suc i mod 8)"
    using u by (simp add: dinode_off_def IPB_def BSIZE_def DINODE_SIZE_def)
qed

lemma inode_block_meta: "i < 199 \<Longrightarrow> 32 \<le> unat (IBLOCK (ino i) mkfs_sb) \<and> unat (IBLOCK (ino i) mkfs_sb) < 58"
  using inode_block(2) [of i] less_mult_imp_div_less [of "Suc i" 26 8] by simp

lemma inode_apart:
  assumes "i < 199" and "j < 199" and "i \<noteq> j" and "IBLOCK (ino i) mkfs_sb = IBLOCK (ino j) mkfs_sb"
  shows "dinode_off (ino j) + 64 \<le> dinode_off (ino i) \<or> dinode_off (ino i) + 64 \<le> dinode_off (ino j)"
proof -
  have "Suc i div 8 = Suc j div 8" using assms(4) inode_block(2) [OF assms(1)] inode_block(2) [OF assms(2)] by simp
  then have "Suc i mod 8 \<noteq> Suc j mod 8" using assms(3) div_mult_mod_eq [of "Suc i" 8] div_mult_mod_eq [of "Suc j" 8] by auto
  then show ?thesis using inode_block(3) [OF assms(1)] inode_block(3) [OF assms(2)] by linarith
qed

text \<open>Writing an inode changes that inode and nothing else.\<close>

lemma winode_run:
  assumes i: "img_ok s" and k: "i < 199" and d: "length (d_addrs din) = 13"
  shows "\<exists>s'. winode (ino i) din s = Inr ((), s') \<and> img_ok s' \<and> img_end s' = img_end s \<and> freeblock s' = freeblock s \<and>
    freeinode s' = freeinode s \<and> dino s' (ino i) = din \<and> (\<forall>j < 199. j \<noteq> i \<longrightarrow> dino s' (ino j) = dino s (ino j)) \<and>
    (\<forall>b. b \<noteq> IBLOCK (ino i) mkfs_sb \<longrightarrow> img s' b = img s b)"
proof -
  let ?b = "IBLOCK (ino i) mkfs_sb" and ?o = "dinode_off (ino i)"
  define s' where "s' = s\<lparr>img := (img s)(?b := put_dinode (img s ?b) ?o din)\<rparr>"
  note io = img_okD [OF i] and b = inode_block_meta [OF k]
  have o: "?o + DINODE_SIZE \<le> length (img s c)" for c
    using inode_block(3) [OF k] io(1) [of c] mod_less_divisor [of 8 "Suc i"] by (simp add: DINODE_SIZE_def)
  have dl: "length (d_addrs din) = NDIRECT + 1" using d by (simp add: layout_vals)
  have len: "length (put_dinode (img s ?b) ?o din) = 512"
    using o [of ?b] io(1) [of ?b] length_dinode_bytes [OF dl] by (simp add: put_dinode_def)
  have "winode (ino i) din s = Inr ((), s')"
    using b io(3,4,5) by (simp add: winode_def s'_def Let_def)
  moreover have "img_ok s'" using i len b io(3) by (auto simp: img_ok_def s'_def layout_vals word_le_nat_alt)
  moreover have "dino s' (ino i) = din" by (simp add: dino_def s'_def get_put_dinode [OF dl o])
  moreover have "dino s' (ino j) = dino s (ino j)" if j: "j < 199" "j \<noteq> i" for j
  proof (cases "IBLOCK (ino j) mkfs_sb = ?b")
    case True
    have "dinode_off (ino j) + DINODE_SIZE \<le> length (img s ?b)"
      using inode_block(3) [OF j(1)] io(1) [of ?b] mod_less_divisor [of 8 "Suc j"] by (simp add: DINODE_SIZE_def)
    then show ?thesis
      using get_put_dinode_other [OF dl o, of "dinode_off (ino j)"] inode_apart [OF j(1) k j(2) True] True
      by (auto simp: dino_def s'_def DINODE_SIZE_def)
  qed (simp add: dino_def s'_def)
  ultimately show ?thesis by (intro exI [of _ s']) (simp add: s'_def)
qed

lemma fs_okD:
  assumes "fs_ok s fs"
  shows "img_ok s" "length fs < 200" "freeinode s = ino (length fs)" "unat (freeblock s) = used_blocks fs"
    "i < length fs \<Longrightarrow> file_holds s (ino i) (fs ! i)"
    "i < length fs \<Longrightarrow> j < length fs \<Longrightarrow> i \<noteq> j \<Longrightarrow> blocks_of s (ino i) \<inter> blocks_of s (ino j) = {}"
  using assms unfolding fs_ok_def NINODES_def by blast+

lemma file_holdsD:
  assumes "file_holds s n (t, data)"
  shows "d_type (dino s n) = t" "d_nlink (dino s n) = 1" "unat (d_size (dino s n)) = length data"
    "file_ok s (dino s n) (fblocks (length data))" "fdata s (dino s n) (length data) = data"
    "blocks_of s n = occupied s (dino s n) (fblocks (length data))"
  using assms by (simp_all add: file_holds_def blocks_of_def)

text \<open>A file that an operation does not touch is as before.\<close>

lemma file_holds_cong:
  assumes h: "file_holds s n f" and d: "dino s' n = dino s n" and le: "unat (freeblock s) \<le> unat (freeblock s')"
    and same: "\<And>b. b \<in> blocks_of s n \<Longrightarrow> img s' b = img s b"
  shows "file_holds s' n f" "blocks_of s' n = blocks_of s n"
proof -
  obtain t data where f: "f = (t, data)" by fastforce
  note h = file_holdsD [OF h [unfolded f]]
  note c = file_cong [OF h(4) same le, unfolded h(6)]
  show "file_holds s' n f" using c(3) c(4) [of "length data"] fblocks_bounds(1) h d by (simp add: file_holds_def f)
  show "blocks_of s' n = blocks_of s n" using c(2) h(3) d by (simp add: blocks_of_def)
qed

lemma blocks_of_data: "file_holds s n f \<Longrightarrow> b \<in> blocks_of s n \<Longrightarrow> data_block s b"
  using occupied_data_block file_holdsD(4,6) [of s n "fst f" "snd f"] by auto

lemma rinode_run: "img_ok s \<Longrightarrow> i < 199 \<Longrightarrow> rinode (ino i) s = Inr (dino s (ino i), s)"
  using inode_block_meta [of i] img_okD(3,4,5) [of s] by (simp add: rinode_def dino_def)

lemma used_blocks_update:
  "i < length fs \<Longrightarrow> used_blocks (fs[i := f]) + cost (fblocks (length (snd (fs ! i)))) =
    used_blocks fs + cost (fblocks (length (snd f)))"
  unfolding used_blocks_def
proof (induction fs arbitrary: i)
  case (Cons g fs)
  then show ?case by (cases i) auto
qed simp

text \<open>An operation that works on one inode and grows its file keeps the others.\<close>

lemma fs_ok_update:
  assumes ok: "fs_ok s fs" and i: "i < length fs" and h: "file_holds s' (ino i) f" and io: "img_ok s'"
    and fi: "freeinode s' = freeinode s" and fb: "unat (freeblock s') = used_blocks (fs[i := f])"
    and le: "unat (freeblock s) \<le> unat (freeblock s')"
    and bl: "blocks_of s' (ino i) \<subseteq> blocks_of s (ino i) \<union> {b. freeblock s \<le> b}"
    and dn: "\<And>j. j < length fs \<Longrightarrow> j \<noteq> i \<Longrightarrow> dino s' (ino j) = dino s (ino j)"
    and same: "\<And>b. nmeta \<le> unat b \<Longrightarrow> b \<notin> blocks_of s' (ino i) \<Longrightarrow> img s' b = img s b"
  shows "fs_ok s' (fs[i := f])"
proof -
  have out: "b \<notin> blocks_of s' (ino i)" if j: "j < length fs" "j \<noteq> i" and b: "b \<in> blocks_of s (ino j)" for j b
    using blocks_of_data [OF fs_okD(5) [OF ok j(1)] b] fs_okD(6) [OF ok i j(1)] j(2) b bl
    by (auto simp: data_block_def word_le_nat_alt dest!: subsetD)
  have keep: "file_holds s' (ino j) (fs ! j)" "blocks_of s' (ino j) = blocks_of s (ino j)" if j: "j < length fs" "j \<noteq> i" for j
  proof -
    have "img s' b = img s b" if b: "b \<in> blocks_of s (ino j)" for b
      using blocks_of_data [OF fs_okD(5) [OF ok j(1)] b] out [OF j b] by (intro same) (auto simp: data_block_def)
    note c = file_holds_cong [OF fs_okD(5) [OF ok j(1)] dn [OF j] le this]
    show "file_holds s' (ino j) (fs ! j)" by (rule c(1))
    show "blocks_of s' (ino j) = blocks_of s (ino j)" by (rule c(2))
  qed
  have "file_holds s' (ino j) (fs[i := f] ! j)" if "j < length fs" for j
    using keep(1) [OF that] h i by (cases "j = i") auto
  moreover have "blocks_of s' (ino j) \<inter> blocks_of s' (ino k) = {}" if "j < length fs" "k < length fs" "j \<noteq> k" for j k
  proof -
    have dis: "blocks_of s' (ino i) \<inter> blocks_of s' (ino m) = {}" if "m < length fs" "m \<noteq> i" for m
      using out [OF that] keep(2) [OF that] by blast
    show ?thesis
      using dis [OF that(1)] dis [OF that(2)] keep(2) [OF that(1)] keep(2) [OF that(2)] fs_okD(6) [OF ok that] that(3)
      by (cases "j = i"; cases "k = i"; simp add: Int_commute)
  qed
  ultimately show ?thesis
    using io fi fb fs_okD(2,3) [OF ok] by (simp add: fs_ok_def NINODES_def)
qed

text \<open>The length of the image and the sectors outside of the inode and data blocks.\<close>

definition meta_same :: "mkstate \<Rightarrow> mkstate \<Rightarrow> bool" where
  "meta_same s s' \<longleftrightarrow> img_end s' = img_end s \<and>
     (\<forall>b. unat b < 32 \<or> 58 \<le> unat b \<and> unat b < 83 \<longrightarrow> img s' b = img s b)"

lemma meta_same_trans: "meta_same s t \<Longrightarrow> meta_same t u \<Longrightarrow> meta_same s u"
  by (simp add: meta_same_def)

lemma meta_same_end: "meta_same s t \<Longrightarrow> img_end t = img_end s"
  by (simp add: meta_same_def)

lemma append_commit:
  assumes ok: "fs_ok s fs" and i: "i < length fs" "fs ! i = (t, data)"
    and gr: "grows s (dino s (ino i)) (fblocks (length data)) s1 d1 (fblocks (length data'))"
    and fd: "fdata s1 d1 (length data') = data'" and len: "length data' \<le> 71680"
  shows "\<exists>s'. winode (ino i) (d1\<lparr>d_size := xint (of_nat (length data'))\<rparr>) s1 = Inr ((), s') \<and>
    fs_ok s' (fs[i := (t, data')]) \<and> meta_same s s'"
proof -
  let ?n' = "fblocks (length data')"
  note h = file_holdsD [OF fs_okD(5) [OF ok i(1), unfolded i(2)]] and g = growsD [OF gr]
  have lt: "j < length fs \<Longrightarrow> j < 199" for j using fs_okD(2) [OF ok] by simp
  define d2 where "d2 = d1\<lparr>d_size := xint (of_nat (length data'))\<rparr>"
  have l2: "length (d_addrs d2) = 13" using file_okD(1) [OF g(2)] by (simp add: d2_def)
  obtain s2 where 2: "winode (ino i) d2 s1 = Inr ((), s2)" "img_ok s2" "img_end s2 = img_end s1" "freeblock s2 = freeblock s1"
      "freeinode s2 = freeinode s1" "dino s2 (ino i) = d2" "\<And>j. j < 199 \<Longrightarrow> j \<noteq> i \<Longrightarrow> dino s2 (ino j) = dino s1 (ino j)"
      "\<And>b. b \<noteq> IBLOCK (ino i) mkfs_sb \<Longrightarrow> img s2 b = img s1 b"
    using winode_run [OF g(1) lt [OF i(1)] l2] by blast
  have meta: "img s1 b = img s b" if "unat b < 83" for b
    using occupied_data_block [OF g(2), of b] that by (intro g(11)) (auto simp: data_block_def layout_vals)
  have data: "img s2 b = img s1 b" if "83 \<le> unat b" for b
    using inode_block_meta [OF lt [OF i(1)]] that by (intro 2(8)) auto
  have c: "img s2 b = img s1 b" if "b \<in> occupied s1 d1 ?n'" for b
    using occupied_data_block [OF g(2) that] by (intro data) (simp add: data_block_def layout_vals)
  have "unat (freeblock s1) \<le> unat (freeblock s2)" using 2(4) by simp
  note fc = file_cong [OF g(2) c this]
  have sz: "unat (d_size d2) = length data'" using len by (simp add: d2_def unat_of_nat)
  have bo: "blocks_of s2 (ino i) = occupied s1 d1 ?n'" unfolding blocks_of_def 2(6) sz by (simp add: d2_def fc(2))
  have ty: "d_type d2 = t" "d_nlink d2 = 1" using h(1,2) by (subst d2_def, subst g(6), simp)+
  have "fs_ok s2 (fs[i := (t, data')])"
  proof (rule fs_ok_update [OF ok i(1)])
    show "file_holds s2 (ino i) (t, data')"
      using ty sz fc(3) fc(4) [of "length data'"] fblocks_bounds(1) [of "length data'"] fd
      unfolding file_holds_def 2(6) by (simp add: d2_def)
    show "unat (freeblock s2) = used_blocks (fs[i := (t, data')])"
      using used_blocks_update [OF i(1), of "(t, data')"] i(2) g(7) fs_okD(4) [OF ok] 2(4) by simp
    show "unat (freeblock s) \<le> unat (freeblock s2)" using g(7) cost_mono [OF g(3)] 2(4) by simp
    show "blocks_of s2 (ino i) \<subseteq> blocks_of s (ino i) \<union> {b. freeblock s \<le> b}" unfolding bo h(6) by (rule g(10))
    show "dino s2 (ino j) = dino s (ino j)" if "j < length fs" "j \<noteq> i" for j
      using 2(7) [OF lt [OF that(1)] that(2)] meta [of "IBLOCK (ino j) mkfs_sb"] inode_block_meta [OF lt [OF that(1)]]
      by (simp add: dino_def)
    show "img s2 b = img s b" if "nmeta \<le> unat b" "b \<notin> blocks_of s2 (ino i)" for b
      using data [of b] g(11) [of b] that unfolding bo by (simp add: layout_vals)
  qed (use 2(2,5) g(5) in auto)
  moreover have "img s2 b = img s b" if "unat b < 32 \<or> 58 \<le> unat b \<and> unat b < 83" for b
  proof -
    have "b \<noteq> IBLOCK (ino i) mkfs_sb" using that inode_block_meta [OF lt [OF i(1)]] by auto
    then show ?thesis using that meta [of b] 2(8) by auto
  qed
  ultimately show ?thesis using 2(1,3) g(4) unfolding d2_def meta_same_def by auto
qed

lemma iappend_run:
  assumes ok: "fs_ok s fs" and i: "i < length fs" "fs ! i = (t, data)"
    and len: "length data + length p \<le> 71680" and room: "used_blocks (fs[i := (t, data @ p)]) \<le> img_end s"
  shows "\<exists>s'. iappend (ino i) p s = Inr ((), s') \<and> fs_ok s' (fs[i := (t, data @ p)]) \<and> meta_same s s'"
proof -
  let ?d = "dino s (ino i)" and ?n = "fblocks (length data)" and ?n' = "fblocks (length data + length p)"
  have i199: "i < 199" using i(1) fs_okD(2) [OF ok] by simp
  note h = file_holdsD [OF fs_okD(5) [OF ok i(1), unfolded i(2)]] and io = fs_okD(1) [OF ok]
  have "used_blocks (fs[i := (t, data @ p)]) + cost ?n = used_blocks fs + cost ?n'"
    using used_blocks_update [OF i(1), of "(t, data @ p)"] i(2) by simp
  then have "unat (freeblock s) + cost ?n' \<le> img_end s + cost ?n"
    using room fs_okD(4) [OF ok] by linarith
  then obtain s1 d1 where 1: "iappend_loop (length p) p (length data) ?d s = Inr ((length data + length p, d1), s1)"
      "grows s ?d ?n s1 d1 ?n'" "fdata s1 d1 (length data + length p) = data @ p"
    using iappend_loop_run [OF io h(4) order_refl len] unfolding h(5) by blast
  have "iappend (ino i) p s = winode (ino i) (d1\<lparr>d_size := xint (of_nat (length (data @ p)))\<rparr>) s1"
    using rinode_run [OF io i199] 1(1) h(3) by (simp add: iappend_def)
  then show ?thesis using append_commit [OF ok i, of s1 d1 "data @ p"] 1(2,3) len by simp
qed

lemma fblocks_0 [simp]: "fblocks 0 = 0" "cost 0 = 0"
  by (simp_all add: fblocks_def cost_def)

lemma file_holds_empty:
  assumes "dino s n = \<lparr>d_type = t, d_major = 0, d_minor = 0, d_nlink = 1, d_size = 0, d_addrs = replicate 13 0\<rparr>"
  shows "file_holds s n (t, [])" "blocks_of s n = {}"
proof -
  have "fblk s (dino s n) i = 0" if "i < 140" for i using assms that by (simp add: fblk_def layout_vals)
  then have "file_ok s (dino s n) 0" using assms by (simp add: file_ok_def layout_vals)
  then show "file_holds s n (t, [])" using assms by (simp add: file_holds_def fdata_def)
  show "blocks_of s n = {}" using assms by (simp add: blocks_of_def occupied_def)
qed

lemma ialloc_run:
  assumes ok: "fs_ok s fs" and n: "length fs < 199"
  shows "\<exists>s'. ialloc_mk t s = Inr (ino (length fs), s') \<and> fs_ok s' (fs @ [(t, [])]) \<and> meta_same s s'"
proof -
  let ?k = "length fs"
  let ?d = "\<lparr>d_type = t, d_major = 0, d_minor = 0, d_nlink = 1, d_size = 0, d_addrs = replicate 13 0\<rparr> :: dinode"
  define s1 where "s1 = s\<lparr>freeinode := ino ?k + 1\<rparr>"
  have i1: "img_ok s1" using fs_okD(1) [OF ok] by (simp add: img_ok_def s1_def)
  obtain s2 where 2: "winode (ino ?k) ?d s1 = Inr ((), s2)" "img_ok s2" "img_end s2 = img_end s1" "freeblock s2 = freeblock s1"
      "freeinode s2 = freeinode s1" "dino s2 (ino ?k) = ?d" "\<And>j. j < 199 \<Longrightarrow> j \<noteq> ?k \<Longrightarrow> dino s2 (ino j) = dino s1 (ino j)"
      "\<And>b. b \<noteq> IBLOCK (ino ?k) mkfs_sb \<Longrightarrow> img s2 b = img s1 b"
    using winode_run [OF i1 n, of ?d] by auto
  have same: "img s2 b = img s b" if "unat b < 32 \<or> 58 \<le> unat b" for b
  proof -
    have "b \<noteq> IBLOCK (ino ?k) mkfs_sb" using that inode_block_meta [OF n] by auto
    then show ?thesis using 2(8) by (simp add: s1_def)
  qed
  have keep: "file_holds s2 (ino j) (fs ! j)" "blocks_of s2 (ino j) = blocks_of s (ino j)" if j: "j < ?k" for j
  proof -
    note h = fs_okD(5) [OF ok j]
    have "dino s2 (ino j) = dino s (ino j)" using 2(7) [of j] j n by (simp add: dino_def s1_def)
    moreover have "img s2 b = img s b" if "b \<in> blocks_of s (ino j)" for b
      using blocks_of_data [OF h that] by (intro same) (simp add: data_block_def layout_vals)
    moreover have "unat (freeblock s) \<le> unat (freeblock s2)" using 2(4) by (simp add: s1_def)
    ultimately show "file_holds s2 (ino j) (fs ! j)" "blocks_of s2 (ino j) = blocks_of s (ino j)"
      using file_holds_cong [OF h] by blast+
  qed
  note new = file_holds_empty [OF 2(6)]
  have "file_holds s2 (ino j) ((fs @ [(t, [])]) ! j)" if "j < Suc ?k" for j
    using that keep(1) [of j] new(1) by (cases "j = ?k") (auto simp: nth_append)
  moreover have "blocks_of s2 (ino j) \<inter> blocks_of s2 (ino m) = {}" if "j < Suc ?k" "m < Suc ?k" "j \<noteq> m" for j m
    using that keep(2) [of j] keep(2) [of m] new(2) fs_okD(6) [OF ok, of j m] by (cases "j = ?k"; cases "m = ?k"; simp)
  moreover have "freeinode s2 = ino (Suc ?k)" using 2(5) by (simp add: s1_def ino_def)
  moreover have "unat (freeblock s2) = used_blocks (fs @ [(t, [])])"
    using 2(4) fs_okD(4) [OF ok] by (simp add: s1_def used_blocks_def)
  ultimately have "fs_ok s2 (fs @ [(t, [])])" using 2(2) n by (simp add: fs_ok_def NINODES_def)
  moreover have "ialloc_mk t s = Inr (ino ?k, s2)"
    using 2(1) fs_okD(3) [OF ok] by (simp add: ialloc_mk_def s1_def layout_vals numeral_eq_Suc)
  moreover have "meta_same s s2" using same 2(3) by (simp add: meta_same_def s1_def)
  ultimately show ?thesis by blast
qed

lemma chunks_run:
  assumes "fs_ok s fs" and "i < length fs" "fs ! i = (t, data)"
    and "length data + length (concat ps) \<le> 71680" and "used_blocks (fs[i := (t, data @ concat ps)]) \<le> img_end s"
  shows "\<exists>s'. kfor ps (iappend (ino i)) s = Inr ((), s') \<and> fs_ok s' (fs[i := (t, data @ concat ps)]) \<and> meta_same s s'"
  using assms
proof (induction ps arbitrary: s fs data)
  case Nil
  then show ?case by (auto simp: list_update_id meta_same_def) (metis list_update_id)
next
  case (Cons p ps)
  have "cost (fblocks (length (data @ p))) \<le> cost (fblocks (length (data @ concat (p # ps))))"
    by (intro cost_mono fblocks_mono) simp
  then have room: "used_blocks (fs[i := (t, data @ p)]) \<le> img_end s"
    using Cons.prems(5) used_blocks_update [OF Cons.prems(2), of "(t, data @ p)"]
      used_blocks_update [OF Cons.prems(2), of "(t, data @ concat (p # ps))"] Cons.prems(3) by simp
  have "length data + length p \<le> 71680" using Cons.prems(4) by simp
  from iappend_run [OF Cons.prems(1-3) this room] obtain s1 where
    1: "iappend (ino i) p s = Inr ((), s1)" "fs_ok s1 (fs[i := (t, data @ p)])" "meta_same s s1" by blast
  have "\<exists>s'. kfor ps (iappend (ino i)) s1 = Inr ((), s') \<and>
      fs_ok s' ((fs[i := (t, data @ p)])[i := (t, (data @ p) @ concat ps)]) \<and> meta_same s1 s'"
    by (rule Cons.IH [OF 1(2)]) (use Cons.prems meta_same_end [OF 1(3)] in auto)
  then show ?case using 1 by (auto intro: meta_same_trans)
qed

subsection \<open>The directory and the input files\<close>

definition root_dir :: "(u8 list \<times> u8 list list) list \<Rightarrow> u8 list" where
  "root_dir args = dirent_bytes ROOTINO [0x2E] @ dirent_bytes ROOTINO [0x2E, 0x2E] @
     concat (map (\<lambda>i. dirent_bytes (ino (Suc i)) (skip_underscore (fst (args ! i)))) [0..<length args])"

definition image_files :: "(u8 list \<times> u8 list list) list \<Rightarrow> (u16 \<times> u8 list) list" where
  "image_files args = (T_DIR, root_dir args) # map (\<lambda>f. (T_FILE, concat (snd f))) args"

lemma length_dirent_bytes [simp]: "length (dirent_bytes n name) = 16"
  by (simp add: dirent_bytes_def dirent_name_def DIRSIZ_def)

lemma length_root_dir [simp]: "length (root_dir args) = 16 * (2 + length args)"
  by (simp add: root_dir_def length_concat comp_def sum_list_triv)

lemma length_image_files [simp]: "length (image_files args) = Suc (length args)"
  by (simp add: image_files_def)

lemma root_dir_snoc: "root_dir (as @ [f]) = root_dir as @ dirent_bytes (ino (Suc (length as))) (skip_underscore (fst f))"
proof -
  have "concat (map (\<lambda>i. dirent_bytes (ino (Suc i)) (skip_underscore (fst ((as @ [f]) ! i)))) [0..<length as]) =
      concat (map (\<lambda>i. dirent_bytes (ino (Suc i)) (skip_underscore (fst (as ! i)))) [0..<length as])"
    by (intro arg_cong [where f = concat] map_cong) (auto simp: nth_append)
  then show ?thesis by (simp add: root_dir_def)
qed

lemma used_blocks_cons: "used_blocks (f # fs) = used_blocks fs + cost (fblocks (length (snd f)))"
  by (simp add: used_blocks_def)

lemma used_blocks_append: "used_blocks (fs @ gs) + nmeta = used_blocks fs + used_blocks gs"
  by (simp add: used_blocks_def)

lemma used_blocks_image: "used_blocks (image_files as) \<le> used_blocks (image_files (as @ bs))"
proof -
  have "cost (fblocks (length (root_dir as))) \<le> cost (fblocks (length (root_dir (as @ bs))))"
    by (intro cost_mono fblocks_mono) simp
  then show ?thesis
    by (simp only: image_files_def used_blocks_def map_append list.map sum_list.append sum_list.Cons snd_conv)
qed

lemma ino_0: "ino 0 = ROOTINO"
  by (simp add: ino_def ROOTINO_def)

lemma add_file_run:
  assumes ok: "fs_ok s (image_files as)" and n: "length as < 198" and name: "slash \<notin> set (fst f)"
    and len: "length (concat (snd f)) \<le> 71680" and room: "used_blocks (image_files (as @ [f])) \<le> img_end s"
  shows "\<exists>s'. add_file ROOTINO f s = Inr ((), s') \<and> fs_ok s' (image_files (as @ [f])) \<and> meta_same s s'"
proof -
  obtain nm ps where f: "f = (nm, ps)" by fastforce
  let ?k = "Suc (length as)" and ?F = "map (\<lambda>f. (T_FILE, concat (snd f))) as"
  let ?de = "dirent_bytes (ino ?k) (skip_underscore nm)"
  obtain s1 where 1: "ialloc_mk T_FILE s = Inr (ino ?k, s1)" "fs_ok s1 (image_files as @ [(T_FILE, [])])" "meta_same s s1"
    using ialloc_run [OF ok] n by auto
  have img: "image_files (as @ [f]) = (T_DIR, root_dir as @ ?de) # ?F @ [(T_FILE, concat ps)]"
    by (simp add: image_files_def root_dir_snoc f)
  have u: "used_blocks ((T_DIR, root_dir as @ ?de) # ?F @ [(T_FILE, [])]) \<le> img_end s1"
    using room meta_same_end [OF 1(3)] unfolding img
    by (simp add: used_blocks_def)
  have "\<exists>s'. iappend (ino 0) ?de s1 = Inr ((), s') \<and>
      fs_ok s' ((image_files as @ [(T_FILE, [])])[0 := (T_DIR, root_dir as @ ?de)]) \<and> meta_same s1 s'"
    by (rule iappend_run [OF 1(2)]) (use n u in \<open>auto simp: image_files_def\<close>)
  then obtain s2 where 2: "iappend ROOTINO ?de s1 = Inr ((), s2)" "meta_same s1 s2"
      "fs_ok s2 ((T_DIR, root_dir as @ ?de) # ?F @ [(T_FILE, [])])"
    by (auto simp: ino_0 image_files_def)
  have "\<exists>s'. kfor ps (iappend (ino ?k)) s2 = Inr ((), s') \<and>
      fs_ok s' (((T_DIR, root_dir as @ ?de) # ?F @ [(T_FILE, [])])[?k := (T_FILE, [] @ concat ps)]) \<and> meta_same s2 s'"
    by (rule chunks_run [OF 2(3)])
      (use len f room [unfolded img] meta_same_end [OF 1(3)] meta_same_end [OF 2(2)] in \<open>auto simp: nth_append list_update_append\<close>)
  then obtain s3 where 3: "kfor ps (iappend (ino ?k)) s2 = Inr ((), s3)" "meta_same s2 s3" "fs_ok s3 (image_files (as @ [f]))"
    by (auto simp: img list_update_append)
  have "add_file ROOTINO f s = Inr ((), s3)" using name 1(1) 2(1) 3(1) by (simp add: add_file_def f)
  moreover have "meta_same s s3" using meta_same_trans [OF meta_same_trans [OF 1(3) 2(2)] 3(2)] .
  ultimately show ?thesis using 3(3) by blast
qed

lemma add_files_run:
  assumes "fs_ok s (image_files as)" and "length as + length bs < 199" and "\<forall>f \<in> set bs. slash \<notin> set (fst f)"
    and "\<forall>f \<in> set bs. length (concat (snd f)) \<le> 71680" and "used_blocks (image_files (as @ bs)) \<le> img_end s"
  shows "\<exists>s'. kfor bs (add_file ROOTINO) s = Inr ((), s') \<and> fs_ok s' (image_files (as @ bs)) \<and> meta_same s s'"
  using assms
proof (induction bs arbitrary: s as)
  case Nil
  then show ?case by (simp add: meta_same_def)
next
  case (Cons f bs)
  have "used_blocks (image_files (as @ [f])) \<le> img_end s"
    using used_blocks_image [of "as @ [f]" bs] Cons.prems(5) by simp
  then obtain s1 where 1: "add_file ROOTINO f s = Inr ((), s1)" "fs_ok s1 (image_files (as @ [f]))" "meta_same s s1"
    using add_file_run [OF Cons.prems(1), of f] Cons.prems(2-4) by auto
  obtain s2 where 2: "kfor bs (add_file ROOTINO) s1 = Inr ((), s2)" "fs_ok s2 (image_files (as @ f # bs))" "meta_same s1 s2"
    using Cons.IH [OF 1(2)] Cons.prems(2-5) meta_same_end [OF 1(3)] by auto
  then show ?case using 1(1) meta_same_trans [OF 1(3) 2(3)] by auto
qed

subsection \<open>The whole program\<close>

lemma kfor_append: "kfor (xs @ ys) f = kseq (kfor xs f) (kfor ys f)"
proof (induction xs)
  case (Cons x xs)
  then show ?case by (intro ext) (simp add: kseq_def kbind_assoc)
qed simp

lemma zero_image:
  assumes "img s = (\<lambda>_. replicate BSIZE 0)" and "img_end s = 0" and "n \<le> 2 ^ 23"
  shows "kfor [0..<n] (\<lambda>i. wsect (of_nat i) (replicate BSIZE 0)) s = Inr ((), s\<lparr>img_end := n\<rparr>)"
  using assms(3)
proof (induction n)
  case 0
  then show ?case using assms(2) by simp
next
  case (Suc n)
  have "unat (of_nat n :: u32) = n" using Suc.prems by (simp add: unat_of_nat)
  moreover have "(img s)(of_nat n := replicate BSIZE 0) = img s" using assms(1) by auto
  ultimately have "wsect (of_nat n) (replicate BSIZE 0) (s\<lparr>img_end := n\<rparr>) = Inr ((), s\<lparr>img_end := Suc n\<rparr>)"
    using Suc.prems by (simp add: wsect_def)
  then show ?case using Suc by (simp add: kfor_append)
qed

lemma length_mark_bits [simp]: "length (fold mark_bit is b) = length b"
  by (induction "is" arbitrary: b) (auto simp: mark_bit_def)

lemma bit_mask_bit: "bit (bit_mask i) n \<longleftrightarrow> n = i mod 8"
  by (auto simp: bit_mask_def bit_simps)

lemma bit_clear_iff: "bit_clear d i \<longleftrightarrow> \<not> bit (d ! (i div 8)) (i mod 8)"
proof -
  have "d ! (i div 8) AND bit_mask i = 0 \<longleftrightarrow> (\<forall>n. \<not> (bit (d ! (i div 8)) n \<and> bit (bit_mask i) n))"
    using bit_imp_le_length [of "bit_mask i"] by (auto simp: bit_eq_iff bit_and_iff)
  then show ?thesis by (auto simp: bit_clear_def bit_mask_bit)
qed

lemma bit_clear_mark_bit:
  assumes "j < 8 * length d"
  shows "bit_clear (mark_bit j d) i \<longleftrightarrow> i \<noteq> j \<and> bit_clear d i"
proof (cases "i div 8 = j div 8")
  case True
  then have "i mod 8 = j mod 8 \<longleftrightarrow> i = j" by (metis div_mult_mod_eq)
  then show ?thesis using True assms by (auto simp: bit_clear_iff mark_bit_def bit_simps bit_mask_bit)
next
  case False
  then show ?thesis by (auto simp: bit_clear_iff mark_bit_def)
qed

lemma bitmap_bits:
  assumes "i < 4096" and "u \<le> 4096"
  shows "bit_clear (fold mark_bit [0..<u] (replicate 512 0)) i \<longleftrightarrow> u \<le> i"
  using assms(2)
proof (induction u)
  case 0
  then show ?case using assms(1) by (simp add: bit_clear_iff less_mult_imp_div_less)
next
  case (Suc u)
  then show ?case by (auto simp: bit_clear_mark_bit)
qed

lemma sb_fields:
  "get32 (sb_bytes x) 0 = sb_size x" "get32 (sb_bytes x) 4 = sb_nblocks x" "get32 (sb_bytes x) 8 = sb_ninodes x"
  "get32 (sb_bytes x) 12 = sb_nlog x" "get32 (sb_bytes x) 16 = sb_logstart x" "get32 (sb_bytes x) 20 = sb_inodestart x"
  "get32 (sb_bytes x) 24 = sb_bmapstart x"
  by (simp_all add: sb_bytes_def get_append)

lemma decode_sb_bytes: "decode_sb (patch (replicate BSIZE 0) 0 (sb_bytes x)) = x"
proof -
  have l: "0 + length (sb_bytes x) \<le> length (replicate BSIZE (0 :: u8))" "length (sb_bytes x) = 28"
    by (simp_all add: sb_bytes_def BSIZE_def)
  show ?thesis
    using get_patch(2) [OF l(1), of 0] get_patch(2) [OF l(1), of 4] get_patch(2) [OF l(1), of 8] get_patch(2) [OF l(1), of 12]
      get_patch(2) [OF l(1), of 16] get_patch(2) [OF l(1), of 20] get_patch(2) [OF l(1), of 24] l(2)
    by (simp add: decode_sb_def sb_fields)
qed

text \<open>The calls of \<open>main\<close> up to the loop over the arguments.\<close>

definition mkfs_head :: "unit mk" where
  "mkfs_head =
     kseq (kmod (\<lambda>s. s\<lparr>freeblock := of_nat nmeta\<rparr>)) (
     kseq (kfor [0..<FSSIZE] (\<lambda>i. wsect (of_nat i) (replicate BSIZE 0)))
     (wsect 1 (patch (replicate BSIZE 0) 0 (sb_bytes mkfs_sb))))"

lemma mkfs_head_run:
  "\<exists>s. mkfs_head mkfs_start = Inr ((), s) \<and> fs_ok s [] \<and> img_end s = 100000 \<and> decode_sb (img s 1) = mkfs_sb \<and>
    (\<forall>b. b \<noteq> 1 \<longrightarrow> img s b = replicate 512 0)"
proof -
  let ?B = "patch (replicate BSIZE 0) 0 (sb_bytes mkfs_sb)"
  define s0 where "s0 = mkfs_start\<lparr>freeblock := of_nat nmeta\<rparr>"
  define s where "s = s0\<lparr>img_end := 100000, img := (img s0)(1 := ?B)\<rparr>"
  have "kfor [0..<FSSIZE] (\<lambda>i. wsect (of_nat i) (replicate BSIZE 0)) s0 = Inr ((), s0\<lparr>img_end := 100000\<rparr>)"
    using zero_image [of s0 FSSIZE] by (simp add: s0_def mkfs_start_def FSSIZE_def del: upt_conv_Cons)
  then have run: "mkfs_head mkfs_start = Inr ((), s)"
    by (simp add: mkfs_head_def s0_def [symmetric] s_def)
  have "length ?B = 512" by (simp add: sb_bytes_def BSIZE_def)
  moreover have "\<not> (83 :: u32) \<le> 1" by (simp add: word_le_nat_alt)
  ultimately have "fs_ok s []"
    by (auto simp: fs_ok_def img_ok_def s_def s0_def mkfs_start_def layout_vals used_blocks_def NINODES_def ino_def)
  moreover have "decode_sb (img s 1) = mkfs_sb" by (simp add: s_def decode_sb_bytes)
  moreover have "img s b = replicate 512 0" if "b \<noteq> 1" for b using that by (simp add: s_def s0_def mkfs_start_def BSIZE_def)
  ultimately show ?thesis using run by (intro exI [of _ s]) (simp add: s_def)
qed

text \<open>The calls after that loop.\<close>

definition mkfs_tail :: "u32 \<Rightarrow> unit mk" where
  "mkfs_tail rootino =
     kbind (rinode rootino) (\<lambda>din.
     let off = (unat (xint (d_size din)) div BSIZE + 1) * BSIZE in
     kseq (winode rootino (din\<lparr>d_size := xint (of_nat off)\<rparr>)) (
     kbind (kget freeblock) (\<lambda>fb.
     balloc_mk (sint fb))))"

lemma mkfs_main_unfold:
  "mkfs_main args =
     kseq mkfs_head (
     kbind (ialloc_mk T_DIR) (\<lambda>rootino.
     kseq (massert (rootino = ROOTINO)) (
     kseq (iappend rootino (dirent_bytes rootino [0x2E])) (
     kseq (iappend rootino (dirent_bytes rootino [0x2E, 0x2E])) (
     kseq (kfor args (add_file rootino))
     (mkfs_tail rootino))))))"
  unfolding mkfs_main_def mkfs_head_def mkfs_tail_def kseq_def kbind_assoc ..

lemma root_run:
  assumes ok: "fs_ok s []" and e: "img_end s = 100000"
  shows "\<exists>s1 s2 s3. ialloc_mk T_DIR s = Inr (ROOTINO, s1) \<and> iappend ROOTINO (dirent_bytes ROOTINO [0x2E]) s1 = Inr ((), s2) \<and>
    iappend ROOTINO (dirent_bytes ROOTINO [0x2E, 0x2E]) s2 = Inr ((), s3) \<and> fs_ok s3 (image_files []) \<and> meta_same s s3"
proof -
  let ?a = "dirent_bytes ROOTINO [0x2E]" and ?b = "dirent_bytes ROOTINO [0x2E, 0x2E]"
  obtain s1 where 1: "ialloc_mk T_DIR s = Inr (ROOTINO, s1)" "fs_ok s1 [(T_DIR, [])]" "meta_same s s1"
    using ialloc_run [OF ok, of T_DIR] by (auto simp: ino_0)
  have u: "used_blocks [(T_DIR, ?a)] \<le> 100000" "used_blocks [(T_DIR, ?a @ ?b)] \<le> 100000"
    by (simp_all add: used_blocks_def layout_vals fblocks_def cost_def)
  obtain s2 where 2: "iappend ROOTINO ?a s1 = Inr ((), s2)" "fs_ok s2 [(T_DIR, ?a)]" "meta_same s1 s2"
    using iappend_run [OF 1(2), of 0 T_DIR "[]" ?a] u(1) meta_same_end [OF 1(3)] e by (auto simp: ino_0)
  obtain s3 where 3: "iappend ROOTINO ?b s2 = Inr ((), s3)" "fs_ok s3 [(T_DIR, ?a @ ?b)]" "meta_same s2 s3"
    using iappend_run [OF 2(2), of 0 T_DIR ?a ?b] u(2) meta_same_end [OF 1(3)] meta_same_end [OF 2(3)] e by (auto simp: ino_0)
  have "image_files [] = [(T_DIR, ?a @ ?b)]" by (simp add: image_files_def root_dir_def)
  then show ?thesis using 1(1) 2(1) 3(1,2) meta_same_trans [OF meta_same_trans [OF 1(3) 2(3)] 3(3)] by auto
qed

text \<open>The root inode gets a size of whole blocks; its blocks and bytes stay.\<close>

definition root_size :: "nat \<Rightarrow> nat" where
  "root_size n = (16 * (2 + n) div 512 + 1) * 512"

definition mkfs_done :: "(u8 list \<times> u8 list list) list \<Rightarrow> mkstate \<Rightarrow> bool" where
  "mkfs_done args s \<longleftrightarrow>
     (\<forall>i < length args. file_holds s (ino (Suc i)) (T_FILE, concat (snd (args ! i)))) \<and>
     d_type (dino s ROOTINO) = T_DIR \<and> d_nlink (dino s ROOTINO) = 1 \<and> unat (d_size (dino s ROOTINO)) = root_size (length args) \<and>
     file_ok s (dino s ROOTINO) (fblocks (length (root_dir args))) \<and>
     fdata s (dino s ROOTINO) (length (root_dir args)) = root_dir args"

definition file_blocks :: "(u8 list \<times> u8 list list) list \<Rightarrow> mkstate \<Rightarrow> nat \<Rightarrow> u32 set" where
  "file_blocks args s i = occupied s (dino s (ino i)) (fblocks (length (snd (image_files args ! i))))"

lemma mkfs_finish:
  assumes ok: "fs_ok s (image_files args)"
    and d0: "dino s' ROOTINO = (dino s ROOTINO)\<lparr>d_size := of_nat (root_size (length args))\<rparr>"
    and dn: "\<And>j. j < 199 \<Longrightarrow> j \<noteq> 0 \<Longrightarrow> dino s' (ino j) = dino s (ino j)"
    and same: "\<And>b. 83 \<le> unat b \<Longrightarrow> img s' b = img s b" and fb: "freeblock s' = freeblock s"
  shows "mkfs_done args s'" "i < Suc (length args) \<Longrightarrow> file_blocks args s' i = blocks_of s (ino i)"
proof -
  have n: "length args < 199" using fs_okD(2) [OF ok] by simp
  have le: "unat (freeblock s) \<le> unat (freeblock s')" using fb by simp
  have keep: "img s' b = img s b" if "j < Suc (length args)" "b \<in> blocks_of s (ino j)" for j b
    using blocks_of_data [OF fs_okD(5) [OF ok, of j] that(2)] that(1) by (intro same) (simp add: data_block_def layout_vals)
  have files: "file_holds s' (ino j) (image_files args ! j)" "blocks_of s' (ino j) = blocks_of s (ino j)"
    if j: "j < Suc (length args)" "j \<noteq> 0" for j
  proof -
    have "dino s' (ino j) = dino s (ino j)" using j n by (intro dn) auto
    note c = file_holds_cong [OF fs_okD(5) [OF ok] this le keep [OF j(1)]]
    show "file_holds s' (ino j) (image_files args ! j)" by (rule c(1)) (use j in auto)
    show "blocks_of s' (ino j) = blocks_of s (ino j)" by (rule c(2)) (use j in auto)
  qed
  have h0: "file_holds s ROOTINO (T_DIR, root_dir args)"
    using fs_okD(5) [OF ok, of 0] unfolding ino_0 by (simp add: image_files_def)
  note r = file_holdsD [OF h0]
  have k0: "img s' b = img s b" if "b \<in> occupied s (dino s ROOTINO) (fblocks (length (root_dir args)))" for b
    using keep [of 0 b] that unfolding ino_0 r(6) by simp
  have c: "occupied s' (dino s ROOTINO) (fblocks (length (root_dir args))) = blocks_of s ROOTINO"
      "file_ok s' (dino s ROOTINO) (fblocks (length (root_dir args)))"
      "fdata s' (dino s ROOTINO) (length (root_dir args)) = root_dir args"
    using file_cong [OF r(4) k0 le] fblocks_bounds(1) [of "length (root_dir args)"] r(5,6) by simp_all
  have rs: "root_size (length args) < 2 ^ 32" using n div_le_mono [of "16 * (2 + length args)" 3200 512] by (simp add: root_size_def)
  have "file_holds s' (ino (Suc j)) (T_FILE, concat (snd (args ! j)))" if "j < length args" for j
    using files(1) [of "Suc j"] that by (simp add: image_files_def)
  then show "mkfs_done args s'"
    using r(1,2) c(2,3) rs unfolding mkfs_done_def d0 by (simp add: unat_of_nat)
  show "file_blocks args s' i = blocks_of s (ino i)" if i: "i < Suc (length args)"
  proof (cases "i = 0")
    case True
    then show ?thesis using c(1) unfolding file_blocks_def True ino_0 d0 by (simp add: image_files_def)
  next
    case False
    then show ?thesis
      using files [OF i False] file_holdsD(6) [of s' "ino i" "fst (image_files args ! i)" "snd (image_files args ! i)"] by (simp add: file_blocks_def)
  qed
qed

lemma mkfs_files_run:
  assumes n: "length args < 199" and nm: "\<forall>f \<in> set args. slash \<notin> set (fst f)"
    and len: "\<forall>f \<in> set args. length (concat (snd f)) \<le> MAXFILE * BSIZE" and u: "used_blocks (image_files args) < BPB"
  shows "\<exists>s. mkfs_main args mkfs_start = mkfs_tail ROOTINO s \<and> fs_ok s (image_files args) \<and> decode_sb (img s 1) = mkfs_sb \<and>
    (\<forall>b. 58 \<le> unat b \<and> unat b < 83 \<longrightarrow> img s b = replicate 512 0)"
proof -
  obtain s0 where 0: "mkfs_head mkfs_start = Inr ((), s0)" "fs_ok s0 []" "img_end s0 = 100000" "decode_sb (img s0 1) = mkfs_sb"
      "\<And>b. b \<noteq> 1 \<Longrightarrow> img s0 b = replicate 512 0"
    using mkfs_head_run by blast
  obtain s1 s2 s3 where 3: "ialloc_mk T_DIR s0 = Inr (ROOTINO, s1)" "iappend ROOTINO (dirent_bytes ROOTINO [0x2E]) s1 = Inr ((), s2)"
      "iappend ROOTINO (dirent_bytes ROOTINO [0x2E, 0x2E]) s2 = Inr ((), s3)" "fs_ok s3 (image_files [])" "meta_same s0 s3"
    using root_run [OF 0(2,3)] by blast
  have "used_blocks (image_files args) \<le> img_end s3" using u meta_same_end [OF 3(5)] 0(3) by (simp add: BPB_def BSIZE_def)
  then obtain s4 where 4: "kfor args (add_file ROOTINO) s3 = Inr ((), s4)" "fs_ok s4 (image_files args)" "meta_same s3 s4"
    using add_files_run [OF 3(4), of args] n nm len by (auto simp: layout_vals)
  have m: "img s4 b = img s0 b" if "unat b < 32 \<or> 58 \<le> unat b \<and> unat b < 83" for b
    using meta_same_trans [OF 3(5) 4(3)] that unfolding meta_same_def by blast
  have "img s4 b = replicate 512 0" if "58 \<le> unat b" "unat b < 83" for b
  proof -
    have "b \<noteq> 1" using that by auto
    then show ?thesis using m [of b] that 0(5) by simp
  qed
  moreover have "img s4 1 = img s0 1" by (rule m) simp
  moreover have "mkfs_main args mkfs_start = mkfs_tail ROOTINO s4"
    unfolding mkfs_main_unfold using 0(1) 3(1-3) 4(1) by simp
  ultimately show ?thesis using 4(2) 0(4) by auto
qed

lemma mkfs_tail_run:
  assumes ok: "fs_ok s (image_files args)" and u: "used_blocks (image_files args) < 4096"
  shows "\<exists>s'. mkfs_tail ROOTINO s = Inr ((), s') \<and> mkfs_done args s' \<and>
    (\<forall>i < Suc (length args). file_blocks args s' i = blocks_of s (ino i)) \<and>
    img s' 58 = fold mark_bit [0..<used_blocks (image_files args)] (replicate 512 0) \<and>
    (\<forall>b. unat b < 32 \<or> 58 < unat b \<and> unat b < 83 \<longrightarrow> img s' b = img s b)"
proof -
  let ?z = "root_size (length args)" and ?bm = "fold mark_bit [0..<used_blocks (image_files args)] (replicate 512 (0 :: u8))"
  note i = fs_okD(1) [OF ok]
  have h0: "file_holds s ROOTINO (T_DIR, root_dir args)"
    using fs_okD(5) [OF ok, of 0] unfolding ino_0 by (simp add: image_files_def)
  define d where "d = (dino s ROOTINO)\<lparr>d_size := of_nat ?z\<rparr>"
  have ld: "length (d_addrs d) = 13" using file_okD(1) [OF file_holdsD(4) [OF h0]] by (simp add: d_def)
  obtain s1 where 1: "winode ROOTINO d s = Inr ((), s1)" "img_ok s1" "img_end s1 = img_end s" "freeblock s1 = freeblock s"
      "dino s1 ROOTINO = d" "\<And>j. j < 199 \<Longrightarrow> j \<noteq> 0 \<Longrightarrow> dino s1 (ino j) = dino s (ino j)"
      "\<And>b. b \<noteq> IBLOCK ROOTINO mkfs_sb \<Longrightarrow> img s1 b = img s b"
    using winode_run [OF i _ ld, of 0] by (auto simp: ino_0)
  define s2 where "s2 = s1\<lparr>img := (img s1)(58 := ?bm)\<rparr>"
  have fb: "sint (freeblock s1) = int (used_blocks (image_files args))"
    using fs_okD(4) [OF ok] 1(4) u by (simp add: sint_uint uint_nat signed_take_bit_int_eq_self)
  have run: "mkfs_tail ROOTINO s = Inr ((), s2)"
    using rinode_run [OF i, of 0] file_holdsD(3) [OF h0] 1(1) fb u img_okD(3,4,5) [OF 1(2)]
    by (simp add: mkfs_tail_def ino_0 Let_def d_def root_size_def layout_vals balloc_mk_def s2_def)
  have ne: "b \<noteq> IBLOCK ROOTINO mkfs_sb" if "unat b < 32 \<or> 58 \<le> unat b" for b
    using inode_block_meta [of 0] that unfolding ino_0 by auto
  then have same: "img s2 b = img s b" if "unat b < 32 \<or> 58 < unat b" for b using 1(7) [of b] that by (auto simp: s2_def)
  have dn: "dino s2 (ino j) = dino s1 (ino j)" if "j < 199" for j
    using inode_block_meta [OF that] by (auto simp: dino_def s2_def)
  have fin: "mkfs_done args s2" "i < Suc (length args) \<Longrightarrow> file_blocks args s2 i = blocks_of s (ino i)" for i
  proof -
    show "mkfs_done args s2"
      by (rule mkfs_finish [OF ok]) (use dn dn [of 0] 1(4-6) same in \<open>auto simp: d_def ino_0 s2_def\<close>)
    show "file_blocks args s2 i = blocks_of s (ino i)" if "i < Suc (length args)"
      by (rule mkfs_finish(2) [OF ok _ _ _ _ that]) (use dn dn [of 0] 1(4-6) same in \<open>auto simp: d_def ino_0 s2_def\<close>)
  qed
  have "img s2 58 = ?bm" by (simp add: s2_def)
  then show ?thesis using run fin same by (intro exI [of _ s2]) auto
qed

lemma bitmap_image:
  assumes u: "u < 4096" and b: "b < 100000" and m: "f 58 = fold mark_bit [0..<u] (replicate 512 0)"
    and z: "\<And>c. 58 < unat c \<Longrightarrow> unat c < 83 \<Longrightarrow> f c = replicate 512 0"
  shows "bit_clear (f (BBLOCK (of_nat b) mkfs_sb)) (b mod BPB) \<longleftrightarrow> u \<le> b"
proof -
  have lt: "b div 4096 < 25" using b by (simp add: less_mult_imp_div_less)
  have "unat (of_nat b :: u32) = b" using b by (simp add: unat_of_nat)
  then have "unat (of_nat b div 4096 :: u32) = b div 4096" by (simp only: unat_div_distrib) simp
  then have c: "unat (BBLOCK (of_nat b) mkfs_sb) = 58 + b div 4096"
    using lt by (simp add: BBLOCK_def BPB_def BSIZE_def unat_add_small)
  show ?thesis
  proof (cases "b < 4096")
    case True
    then have "BBLOCK (of_nat b) mkfs_sb = 58" using c by (intro word_unat_eq_iff [THEN iffD2]) simp
    then show ?thesis using bitmap_bits [of b u] True m u by (simp add: BPB_def BSIZE_def)
  next
    case False
    then have "0 < b div 4096" by (simp add: div_greater_zero_iff)
    then have "f (BBLOCK (of_nat b) mkfs_sb) = replicate 512 0" using c lt by (intro z) auto
    then show ?thesis
      using False u by (simp add: bit_clear_iff BPB_def BSIZE_def less_mult_imp_div_less)
  qed
qed

lemma mkfs_run:
  assumes n: "length args < NINODES - 1" and nm: "\<forall>f \<in> set args. slash \<notin> set (fst f)"
    and len: "\<forall>f \<in> set args. length (concat (snd f)) \<le> MAXFILE * BSIZE" and u: "used_blocks (image_files args) < BPB"
  shows "\<exists>s. mkfs_main args mkfs_start = Inr ((), s) \<and> mkfs_done args s \<and> decode_sb (img s 1) = mkfs_sb \<and>
    (\<forall>i < Suc (length args). \<forall>b \<in> file_blocks args s i. nmeta \<le> unat b \<and> unat b < used_blocks (image_files args)) \<and>
    (\<forall>i < Suc (length args). \<forall>j < Suc (length args). i \<noteq> j \<longrightarrow> file_blocks args s i \<inter> file_blocks args s j = {}) \<and>
    (\<forall>b < FSSIZE. bit_clear (img s (BBLOCK (of_nat b) mkfs_sb)) (b mod BPB) \<longleftrightarrow> used_blocks (image_files args) \<le> b)"
proof -
  have u': "used_blocks (image_files args) < 4096" using u by (simp add: BPB_def BSIZE_def)
  have n': "length args < 199" using n by (simp add: NINODES_def)
  obtain s where s: "mkfs_main args mkfs_start = mkfs_tail ROOTINO s" "fs_ok s (image_files args)" "decode_sb (img s 1) = mkfs_sb"
      "\<And>b. 58 \<le> unat b \<Longrightarrow> unat b < 83 \<Longrightarrow> img s b = replicate 512 0"
    using mkfs_files_run [OF n' nm len u] by blast
  obtain s' where s': "mkfs_tail ROOTINO s = Inr ((), s')" "mkfs_done args s'"
      "\<And>i. i < Suc (length args) \<Longrightarrow> file_blocks args s' i = blocks_of s (ino i)"
      "img s' 58 = fold mark_bit [0..<used_blocks (image_files args)] (replicate 512 0)"
      "\<And>b. unat b < 32 \<or> 58 < unat b \<and> unat b < 83 \<Longrightarrow> img s' b = img s b"
    using mkfs_tail_run [OF s(2) u'] by blast
  have "nmeta \<le> unat b \<and> unat b < used_blocks (image_files args)" if "i < Suc (length args)" "b \<in> file_blocks args s' i" for i b
    using blocks_of_data [OF fs_okD(5) [OF s(2)], of i b] that s'(3) fs_okD(4) [OF s(2)] by (simp add: data_block_def)
  moreover have "file_blocks args s' i \<inter> file_blocks args s' j = {}" if "i < Suc (length args)" "j < Suc (length args)" "i \<noteq> j" for i j
    using fs_okD(6) [OF s(2), of i j] that s'(3) by simp
  moreover have "bit_clear (img s' (BBLOCK (of_nat b) mkfs_sb)) (b mod BPB) \<longleftrightarrow> used_blocks (image_files args) \<le> b"
    if "b < FSSIZE" for b
    by (rule bitmap_image [OF u']) (use that s(4) s'(4,5) in \<open>auto simp: FSSIZE_def\<close>)
  moreover have "img s' 1 = img s 1" by (rule s'(5)) simp
  ultimately show ?thesis using s(1,3) s'(1,2) by auto
qed

text \<open>A file that would exceed the largest size stops the program.\<close>

lemma iappend_loop_fault:
  assumes "img_ok s" and "file_ok s din (fblocks off)" and "off \<le> 71680" and "71680 < off + length p" and "length p \<le> f"
    and "unat (freeblock s) + cost 140 \<le> img_end s + cost (fblocks off)"
  shows "iappend_loop f p off din s = Inl (Fault ''assert'')"
  using assms
proof (induction f arbitrary: s din off p)
  case (Suc f)
  have p: "p \<noteq> []" using Suc.prems(3,4) by auto
  show ?case
  proof (cases "off < 71680")
    case False
    then have "off = 71680" using Suc.prems(3) by simp
    then show ?thesis using p by (simp add: layout_vals massert_def)
  next
    case True
    define n1 where "n1 = min (length p) (512 - off mod 512)"
    have m: "off div 512 < 140" using True by (simp add: less_mult_imp_div_less)
    then have "cost (Suc (off div 512)) \<le> cost 140" by (intro cost_mono) simp
    then have room: "unat (freeblock s) + cost (Suc (off div 512)) \<le> img_end s + cost (fblocks off)" using Suc.prems(6) by linarith
    obtain s2 d2 where 2: "\<And>f. iappend_loop (Suc f) p off din s = iappend_loop f (drop n1 p) (off + n1) d2 s2"
        "grows s din (fblocks off) s2 d2 (fblocks (off + n1))"
      using iappend_round [OF Suc.prems(1,2) p True room] unfolding n1_def by blast
    have "n1 \<le> 512 - off mod 512" "0 < n1" "n1 \<le> length p" using p by (auto simp: n1_def)
    moreover have "off + (512 - off mod 512) \<le> 71680" using m mult_div_mod_eq [of 512 off] by linarith
    ultimately have "iappend_loop f (drop n1 p) (off + n1) d2 s2 = Inl (Fault ''assert'')"
      using Suc.prems(4,5,6) growsD(4,7) [OF 2(2)] by (intro Suc.IH growsD(1,2) [OF 2(2)]) auto
    then show ?thesis by (simp only: 2(1))
  qed
qed simp

section \<open>Properties\<close>

text \<open>
  C32. The image: for input files whose names have no slash, that are at most as large as the largest file, and
  that fit, together with the directory, in the blocks of one bitmap block, \<open>mkfs\<close> returns. The image has the
  superblock that the kernel reads back, the inode of each input file has the contents of the file, and
  the root directory has an entry for each, after its own two.
\<close>

theorem mkfs_builds_image:
  assumes "length args < NINODES - 1" and "\<forall>f \<in> set args. slash \<notin> set (fst f)"
    and "\<forall>f \<in> set args. length (concat (snd f)) \<le> MAXFILE * BSIZE" and "used_blocks (image_files args) < BPB"
  shows "\<exists>s. mkfs_main args mkfs_start = Inr ((), s) \<and> decode_sb (img s 1) = mkfs_sb \<and> mkfs_done args s"
  using mkfs_run [OF assms] by blast

theorem mkfs_builds_image_witness:
  "\<exists>s. mkfs_main [([0x5F, 0x61], [[1, 2], [3]])] mkfs_start = Inr ((), s) \<and> decode_sb (img s 1) = mkfs_sb \<and>
    mkfs_done [([0x5F, 0x61], [[1, 2], [3]])] s"
  by (rule mkfs_builds_image)
    (simp_all add: NINODES_def slash_def layout_vals BPB_def used_blocks_def image_files_def fblocks_def cost_def)

text \<open>
  C33. The image is well formed: every block of a file is a data block that the bitmap, as the kernel reads it, marks
  as used, no block belongs to two files, and all blocks after them are free.
\<close>

theorem mkfs_image_wf:
  assumes "length args < NINODES - 1" and "\<forall>f \<in> set args. slash \<notin> set (fst f)"
    and "\<forall>f \<in> set args. length (concat (snd f)) \<le> MAXFILE * BSIZE" and "used_blocks (image_files args) < BPB"
  shows "\<exists>s. mkfs_main args mkfs_start = Inr ((), s) \<and>
    (\<forall>i < Suc (length args). \<forall>b \<in> file_blocks args s i. nmeta \<le> unat b \<and> unat b < used_blocks (image_files args)) \<and>
    (\<forall>i < Suc (length args). \<forall>j < Suc (length args). i \<noteq> j \<longrightarrow> file_blocks args s i \<inter> file_blocks args s j = {}) \<and>
    (\<forall>b < FSSIZE. bit_clear (img s (BBLOCK (of_nat b) mkfs_sb)) (b mod BPB) \<longleftrightarrow> used_blocks (image_files args) \<le> b)"
  using mkfs_run [OF assms] by blast

theorem mkfs_image_wf_witness:
  "\<exists>s. mkfs_main [([0x61], [[1]])] mkfs_start = Inr ((), s) \<and>
    \<not> bit_clear (img s (BBLOCK 84 mkfs_sb)) 84 \<and> bit_clear (img s (BBLOCK 85 mkfs_sb)) 85"
proof -
  let ?a = "[([0x61], [[1]])] :: (u8 list \<times> u8 list list) list"
  have u: "used_blocks (image_files ?a) = 85"
    by (simp add: used_blocks_def image_files_def fblocks_def cost_def layout_vals)
  have h: "length ?a < NINODES - 1" "\<forall>f \<in> set ?a. slash \<notin> set (fst f)" "\<forall>f \<in> set ?a. length (concat (snd f)) \<le> MAXFILE * BSIZE"
    "used_blocks (image_files ?a) < BPB"
    using u by (simp_all add: NINODES_def slash_def layout_vals BPB_def)
  obtain s where s: "mkfs_main ?a mkfs_start = Inr ((), s)"
    and "\<forall>b < FSSIZE. bit_clear (img s (BBLOCK (of_nat b) mkfs_sb)) (b mod BPB) \<longleftrightarrow> 85 \<le> b"
    using mkfs_image_wf [OF h] unfolding u by blast
  from this(2) [rule_format, of 84] this(2) [rule_format, of 85] s show ?thesis
    by (simp add: FSSIZE_def BPB_def BSIZE_def)
qed

text \<open>
  C34. Appending to a file beyond the largest size stops the program at its assertion, whatever part of the data would
  still have fit; it never runs over the end of the inode's block table.
\<close>

theorem iappend_too_large:
  assumes "fs_ok s fs" and "i < length fs" and "fs ! i = (t, data)" and "length data \<le> MAXFILE * BSIZE"
    and "MAXFILE * BSIZE < length data + length p"
    and "unat (freeblock s) + cost MAXFILE \<le> img_end s + cost (fblocks (length data))"
  shows "iappend (ino i) p s = Inl (Fault ''assert'')"
proof -
  note h = file_holdsD [OF fs_okD(5) [OF assms(1,2), unfolded assms(3)]] and io = fs_okD(1) [OF assms(1)]
  have "iappend_loop (length p) p (length data) (dino s (ino i)) s = Inl (Fault ''assert'')"
    by (rule iappend_loop_fault [OF io h(4)]) (use assms(4-6) in \<open>simp_all add: layout_vals\<close>)
  then show ?thesis
    using rinode_run [OF io, of i] fs_okD(2) [OF assms(1)] assms(2) h(3) by (simp add: iappend_def)
qed

theorem iappend_too_large_witness:
  "\<exists>s. fs_ok s [(T_FILE, [])] \<and> iappend (ino 0) (replicate 71681 0) s = Inl (Fault ''assert'')"
proof -
  obtain s0 where 0: "fs_ok s0 []" "img_end s0 = 100000" using mkfs_head_run by blast
  obtain s where s: "fs_ok s [(T_FILE, [])]" "meta_same s0 s" using ialloc_run [OF 0(1), of T_FILE] by auto
  have "iappend (ino 0) (replicate 71681 0) s = Inl (Fault ''assert'')"
    by (rule iappend_too_large [OF s(1), of 0 T_FILE "[]"])
      (use fs_okD(4) [OF s(1)] meta_same_end [OF s(2)] 0(2) in \<open>simp_all add: layout_vals used_blocks_def cost_def\<close>)
  with s(1) show ?thesis by blast
qed
end
