(* ===== verification/Logspace.thy ===== *)
theory Logspace
  imports Log Mkfs
begin

text \<open>
  The space in the log (\<open>log.c\<close>) between two commits: what \<open>begin_op\<close> reserves for an operation against what
  \<open>log_write\<close> accepts, on a log of the size that \<open>mkfs.c\<close> gives it.
\<close>

section \<open>The operations on the log state\<close>

definition log_room :: "logstate \<Rightarrow> bool" where
  "log_room lg \<longleftrightarrow> \<not> lg_committing lg \<and> lh_n (lg_lh lg) + (lg_outstanding lg + 1) * int MAXOPBLOCKS \<le> int LOGSIZE"

definition log_accepts :: "logstate \<Rightarrow> bool" where
  "log_accepts lg \<longleftrightarrow> lh_n (lg_lh lg) < int LOGSIZE \<and> lh_n (lg_lh lg) < lg_size lg - 1 \<and> 1 \<le> lg_outstanding lg"

definition log_entry :: "u32 \<Rightarrow> logstate \<Rightarrow> logstate" where
  "log_entry bno lg =
     (let lh = lg_lh lg;
          i = (case find_index (\<lambda>x. x = bno) (take (nat (lh_n lh)) (lh_block lh)) of Some i \<Rightarrow> i | None \<Rightarrow> nat (lh_n lh))
      in lg\<lparr>lg_lh := lh\<lparr>lh_block := (lh_block lh)[i := bno], lh_n := (if int i = lh_n lh then lh_n lh + 1 else lh_n lh)\<rparr>\<rparr>)"

lemma begin_op_loop_admits:
  assumes "log_room (log s)"
  shows "krun (owns [LLog] th) s begin_op_loop () (owns [] th)
    (upd_log (\<lambda>lg. lg\<lparr>lg_outstanding := lg_outstanding lg + 1\<rparr>) s)"
  unfolding begin_op_loop_def using assms
  by (rule_tac get_owns [OF _ refl], simp) (auto simp: log_room_def upd_log_def intro!: kexec_kseq kmod_self_owns release_head_owns)

lemma begin_op_loop_sleeps:
  assumes "\<not> log_room (log s)" and "p < length (procs (pt s))"
  shows "kexec (owns [LLog] (Some p, b)) s begin_op_loop
    (switches (owns [LPtable] (Some p, b)) (s\<lparr>pt := slept p ChLog (pt s)\<rparr>))"
  unfolding begin_op_loop_def using assms
  by (rule_tac get_owns [OF _ refl], simp) (auto simp: log_room_def intro!: sleep_owns)

lemma log_write_logs:
  assumes "log_accepts (log s)"
  shows "krun (owns [] th) s (log_write b) () (owns [] th)
    (upd_buf b (\<lambda>f. f\<lparr>b_flags := b_flags f OR B_DIRTY\<rparr>) (upd_log (log_entry (b_blockno (bufs s ! b))) s))"
proof -
  have "krun (owns [] th) s (kseq (acquire LLog) (
       kbind (kget (\<lambda>s. b_blockno (bufs s ! b))) (\<lambda>bno.
       kseq (kmod (upd_log (log_entry bno))) (
       kseq (kmod (upd_buf b (\<lambda>f. f\<lparr>b_flags := b_flags f OR B_DIRTY\<rparr>)))
       (release LLog))))) () (owns [] th)
     (upd_buf b (\<lambda>f. f\<lparr>b_flags := b_flags f OR B_DIRTY\<rparr>) (upd_log (log_entry (b_blockno (bufs s ! b))) s))"
    by (rule kexec_kseq, rule acquire_owns, simp, rule get_owns [OF _ refl], simp)
      (auto intro!: kexec_kseq kmod_self_owns release_head_owns simp: upd_log_def upd_buf_def)
  then show ?thesis
    unfolding log_write_def using assms
    by (rule_tac get_owns [OF _ refl], simp) (simp add: log_accepts_def log_entry_def [abs_def])
qed

lemma log_write_full:
  assumes "\<not> lh_n (lg_lh (log s)) < int LOGSIZE \<or> \<not> lh_n (lg_lh (log s)) < lg_size (log s) - 1"
  shows "log_write b s = Inl (Panic ''too big a transaction'')"
  using assms by (auto simp: log_write_def)

lemma end_op_leaves:
  assumes "\<not> lg_committing (log s)" and "1 < lg_outstanding (log s)"
  shows "krun (owns [] th) s end_op () (owns [] th)
    ((upd_log (\<lambda>lg. lg\<lparr>lg_outstanding := lg_outstanding lg - 1\<rparr>) s)\<lparr>pt := woken ChLog (pt s)\<rparr>)"
proof -
  let ?s = "upd_log (\<lambda>lg. lg\<lparr>lg_outstanding := lg_outstanding lg - 1\<rparr>) s"
  have w: "krun (owns [LLog] th) ?s (kseq (wakeup ChLog) (release LLog)) () (owns [] th) (?s\<lparr>pt := woken ChLog (pt s)\<rparr>)"
    using wakeup_owns [of "[LLog]" th ?s ChLog] by (auto intro!: kexec_kseq release_head_owns simp: upd_log_def)
  show ?thesis
    unfolding end_op_def
    by (rule kexec_kseq, rule acquire_owns, simp, rule kexec_kseq, rule kmod_self_owns, simp add: upd_log_def,
        rule get_owns [OF _ refl], simp add: upd_log_def) (use w assms in \<open>simp add: upd_log_def\<close>)
qed

section \<open>Operations between two commits\<close>

text \<open>
  \<open>txn s R\<close>: \<open>s\<close> is reached from a state with an empty log by the calls that file system operations make, in any
  order. \<open>R\<close> has, for each operation that has begun and not ended, the number of blocks it may still
  write out of \<open>MAXOPBLOCKS\<close>. Whatever else the kernel does in between leaves the log as it is. The last
  operation to end commits and is not part of the relation.
\<close>

definition runs_thread :: "lockid list \<Rightarrow> nat \<Rightarrow> bool \<Rightarrow> kstate \<Rightarrow> bool" where
  "runs_thread H p b s \<longleftrightarrow> crit (hw s) H (Some p, b) \<and> p < length (procs (pt s))"

inductive txn :: "kstate \<Rightarrow> nat list \<Rightarrow> bool" where
  txn_start: "lh_n (lg_lh (log s)) = 0 \<Longrightarrow> lg_outstanding (log s) = 0 \<Longrightarrow> \<not> lg_committing (log s) \<Longrightarrow> txn s []"
| txn_begin: "txn s R \<Longrightarrow> runs_thread [] p b s \<Longrightarrow> begin_op s = Inr ((), s') \<Longrightarrow> txn s' (MAXOPBLOCKS # R)"
| txn_resume: "txn s R \<Longrightarrow> runs_thread [LPtable] p b s \<Longrightarrow> begin_op_resume ie p s = Inr ((), s') \<Longrightarrow> txn s' (MAXOPBLOCKS # R)"
| txn_write: "txn s R \<Longrightarrow> runs_thread [] p b s \<Longrightarrow> i < length R \<Longrightarrow> 0 < R ! i \<Longrightarrow> log_write k s = Inr ((), s') \<Longrightarrow>
    txn s' (R[i := R ! i - 1])"
| txn_end: "txn s R \<Longrightarrow> runs_thread [] p b s \<Longrightarrow> 1 < length R \<Longrightarrow> i < length R \<Longrightarrow> end_op s = Inr ((), s') \<Longrightarrow>
    txn s' (take i R @ drop (Suc i) R)"
| txn_other: "txn s R \<Longrightarrow> log s' = log s \<Longrightarrow> txn s' R"

definition log_inv :: "logstate \<Rightarrow> nat list \<Rightarrow> bool" where
  "log_inv lg R \<longleftrightarrow> \<not> lg_committing lg \<and> lg_outstanding lg = int (length R) \<and> 0 \<le> lh_n (lg_lh lg) \<and>
     lh_n (lg_lh lg) + int (sum_list R) \<le> int LOGSIZE \<and> (\<forall>r \<in> set R. r \<le> MAXOPBLOCKS)"

lemma begin_op_loop_log:
  assumes "runs_thread [LLog] p b s" and "begin_op_loop s = Inr ((), s')"
  shows "log_room (log s)" "log s' = (log s)\<lparr>lg_outstanding := lg_outstanding (log s) + 1\<rparr>"
proof -
  have o: "owns [LLog] (Some p, b) s s" and p: "p < length (procs (pt s))"
    using assms(1) by (auto simp: runs_thread_def intro: owns_self)
  show r: "log_room (log s)"
    using kexecD [OF begin_op_loop_sleeps [OF _ p] o] assms(2) by (auto simp: switches_def)
  show "log s' = (log s)\<lparr>lg_outstanding := lg_outstanding (log s) + 1\<rparr>"
    by (rule krunE [OF begin_op_loop_admits [OF r] o]) (use assms(2) in \<open>auto simp: owns_def upd_log_def\<close>)
qed

lemma begin_op_log:
  assumes "runs_thread [] p b s" and "begin_op s = Inr ((), s')"
  shows "log_room (log s) \<and> log s' = (log s)\<lparr>lg_outstanding := lg_outstanding (log s) + 1\<rparr>"
proof -
  have "owns [] (Some p, b) s s" using assms(1) by (auto simp: runs_thread_def intro: owns_self)
  then obtain t where t: "acquire LLog s = Inr ((), t)" "owns [LLog] (Some p, b) s t"
    using krunE [OF acquire_owns [of LLog "[]" "(Some p, b)" s]] by auto
  then have "begin_op_loop t = Inr ((), s')" using assms(2) by (simp add: begin_op_def)
  moreover have "runs_thread [LLog] p b t" "log t = log s"
    using t(2) assms(1) by (auto simp: owns_def runs_thread_def)
  ultimately show ?thesis using begin_op_loop_log by metis
qed

lemma begin_op_resume_log:
  assumes "runs_thread [LPtable] p b s" and "begin_op_resume ie p s = Inr ((), s')"
  shows "log_room (log s) \<and> log s' = (log s)\<lparr>lg_outstanding := lg_outstanding (log s) + 1\<rparr>"
proof -
  have "owns [LPtable] (Some p, b) s s" using assms(1) by (auto simp: runs_thread_def intro: owns_self)
  then obtain t where t: "sleep_resume ie p LLog s = Inr ((), t)"
      "owns [LLog] (Some p, ie) (upd_proc p (\<lambda>r. r\<lparr>p_chan := None\<rparr>) s) t"
    using krunE [OF sleep_resume_owns [of LLog "Some p" b s ie p]] by auto
  then have "begin_op_loop t = Inr ((), s')" using assms(2) by (simp add: begin_op_resume_def)
  moreover have "runs_thread [LLog] p ie t" "log t = log s"
    using t(2) assms(1) by (auto simp: owns_def runs_thread_def upd_proc_def)
  ultimately show ?thesis using begin_op_loop_log by metis
qed

lemma log_entry_facts:
  assumes "0 \<le> lh_n (lg_lh lg)"
  shows "lh_n (lg_lh lg) \<le> lh_n (lg_lh (log_entry k lg)) \<and> lh_n (lg_lh (log_entry k lg)) \<le> lh_n (lg_lh lg) + 1 \<and>
    lg_outstanding (log_entry k lg) = lg_outstanding lg \<and> lg_committing (log_entry k lg) = lg_committing lg \<and>
    lg_size (log_entry k lg) = lg_size lg"
  by (simp add: log_entry_def Let_def)

lemma log_write_log:
  assumes "runs_thread [] p b s" and "log_write k s = Inr ((), s')"
  shows "log_accepts (log s) \<and> log s' = log_entry (b_blockno (bufs s ! k)) (log s)"
proof -
  have o: "owns [] (Some p, b) s s" using assms(1) by (auto simp: runs_thread_def intro: owns_self)
  have a: "log_accepts (log s)" using assms(2) by (auto simp: log_write_def log_accepts_def split: if_splits)
  moreover have "log s' = log_entry (b_blockno (bufs s ! k)) (log s)"
    by (rule krunE [OF log_write_logs [OF a, of _ k] o]) (use assms(2) in \<open>auto simp: owns_def upd_log_def upd_buf_def\<close>)
  ultimately show ?thesis by simp
qed

lemma end_op_log:
  assumes "runs_thread [] p b s" and "end_op s = Inr ((), s')" and "\<not> lg_committing (log s)" and "1 < lg_outstanding (log s)"
  shows "log s' = (log s)\<lparr>lg_outstanding := lg_outstanding (log s) - 1\<rparr>"
proof -
  have o: "owns [] (Some p, b) s s" using assms(1) by (auto simp: runs_thread_def intro: owns_self)
  show ?thesis
    by (rule krunE [OF end_op_leaves [OF assms(3,4)] o]) (use assms(2) in \<open>auto simp: owns_def upd_log_def\<close>)
qed

lemma sum_list_bounded: "\<forall>r \<in> set R. r \<le> m \<Longrightarrow> sum_list R \<le> length R * (m :: nat)"
  by (induction R) auto

lemma log_inv_begin:
  assumes "log_inv lg R" and "log_room lg"
  shows "log_inv (lg\<lparr>lg_outstanding := lg_outstanding lg + 1\<rparr>) (MAXOPBLOCKS # R)"
proof -
  have "sum_list R \<le> length R * MAXOPBLOCKS" by (rule sum_list_bounded) (use assms(1) in \<open>simp add: log_inv_def\<close>)
  then have "int (sum_list R) \<le> int (length R) * int MAXOPBLOCKS" by (metis of_nat_le_iff of_nat_mult)
  then show ?thesis using assms by (simp add: log_inv_def log_room_def distrib_right)
qed

lemma log_inv_write:
  assumes "log_inv lg R" and "i < length R" and "0 < R ! i"
  shows "log_inv (log_entry k lg) (R[i := R ! i - 1])"
proof -
  have "sum_list (R[i := R ! i - 1]) + 1 = sum_list R"
    using sum_list_update [OF assms(2), of "R ! i - 1"] elem_le_sum_list [OF assms(2)] assms(3) by simp
  moreover have "\<forall>r \<in> set (R[i := R ! i - 1]). r \<le> MAXOPBLOCKS"
  proof -
    have "\<forall>r \<in> set R. r \<le> MAXOPBLOCKS" using assms(1) by (simp add: log_inv_def)
    then show ?thesis using nth_mem [OF assms(2)] set_update_subset_insert [of R i "R ! i - 1"] by fastforce
  qed
  moreover note log_entry_facts [of lg k]
  ultimately show ?thesis using assms(1) by (simp add: log_inv_def)
qed

lemma log_inv_end:
  assumes "log_inv lg R" and "i < length R"
  shows "log_inv (lg\<lparr>lg_outstanding := lg_outstanding lg - 1\<rparr>) (take i R @ drop (Suc i) R)"
proof -
  have "sum_list R = sum_list (take i R) + R ! i + sum_list (drop (Suc i) R)"
    by (subst id_take_nth_drop [OF assms(2)]) simp
  then show ?thesis
    using assms by (auto simp: log_inv_def dest: in_set_takeD in_set_dropD)
qed

lemma txn_inv: "txn s R \<Longrightarrow> log_inv (log s) R"
proof (induction rule: txn.induct)
  case (txn_start s)
  then show ?case by (simp add: log_inv_def)
next
  case (txn_begin s R p b s')
  then show ?case using begin_op_log [OF txn_begin.hyps(2,3)] by (auto intro: log_inv_begin)
next
  case (txn_resume s R p b ie s')
  then show ?case using begin_op_resume_log [OF txn_resume.hyps(2,3)] by (auto intro: log_inv_begin)
next
  case (txn_write s R p b i k s')
  then show ?case using log_write_log [OF txn_write.hyps(2,5)] log_inv_write [OF txn_write.IH] by simp
next
  case (txn_end s R p b i s')
  have "1 < lg_outstanding (log s)" "\<not> lg_committing (log s)" using txn_end.IH txn_end.hyps(3) by (simp_all add: log_inv_def)
  then show ?case using end_op_log [OF txn_end.hyps(2,5)] log_inv_end [OF txn_end.IH txn_end.hyps(4)] by simp
qed simp

section \<open>Filling the log\<close>

lemma txn_begin_more:
  assumes "txn s R" and "runs_thread [] p b s" and "log_room (log s)"
  shows "\<exists>s'. txn s' (MAXOPBLOCKS # R) \<and> runs_thread [] p b s' \<and> log s' = (log s)\<lparr>lg_outstanding := lg_outstanding (log s) + 1\<rparr> \<and>
    bufs s' = bufs s"
proof -
  have o: "owns [] (Some p, b) s s" using assms(2) by (auto simp: runs_thread_def intro: owns_self)
  have "krun (owns [] (Some p, b)) s begin_op () (owns [] (Some p, b)) (upd_log (\<lambda>lg. lg\<lparr>lg_outstanding := lg_outstanding lg + 1\<rparr>) s)"
    unfolding begin_op_def by (rule kexec_kseq, rule acquire_owns, simp, rule begin_op_loop_admits [OF assms(3)])
  then obtain s' where s': "begin_op s = Inr ((), s')"
      "owns [] (Some p, b) (upd_log (\<lambda>lg. lg\<lparr>lg_outstanding := lg_outstanding lg + 1\<rparr>) s) s'"
    using o by (rule krunE)
  then show ?thesis
    using txn.txn_begin [OF assms(1,2) s'(1)] assms(2) by (auto simp: owns_def runs_thread_def upd_log_def)
qed

lemma txn_write_more:
  assumes "txn s R" and "runs_thread [] p b s" and "i < length R" and "0 < R ! i" and "log_accepts (log s)"
    and n: "lh_n (lg_lh (log s)) = int k" "k < 2 ^ 32" "k < length (lh_block (lg_lh (log s)))"
    and new: "\<forall>x \<in> set (take k (lh_block (lg_lh (log s)))). unat x < k" and buf: "bufs s \<noteq> []"
  shows "\<exists>s'. txn s' (R[i := R ! i - 1]) \<and> runs_thread [] p b s' \<and> lg_size (log s') = lg_size (log s) \<and> bufs s' \<noteq> [] \<and>
    lg_outstanding (log s') = lg_outstanding (log s) \<and> lh_n (lg_lh (log s')) = int (Suc k) \<and>
    length (lh_block (lg_lh (log s'))) = length (lh_block (lg_lh (log s))) \<and>
    (\<forall>x \<in> set (take (Suc k) (lh_block (lg_lh (log s')))). unat x < Suc k)"
proof -
  define t where "t = s\<lparr>bufs := (bufs s)[0 := (bufs s ! 0)\<lparr>b_blockno := of_nat k\<rparr>]\<rparr>"
  have t: "txn t R" "runs_thread [] p b t" "log t = log s" "b_blockno (bufs t ! 0) = of_nat k" "bufs t \<noteq> []"
    using txn_other [OF assms(1), of t] assms(2) buf by (auto simp: t_def runs_thread_def)
  have o: "owns [] (Some p, b) t t" using t(2) by (auto simp: runs_thread_def intro: owns_self)
  have a: "log_accepts (log t)" using assms(5) t(3) by simp
  obtain s' where s': "log_write 0 t = Inr ((), s')"
      "owns [] (Some p, b) (upd_buf 0 (\<lambda>f. f\<lparr>b_flags := b_flags f OR B_DIRTY\<rparr>) (upd_log (log_entry (b_blockno (bufs t ! 0))) t)) s'"
    using krunE [OF log_write_logs [OF a] o] by blast
  have uk: "unat (of_nat k :: u32) = k" using n(2) by (simp add: unat_of_nat)
  have "find_index (\<lambda>x. x = of_nat k) (take k (lh_block (lg_lh (log s)))) = None"
    using new uk by (auto simp: find_index_None_iff)
  then have e: "log_entry (of_nat k) (log s) = (log s)\<lparr>lg_lh := (lg_lh (log s))\<lparr>lh_block := (lh_block (lg_lh (log s)))[k := of_nat k],
      lh_n := int (Suc k)\<rparr>\<rparr>"
    using n(1) by (simp add: log_entry_def Let_def)
  have "\<forall>x \<in> set (take (Suc k) ((lh_block (lg_lh (log s)))[k := of_nat k])). unat x < Suc k"
    using new n(3) uk by (auto simp: take_Suc_conv_app_nth take_update_cancel less_Suc_eq)
  moreover have "log s' = log_entry (of_nat k) (log s)" "runs_thread [] p b s'" "bufs s' \<noteq> []"
    using s'(2) t(2-5) by (auto simp: owns_def runs_thread_def upd_buf_def upd_log_def)
  ultimately show ?thesis
    using txn_write [OF t(1,2) assms(3,4) s'(1)] e by (intro exI [of _ s']) simp
qed

lemma positive_entry: "0 < sum_list (R :: nat list) \<Longrightarrow> \<exists>i < length R. 0 < R ! i"
  by (metis sum_list_eq_0_iff in_set_conv_nth neq0_conv)

lemma fill_log:
  assumes "txn s R" and "runs_thread [] p b s" and "lg_size (log s) = int nlog" and "bufs s \<noteq> []" and "1 \<le> lg_outstanding (log s)"
    and "lh_n (lg_lh (log s)) = 0" and "length (lh_block (lg_lh (log s))) = LOGSIZE" and "sum_list R = LOGSIZE"
  shows "k < nlog \<Longrightarrow> \<exists>s' R'. txn s' R' \<and> runs_thread [] p b s' \<and> lg_size (log s') = int nlog \<and> bufs s' \<noteq> [] \<and>
    1 \<le> lg_outstanding (log s') \<and> lh_n (lg_lh (log s')) = int k \<and> length (lh_block (lg_lh (log s'))) = LOGSIZE \<and>
    (\<forall>x \<in> set (take k (lh_block (lg_lh (log s')))). unat x < k) \<and> sum_list R' + k = LOGSIZE"
proof (induction k)
  case 0
  then show ?case using assms by auto
next
  case (Suc k)
  then obtain s' R' where IH: "txn s' R'" "runs_thread [] p b s'" "lg_size (log s') = int nlog" "bufs s' \<noteq> []"
      "1 \<le> lg_outstanding (log s')" "lh_n (lg_lh (log s')) = int k" "length (lh_block (lg_lh (log s'))) = LOGSIZE"
      "\<forall>x \<in> set (take k (lh_block (lg_lh (log s')))). unat x < k" "sum_list R' + k = LOGSIZE"
    by auto
  have k: "k < 29" "LOGSIZE = 30" "nlog = 30" using Suc.prems by (simp_all add: nlog_def LOGSIZE_def MAXOPBLOCKS_def)
  have "0 < sum_list R'" using IH(9) k by simp
  then obtain i where i: "i < length R'" "0 < R' ! i" using positive_entry by blast
  have a: "log_accepts (log s')" using IH(3,5,6) k by (simp add: log_accepts_def)
  have "sum_list (R'[i := R' ! i - 1]) + 1 = sum_list R'"
    using sum_list_update [OF i(1), of "R' ! i - 1"] elem_le_sum_list [OF i(1)] i(2) by simp
  moreover have "k < 2 ^ 32" "k < length (lh_block (lg_lh (log s')))" using k IH(7) by simp_all
  note txn_write_more [OF IH(1,2) i a IH(6) this IH(8,4)]
  ultimately show ?case using IH(3,5,7,9) by (metis add_Suc_right add_Suc Suc_eq_plus1)
qed

lemma log_filled: "\<exists>s R i. txn s R \<and> runs_thread [] 0 True s \<and> lg_size (log s) = int nlog \<and> lh_n (lg_lh (log s)) = int nlog - 1 \<and>
    i < length R \<and> 0 < R ! i"
proof -
  let ?lg = "\<lambda>n. \<lparr>lg_start = 2, lg_size = int nlog, lg_outstanding = n, lg_committing = False, lg_dev = 1,
      lg_lh = \<lparr>lh_n = 0, lh_block = replicate LOGSIZE 0\<rparr>\<rparr>"
  define s0 where "s0 = zero_kernel\<lparr>log := ?lg 0\<rparr>"
  have 0: "txn s0 []" "runs_thread [] 0 True s0" "log s0 = ?lg 0" "bufs s0 \<noteq> []"
    using zero_kernel_crit by (auto simp: s0_def runs_thread_def zero_kernel_def NPROC_def NBUF_def intro: txn_start)
  have room: "log_room (?lg n)" if "n < 3" for n using that by (simp add: log_room_def LOGSIZE_def MAXOPBLOCKS_def)
  obtain s1 where 1: "txn s1 [10]" "runs_thread [] 0 True s1" "log s1 = ?lg 1" "bufs s1 \<noteq> []"
    using txn_begin_more [OF 0(1,2)] room [of 0] 0(3,4) by (auto simp: MAXOPBLOCKS_def)
  obtain s2 where 2: "txn s2 [10, 10]" "runs_thread [] 0 True s2" "log s2 = ?lg 2" "bufs s2 \<noteq> []"
    using txn_begin_more [OF 1(1,2)] room [of 1] 1(3,4) by (auto simp: MAXOPBLOCKS_def)
  obtain s3 where 3: "txn s3 [10, 10, 10]" "runs_thread [] 0 True s3" "log s3 = ?lg 3" "bufs s3 \<noteq> []"
    using txn_begin_more [OF 2(1,2)] room [of 2] 2(3,4) by (auto simp: MAXOPBLOCKS_def)
  have v: "nlog = 30" "LOGSIZE = 30" by (simp_all add: nlog_def LOGSIZE_def MAXOPBLOCKS_def)
  obtain s R where s: "txn s R" "runs_thread [] 0 True s" "lg_size (log s) = int nlog" "lh_n (lg_lh (log s)) = 29" "sum_list R = 1"
    using fill_log [OF 3(1,2), of 29] 3(3,4) v by auto
  obtain i where "i < length R" "0 < R ! i" using positive_entry [of R] s(5) by auto
  then show ?thesis using s by (intro exI [of _ s] exI [of _ R] exI [of _ i]) (simp add: v)
qed

section \<open>Properties\<close>

text \<open>
  C36. The reservation of \<open>begin_op\<close> is sound on a log with a block to spare: on a log of more than \<open>LOGSIZE\<close> blocks, in every
  state that operations reach between two commits, an operation that has written fewer than \<open>MAXOPBLOCKS\<close> blocks
  can write the next one; \<open>log_write\<close> returns and does not panic.
\<close>

theorem log_reservation_sound:
  assumes "txn s R" and "runs_thread [] p b s" and "i < length R" and "0 < R ! i" and "int LOGSIZE < lg_size (log s)"
  shows "\<exists>s'. log_write k s = Inr ((), s') \<and> txn s' (R[i := R ! i - 1])"
proof -
  have "sum_list R \<ge> R ! i" by (rule elem_le_sum_list [OF assms(3)])
  then have "log_accepts (log s)"
    using txn_inv [OF assms(1)] assms(3-5) by (auto simp: log_inv_def log_accepts_def)
  moreover have "owns [] (Some p, b) s s" using assms(2) by (auto simp: runs_thread_def intro: owns_self)
  ultimately obtain s' where "log_write k s = Inr ((), s')" using krunE [OF log_write_logs] by blast
  then show ?thesis using txn_write [OF assms(1-4)] by blast
qed

theorem log_reservation_sound_witness:
  "\<exists>s s'. lg_size (log s) = 31 \<and> lg_outstanding (log s) = 1 \<and> log_write 0 s = Inr ((), s') \<and> txn s' [9]"
proof -
  define s0 where "s0 = zero_kernel\<lparr>log := \<lparr>lg_start = 2, lg_size = 31, lg_outstanding = 0, lg_committing = False, lg_dev = 1,
      lg_lh = \<lparr>lh_n = 0, lh_block = replicate LOGSIZE 0\<rparr>\<rparr>\<rparr>"
  have 0: "txn s0 []" "runs_thread [] 0 True s0" "log_room (log s0)" "lg_size (log s0) = 31" "lg_outstanding (log s0) = 0"
    using zero_kernel_crit
    by (auto simp: s0_def runs_thread_def zero_kernel_def NPROC_def log_room_def LOGSIZE_def MAXOPBLOCKS_def intro: txn_start)
  obtain s where s: "txn s [10]" "runs_thread [] 0 True s" "lg_size (log s) = 31" "lg_outstanding (log s) = 1"
    using txn_begin_more [OF 0(1-3)] 0(4,5) by (auto simp: MAXOPBLOCKS_def)
  show ?thesis
    using log_reservation_sound [OF s(1,2), of 0 0] s(3,4) by (auto simp: LOGSIZE_def MAXOPBLOCKS_def)
qed

text \<open>
  C37. On the log that \<open>mkfs\<close> makes the reservation is one block short: three operations that \<open>begin_op\<close> has
  admitted reach a state in which one of them has a block left of its \<open>MAXOPBLOCKS\<close>, and its \<open>log_write\<close> panics.
\<close>

theorem log_reservation_short:
  "\<exists>s R i. txn s R \<and> runs_thread [] 0 True s \<and> lg_size (log s) = int nlog \<and> i < length R \<and> 0 < R ! i \<and>
    (\<forall>k. log_write k s = Inl (Panic ''too big a transaction''))"
  using log_filled log_write_full by fastforce

end
