(* ===== verification/Umalloc.thy ===== *)
theory Umalloc
  imports Paging
begin

text \<open>
  The allocator of user programs, \<open>umalloc.c\<close>: \<open>free\<close>, \<open>morecore\<close> and \<open>malloc\<close> on the memory of a process. The free
  blocks form a circular list in the order of their addresses, through headers inside the blocks. The
  theory shows that the list represents a set of free bytes, to which \<open>free\<close> adds a block and from which
  \<open>malloc\<close> takes one.
\<close>

section \<open>Memory of a process\<close>

text \<open>
  \<open>um_brk\<close> is the size of the process, \<open>um_avail\<close> the number of bytes by which the kernel can still let it grow,
  \<open>um_base\<close> the address of the static header \<open>base\<close>. An access above the last page is a page fault.
\<close>

record ustate =
  um_mem :: memory
  um_brk :: u32
  um_avail :: nat
  um_base :: u32
  um_freep :: u32

type_synonym 'a user = "(ustate, 'a) K"

definition mapped :: "ustate \<Rightarrow> u32 \<Rightarrow> bool" where
  "mapped s a \<longleftrightarrow> unat a + 4 \<le> unat (PGROUNDUP (um_brk s))"

definition ld :: "u32 \<Rightarrow> u32 user" where
  "ld a = kbind (kget (\<lambda>s. mapped s a)) (\<lambda>ok. if ok then kget (\<lambda>s. load32 (um_mem s) a) else kstop (Fault ''page fault''))"

definition st :: "u32 \<Rightarrow> u32 \<Rightarrow> unit user" where
  "st a v = kbind (kget (\<lambda>s. mapped s a)) (\<lambda>ok.
     if ok then kmod (\<lambda>s. s\<lparr>um_mem := store32 a v (um_mem s)\<rparr>) else kstop (Fault ''page fault''))"

text \<open>
  \<open>sbrk\<close> as the program sees it: \<open>growproc\<close> refuses a size of \<open>KERNBASE\<close> or more, and fails when the kernel is out of
  memory; a negative argument gives memory back unless the subtraction wraps around.
\<close>

definition sbrk :: "u32 \<Rightarrow> u32 user" where
  "sbrk n =
     kbind (kget um_brk) (\<lambda>brk.
     kbind (kget um_avail) (\<lambda>avail.
     if 0 < sint n then
       if KERNBASE \<le> brk + n \<or> avail < unat n then kret (- 1)
       else kseq (kmod (\<lambda>s. s\<lparr>um_brk := brk + n, um_avail := avail - unat n\<rparr>)) (kret brk)
     else if sint n < 0 \<and> brk + n < brk then
       if brk + n = 0 then kret (- 1)
       else kseq (kmod (\<lambda>s. s\<lparr>um_brk := brk + n, um_avail := avail + unat (- n)\<rparr>)) (kret brk)
     else kret brk))"

section \<open>The code\<close>

definition hdr_ptr :: "u32 \<Rightarrow> u32 user" where "hdr_ptr p = ld p"
definition hdr_size :: "u32 \<Rightarrow> u32 user" where "hdr_size p = ld (p + 4)"
definition set_ptr :: "u32 \<Rightarrow> u32 \<Rightarrow> unit user" where "set_ptr p v = st p v"
definition set_size :: "u32 \<Rightarrow> u32 \<Rightarrow> unit user" where "set_size p v = st (p + 4) v"

definition set_freep :: "u32 \<Rightarrow> unit user" where
  "set_freep p = kmod (\<lambda>s. s\<lparr>um_freep := p\<rparr>)"

text \<open>
  The search of \<open>free\<close> changes nothing, so once it has taken more steps than there are addresses it has come back
  to the same place and never ends.
\<close>

primrec free_find :: "nat \<Rightarrow> u32 \<Rightarrow> u32 \<Rightarrow> u32 user" where
  "free_find 0 p bp = kstop Spin"
| "free_find (Suc f) p bp =
     kbind (hdr_ptr p) (\<lambda>q.
     if p < bp \<and> bp < q then kret p
     else if q \<le> p \<and> (p < bp \<or> bp < q) then kret p
     else free_find f q bp)"

text \<open>
  Both halves of the end of \<open>free\<close>: the block at \<open>p\<close> absorbs the block at \<open>q\<close> if it ends there, otherwise it is
  linked to it.
\<close>

definition join :: "u32 \<Rightarrow> u32 \<Rightarrow> unit user" where
  "join p q =
     kbind (hdr_size p) (\<lambda>psz.
     if p + 8 * psz = q then
       kbind (hdr_size q) (\<lambda>qsz.
       kseq (set_size p (psz + qsz)) (
       kbind (hdr_ptr q) (\<lambda>r.
       set_ptr p r)))
     else set_ptr p q)"

definition free :: "u32 \<Rightarrow> unit user" where
  "free ap =
     (let bp = ap - 8 in
      kbind (kget um_freep) (\<lambda>fp.
      kbind (kget (\<lambda>s. unat (PGROUNDUP (um_brk s)))) (\<lambda>n.
      kbind (free_find (Suc n) fp bp) (\<lambda>p.
      kbind (hdr_ptr p) (\<lambda>q.
      kseq (join bp q) (
      kseq (join p bp)
      (set_freep p)))))))"

definition morecore :: "u32 \<Rightarrow> u32 user" where
  "morecore nu =
     (let nu = (if nu < 4096 then 4096 else nu) in
      kbind (sbrk (nu * 8)) (\<lambda>p.
      if p = - 1 then kret 0
      else
        kseq (set_size p nu) (
        kseq (free (p + 8))
        (kget um_freep))))"

text \<open>The loop of \<open>malloc\<close>, with at most \<open>f\<close> rounds.\<close>

primrec malloc_loop :: "nat \<Rightarrow> u32 \<Rightarrow> u32 \<Rightarrow> u32 \<Rightarrow> u32 user" where
  "malloc_loop 0 nunits prevp p = kstop Spin"
| "malloc_loop (Suc f) nunits prevp p =
     kbind (hdr_size p) (\<lambda>sz.
     if nunits \<le> sz then
       kbind (if sz = nunits then kbind (hdr_ptr p) (\<lambda>r. kseq (set_ptr prevp r) (kret p))
              else
                kseq (set_size p (sz - nunits)) (
                let q = p + 8 * (sz - nunits) in
                kseq (set_size q nunits)
                (kret q))) (\<lambda>q.
       kseq (set_freep prevp)
       (kret (q + 8)))
     else
       kbind (kget um_freep) (\<lambda>fp.
       if p = fp then
         kbind (morecore nunits) (\<lambda>p.
         if p = 0 then kret 0
         else kbind (hdr_ptr p) (\<lambda>r. malloc_loop f nunits p r))
       else kbind (hdr_ptr p) (\<lambda>r. malloc_loop f nunits p r)))"

definition nunits_of :: "u32 \<Rightarrow> u32" where
  "nunits_of nbytes = (nbytes + 8 - 1) div 8 + 1"

definition malloc :: "nat \<Rightarrow> u32 \<Rightarrow> u32 user" where
  "malloc f nbytes =
     (let nunits = nunits_of nbytes in
      kbind (kget um_freep) (\<lambda>fp.
      kbind (kget um_base) (\<lambda>base.
      kseq (kwhen (fp = 0) (
        kseq (set_ptr base base) (
        kseq (set_freep base)
        (set_size base 0)))) (
      kbind (kget um_freep) (\<lambda>prevp.
      kbind (hdr_ptr prevp) (\<lambda>p.
      malloc_loop f nunits prevp p))))))"

section \<open>Circular order\<close>

text \<open>\<open>b\<close> comes after \<open>a\<close> in the circular order of a finite set of addresses.\<close>

definition is_next :: "u32 set \<Rightarrow> u32 \<Rightarrow> u32 \<Rightarrow> bool" where
  "is_next D a b \<longleftrightarrow> b \<in> D \<and> (a < b \<and> (\<forall>c \<in> D. c \<le> a \<or> b \<le> c) \<or> (\<forall>c \<in> D. c \<le> a \<and> b \<le> c))"

lemma is_next_in: "is_next D a b \<Longrightarrow> b \<in> D"
  by (simp add: is_next_def)

lemma is_next_up: "is_next D a b \<Longrightarrow> a < b \<Longrightarrow> c \<in> D \<Longrightarrow> c \<le> a \<or> b \<le> c"
  by (auto simp: is_next_def)

lemma is_next_wrap:
  assumes "is_next D a b" and "b \<le> a" and "c \<in> D"
  shows "c \<le> a \<and> b \<le> c"
proof -
  have "\<not> a < b" using assms(2) by order
  with assms show ?thesis by (simp add: is_next_def)
qed

lemma is_nextI_up: "b \<in> D \<Longrightarrow> a < b \<Longrightarrow> (\<And>c. c \<in> D \<Longrightarrow> c \<le> a \<or> b \<le> c) \<Longrightarrow> is_next D a b"
  by (simp add: is_next_def)

lemma is_nextI_wrap: "b \<in> D \<Longrightarrow> (\<And>c. c \<in> D \<Longrightarrow> c \<le> a \<and> b \<le> c) \<Longrightarrow> is_next D a b"
  by (simp add: is_next_def)

lemma is_next_unique:
  assumes b: "is_next D a b" and c: "is_next D a c" and a: "a \<in> D"
  shows "b = c"
proof (cases "a < b"; cases "a < c")
  assume "a < b" "a < c"
  with is_next_up [OF b _ is_next_in [OF c]] is_next_up [OF c _ is_next_in [OF b]] show ?thesis by (auto simp: not_less intro: antisym)
next
  assume "a < b" "\<not> a < c"
  with is_next_wrap [OF c _ is_next_in [OF b]] show ?thesis by (meson leD not_less)
next
  assume "\<not> a < b" "a < c"
  with is_next_wrap [OF b _ is_next_in [OF c]] show ?thesis by (meson leD not_less)
next
  assume "\<not> a < b" "\<not> a < c"
  with is_next_wrap [OF b _ is_next_in [OF c]] is_next_wrap [OF c _ is_next_in [OF b]] show ?thesis by (auto intro: antisym)
qed


lemma is_next_remove:
  assumes n: "is_next D p q" "is_next D q r" and p: "p \<in> D" "p < q"
  shows "is_next (D - {q}) p r" and "a \<in> D \<Longrightarrow> a \<noteq> p \<Longrightarrow> is_next D a b \<Longrightarrow> is_next (D - {q}) a b"
proof -
  note up = is_next_up [OF n(1) p(2)]
  have rq: "r \<noteq> q"
  proof
    assume "r = q"
    with is_next_wrap [OF n(2) _ p(1)] p(2) show False by (simp add: not_le [symmetric])
  qed
  show "is_next (D - {q}) p r"
  proof (cases "q < r")
    case True
    show ?thesis
    proof (rule is_nextI_up)
      show "c \<le> p \<or> r \<le> c" if "c \<in> D - {q}" for c
        using that up [of c] is_next_up [OF n(2) True, of c] by auto
    qed (use True p(2) rq is_next_in [OF n(2)] in auto)
  next
    case False
    then have w: "c \<le> q \<and> r \<le> c" if "c \<in> D" for c using is_next_wrap [OF n(2) _ that] by simp
    show ?thesis
    proof (rule is_nextI_wrap)
      show "c \<le> p \<and> r \<le> c" if "c \<in> D - {q}" for c using that up [of c] w [of c] by auto
    qed (use rq is_next_in [OF n(2)] in auto)
  qed
  show "is_next (D - {q}) a b" if a: "a \<in> D" "a \<noteq> p" "is_next D a b"
  proof -
    have "b \<noteq> q"
    proof
      assume b: "b = q"
      show False
      proof (cases "a < q")
        case True
        with up [OF a(1)] have "a \<le> p" by auto
        with a(2) is_next_up [OF a(3) _ p(1)] b True p(2) show False by auto
      next
        case False
        with is_next_wrap [OF a(3) _ p(1)] b p(2) show False by (auto simp: not_less)
      qed
    qed
    then show ?thesis using a(3) by (auto simp: is_next_def)
  qed
qed

text \<open>The addresses on the way from \<open>p\<close> up to and including \<open>e\<close>.\<close>

definition arc :: "u32 set \<Rightarrow> u32 \<Rightarrow> u32 \<Rightarrow> u32 set" where
  "arc D p e = (if p \<le> e then {x \<in> D. p \<le> x \<and> x \<le> e} else {x \<in> D. p \<le> x \<or> x \<le> e})"

lemma arc_subset: "arc D p e \<subseteq> D"
  by (auto simp: arc_def)

lemma arc_ends: "p \<in> D \<Longrightarrow> e \<in> D \<Longrightarrow> p \<in> arc D p e \<and> e \<in> arc D p e"
  by (auto simp: arc_def)

lemma arc_self: "arc D p p = (if p \<in> D then {p} else {})"
  by (auto simp: arc_def intro: antisym)

lemma arc_step:
  assumes n: "is_next D p q" and p: "p \<in> D" and e: "e \<in> D" "p \<noteq> e"
  shows "arc D q e = arc D p e - {p}"
proof (cases "p < q")
  case True
  note up = is_next_up [OF n True]
  have up': "q \<le> c" if "c \<in> D" "p \<le> c" "c \<noteq> p" for c using up [OF that(1)] that by auto
  have "q \<le> e" if "p \<le> e" using up [OF e(1)] that e(2) by auto
  moreover have "e < q" if "\<not> p \<le> e" using that True by auto
  ultimately show ?thesis using True up up' by (auto simp: arc_def not_le)
next
  case False
  then have w: "c \<le> p \<and> q \<le> c" if "c \<in> D" for c using is_next_wrap [OF n _ that] by simp
  then have "\<not> p \<le> e" "q \<le> e" using e by (auto intro: antisym)
  then show ?thesis using w by (auto simp: arc_def intro: antisym)
qed

lemma arc_full: "is_next D e p \<Longrightarrow> e \<in> D \<Longrightarrow> arc D p e = D"
proof (cases "e < p")
  case True
  assume "is_next D e p" "e \<in> D"
  with is_next_up [OF this(1) True] True show ?thesis by (auto simp: arc_def)
next
  case False
  assume n: "is_next D e p" "e \<in> D"
  have "c \<le> e \<and> p \<le> c" if "c \<in> D" for c using is_next_wrap [OF n(1) _ that] False by simp
  with False show ?thesis by (auto simp: arc_def)
qed

section \<open>The free list\<close>

text \<open>
  \<open>D\<close> is the set of the headers of free blocks, \<open>z\<close> their sizes in units of a header. The first one is \<open>base\<close>, which
  has no units. The blocks do not overlap and lie below the break.
\<close>

definition block_end :: "(u32 \<Rightarrow> nat) \<Rightarrow> u32 \<Rightarrow> nat" where
  "block_end z a = unat a + 8 * max 1 (z a)"

definition blocks_ok :: "u32 set \<Rightarrow> (u32 \<Rightarrow> nat) \<Rightarrow> u32 \<Rightarrow> u32 \<Rightarrow> bool" where
  "blocks_ok D z base brk \<longleftrightarrow> finite D \<and> base \<in> D \<and> z base = 0 \<and> base \<noteq> 0 \<and> unat brk mod 4 = 0 \<and> unat brk < unat KERNBASE \<and>
     (\<forall>a \<in> D. base \<le> a \<and> aligned4 a \<and> block_end z a \<le> unat brk \<and> (a \<noteq> base \<longrightarrow> 0 < z a)) \<and>
     (\<forall>a \<in> D. \<forall>b \<in> D. a < b \<longrightarrow> block_end z a \<le> unat b)"

definition links_ok :: "u32 set \<Rightarrow> (u32 \<Rightarrow> nat) \<Rightarrow> memory \<Rightarrow> bool" where
  "links_ok D z m \<longleftrightarrow> (\<forall>a \<in> D. is_next D a (load32 m a) \<and> unat (load32 m (a + 4)) = z a)"

definition heap_ok :: "u32 set \<Rightarrow> (u32 \<Rightarrow> nat) \<Rightarrow> ustate \<Rightarrow> bool" where
  "heap_ok D z s \<longleftrightarrow> blocks_ok D z (um_base s) (um_brk s) \<and> links_ok D z (um_mem s) \<and> um_freep s \<in> D"

definition free_bytes :: "u32 set \<Rightarrow> (u32 \<Rightarrow> nat) \<Rightarrow> nat set" where
  "free_bytes D z = (\<Union>a \<in> D. {unat a..<unat a + 8 * z a})"

lemma blocks_okD:
  assumes "blocks_ok D z base brk"
  shows "finite D" "base \<in> D" "z base = 0" "base \<noteq> 0" "unat brk mod 4 = 0" "unat brk < 2147483648"
    "a \<in> D \<Longrightarrow> base \<le> a" "a \<in> D \<Longrightarrow> aligned4 a" "a \<in> D \<Longrightarrow> block_end z a \<le> unat brk"
    "a \<in> D \<Longrightarrow> a \<noteq> base \<Longrightarrow> 0 < z a" "a \<in> D \<Longrightarrow> b \<in> D \<Longrightarrow> a < b \<Longrightarrow> block_end z a \<le> unat b"
  using assms by (auto simp: blocks_ok_def KERNBASE_def)

lemma heap_okD:
  assumes "heap_ok D z s" and "a \<in> D"
  shows "um_base s \<le> a" "aligned4 a" "is_next D a (load32 (um_mem s) a)" "unat (load32 (um_mem s) (a + 4)) = z a"
    "block_end z a \<le> unat (um_brk s)" "a \<noteq> um_base s \<Longrightarrow> 0 < z a" "b \<in> D \<Longrightarrow> a < b \<Longrightarrow> block_end z a \<le> unat b"
  using assms by (auto simp: heap_ok_def blocks_ok_def links_ok_def)

lemma heap_ok_globals:
  assumes "heap_ok D z s"
  shows "finite D" "um_base s \<in> D" "z (um_base s) = 0" "um_freep s \<in> D" "um_base s \<noteq> 0" "unat (um_brk s) mod 4 = 0"
    "unat (um_brk s) < 2147483648"
  using assms by (auto simp: heap_ok_def blocks_ok_def KERNBASE_def)

lemma block_end_8: "unat a + 8 \<le> block_end z a"
  by (simp add: block_end_def)

lemma brk_round: "unat b < 2147483648 \<Longrightarrow> unat b \<le> unat (PGROUNDUP b)"
  using PGROUNDUP_ge [of b] by (simp add: word_le_nat_alt)

lemma header_mapped:
  assumes "unat a + 8 \<le> unat (um_brk s)" and "unat (um_brk s) < 2147483648"
  shows "mapped s a" and "mapped s (a + 4)" and "unat (a + 4) = unat a + 4"
proof -
  show u: "unat (a + 4) = unat a + 4" using unat_add_of_nat [of a 4] assms by simp
  show "mapped s a" "mapped s (a + 4)" using brk_round [OF assms(2)] assms(1) u by (simp_all add: mapped_def)
qed

lemma header_words:
  assumes "aligned4 a" and "unat a + 8 \<le> 2147483648"
  shows "aligned4 (a + 4)" and "a + 4 \<noteq> a"
proof -
  have "unat (a + 4) = unat a + 4" using unat_add_of_nat [of a 4] assms by simp
  then show "aligned4 (a + 4)" using assms(1) by (simp add: aligned4_def)
  show "a + 4 \<noteq> a" by simp
qed

lemma headers_apart:
  fixes a b :: u32
  assumes "unat a + 8 \<le> unat b" and "unat b + 8 \<le> 2147483648"
  shows "a \<noteq> b" "a + 4 \<noteq> b" "a \<noteq> b + 4" "b \<noteq> a + 4" "b + 4 \<noteq> a" "b \<noteq> a" "a + 4 \<noteq> b + 4"
proof -
  have u: "unat (a + 4) = unat a + 4" "unat (b + 4) = unat b + 4"
    using unat_add_of_nat [of a 4] unat_add_of_nat [of b 4] assms by simp_all
  then have "unat a \<noteq> unat b" "unat (a + 4) \<noteq> unat b" "unat a \<noteq> unat (b + 4)" using assms(1) by simp_all
  then show "a \<noteq> b" "a + 4 \<noteq> b" "a \<noteq> b + 4" "b \<noteq> a + 4" "b + 4 \<noteq> a" "b \<noteq> a" "a + 4 \<noteq> b + 4" by auto
qed

lemma store_words: "aligned4 a \<Longrightarrow> aligned4 b \<Longrightarrow> load32 (store32 b v m) a = (if a = b then v else load32 m a)"
  by (simp add: load32_store32_other)

lemma heap_card: "heap_ok D z s \<Longrightarrow> 8 * card D \<le> unat (um_brk s)"
proof -
  assume h: "heap_ok D z s"
  let ?g = "\<lambda>a. unat a div 8"
  have e: "unat a + 8 \<le> unat (um_brk s)" if "a \<in> D" for a
    using heap_okD(5) [OF h that] block_end_8 [of a z] by simp
  have s: "?g a \<noteq> ?g b" if "a \<in> D" "b \<in> D" "a < b" for a b
  proof -
    have "unat a + 8 \<le> unat b" using heap_okD(7) [OF h that] block_end_8 [of a z] by simp
    then have "(unat a + 8) div 8 \<le> unat b div 8" by (rule div_le_mono)
    then show ?thesis by simp
  qed
  have "inj_on ?g D"
    by (rule inj_onI) (metis linorder_neqE s)
  then have "card D = card (?g ` D)" by (simp add: card_image)
  also have "\<dots> \<le> card {..<unat (um_brk s) div 8}"
  proof (rule card_mono)
    have "(unat a + 8) div 8 \<le> unat (um_brk s) div 8" if "a \<in> D" for a using e [OF that] by (rule div_le_mono)
    then show "?g ` D \<subseteq> {..<unat (um_brk s) div 8}" by (fastforce simp: Suc_le_eq)
  qed simp
  finally show ?thesis by simp
qed




lemma ld_run [simp]: "mapped s a \<Longrightarrow> ld a s = Inr (load32 (um_mem s) a, s)"
  by (simp add: ld_def)

lemma st_run [simp]: "mapped s a \<Longrightarrow> st a v s = Inr ((), s\<lparr>um_mem := store32 a v (um_mem s)\<rparr>)"
  by (simp add: st_def)

lemma mapped_mem [simp]: "mapped (s\<lparr>um_mem := m\<rparr>) a = mapped s a" "mapped (s\<lparr>um_freep := p\<rparr>) a = mapped s a"
  by (simp_all add: mapped_def)

lemma heap_mapped: "heap_ok D z s \<Longrightarrow> a \<in> D \<Longrightarrow> mapped s a \<and> mapped s (a + 4)"
  using header_mapped [of a s] heap_okD(5) [of D z s a] block_end_8 [of a z] heap_ok_globals(7) [of D z s] by simp


section \<open>Sets of blocks\<close>



section \<open>free\<close>

text \<open>A block that is in use: above \<open>base\<close>, with its size in the header, and not overlapping the free blocks.\<close>

definition used_block :: "u32 set \<Rightarrow> (u32 \<Rightarrow> nat) \<Rightarrow> ustate \<Rightarrow> u32 \<Rightarrow> nat \<Rightarrow> bool" where
  "used_block D z s x n \<longleftrightarrow> um_base s < x \<and> aligned4 x \<and> 0 < n \<and> unat x + 8 * n \<le> unat (um_brk s) \<and>
     unat (load32 (um_mem s) (x + 4)) = n \<and> (\<forall>a \<in> D. block_end z a \<le> unat x \<or> unat x + 8 * n \<le> unat a)"

text \<open>Headers at different addresses share no word.\<close>

lemma headers_sep:
  assumes b: "blocks_ok D z base brk" and "a \<in> D" "c \<in> D" "a \<noteq> c"
  shows "a + 4 \<noteq> c" "a \<noteq> c + 4" "aligned4 a" "aligned4 (a + 4)" "a + 4 \<noteq> a"
proof -
  note d = blocks_okD [OF b]
  have e: "unat x + 8 \<le> 2147483648" if "x \<in> D" for x
    using d(6) d(9) [OF that] block_end_8 [of x z] by simp
  have "unat x + 8 \<le> unat y" if "x \<in> D" "y \<in> D" "x < y" for x y
    using d(11) [OF that] block_end_8 [of x z] by simp
  then have "unat a + 8 \<le> unat c \<or> unat c + 8 \<le> unat a" using assms(2-4) by (metis linorder_neqE)
  then show "a + 4 \<noteq> c" "a \<noteq> c + 4" using headers_apart [of a c] headers_apart [of c a] e assms(2,3) by auto
  show "aligned4 a" "aligned4 (a + 4)" "a + 4 \<noteq> a" using d(8) header_words [of a] e assms(2) by auto
qed

text \<open>Stores into headers leave the bytes elsewhere alone.\<close>

lemma store32_other:
  assumes "unat a + 4 \<le> 2 ^ 32" and "unat x \<notin> {unat a..<unat a + 4}"
  shows "store32 a v m x = m x"
proof -
  have "unat (a + of_nat i) = unat a + i" if "i < 4" for i using unat_add_of_nat [of a i] assms(1) that by simp
  from this [of 0] this [of 1] this [of 2] this [of 3]
  have "x \<noteq> a" "x \<noteq> a + 1" "x \<noteq> a + 2" "x \<noteq> a + 3" using assms(2) by auto
  then show ?thesis by (simp add: store32_def)
qed

lemma unat_units: "unat p + 8 * unat k < 2 ^ 32 \<Longrightarrow> unat (p + 8 * k :: u32) = unat p + 8 * unat k"
  by (simp add: unat_word_ariths)










section \<open>malloc\<close>

lemma block_end_units: "unat a + 8 * z a \<le> block_end z a"
  by (simp add: block_end_def)


lemma blocks_remove:
  assumes b: "blocks_ok D z base brk" and p: "p \<in> D" "p \<noteq> base"
  shows "blocks_ok (D - {p}) z base brk" and "free_bytes D z = free_bytes (D - {p}) z \<union> {unat p..<unat p + 8 * z p}"
    and "\<forall>a \<in> D - {p}. block_end z a \<le> unat p \<or> unat p + 8 * z p \<le> unat a"
proof -
  note d = blocks_okD [OF b]
  show "blocks_ok (D - {p}) z base brk" using b p by (auto simp: blocks_ok_def)
  show "free_bytes D z = free_bytes (D - {p}) z \<union> {unat p..<unat p + 8 * z p}" using p by (auto simp: free_bytes_def)
  show "\<forall>a \<in> D - {p}. block_end z a \<le> unat p \<or> unat p + 8 * z p \<le> unat a"
  proof
    fix a assume a: "a \<in> D - {p}"
    then consider "a < p" | "p < a" by (metis DiffE insertCI linorder_neqE)
    then show "block_end z a \<le> unat p \<or> unat p + 8 * z p \<le> unat a"
    proof cases
      case 1 then show ?thesis using d(11) a p by simp
    next
      case 2
      then have "block_end z p \<le> unat a" using d(11) a p by simp
      then show ?thesis using block_end_units [of p z] by linarith
    qed
  qed
qed

lemma blocks_shrink:
  assumes b: "blocks_ok D z base brk" and p: "p \<in> D" and n: "0 < n" "n < z p" and x: "unat x = unat p + 8 * (z p - n)"
  shows "blocks_ok D (z(p := z p - n)) base brk"
    and "free_bytes D z = free_bytes D (z(p := z p - n)) \<union> {unat x..<unat x + 8 * n}"
    and "\<forall>a \<in> D. block_end (z(p := z p - n)) a \<le> unat x \<or> unat x + 8 * n \<le> unat a"
    and "unat x + 8 * n \<le> unat brk" and "base < x"
proof -
  note d = blocks_okD [OF b]
  have pb: "p \<noteq> base" using d(3) n by auto
  have e: "block_end (z(p := z p - n)) a = (if a = p then unat p + 8 * (z p - n) else block_end z a)" for a
    using n by (auto simp: block_end_def max_def)
  have ep: "block_end z p = unat x + 8 * n" using n x by (simp add: block_end_def max_def)
  have le: "block_end (z(p := z p - n)) a \<le> block_end z a" for a using ep x by (simp add: e)
  show "blocks_ok D (z(p := z p - n)) base brk"
    unfolding blocks_ok_def
  proof (intro conjI ballI impI)
    fix a c assume "a \<in> D" "c \<in> D" "a < c"
    then show "block_end (z(p := z p - n)) a \<le> unat c" using d(11) le [of a] by (meson order.trans)
  next
    fix a assume "a \<in> D"
    then show "block_end (z(p := z p - n)) a \<le> unat brk" using d(9) le [of a] by (meson order.trans)
  qed (use d pb n in \<open>auto simp: KERNBASE_def\<close>)
  have "{unat p..<unat p + 8 * z p} = {unat p..<unat p + 8 * (z p - n)} \<union> {unat x..<unat x + 8 * n}"
    using x n by auto
  moreover have "free_bytes D z' = free_bytes (D - {p}) z' \<union> {unat p..<unat p + 8 * z' p}" for z'
    using p by (auto simp: free_bytes_def)
  moreover have "free_bytes (D - {p}) (z(p := z p - n)) = free_bytes (D - {p}) z"
    unfolding free_bytes_def by (rule SUP_cong) auto
  ultimately show "free_bytes D z = free_bytes D (z(p := z p - n)) \<union> {unat x..<unat x + 8 * n}" by auto
  show "\<forall>a \<in> D. block_end (z(p := z p - n)) a \<le> unat x \<or> unat x + 8 * n \<le> unat a"
  proof
    fix a assume a: "a \<in> D"
    show "block_end (z(p := z p - n)) a \<le> unat x \<or> unat x + 8 * n \<le> unat a"
    proof (cases "a = p")
      case False
      have "unat x + 8 * n = unat p + 8 * z p" "unat p \<le> unat x" using x n by simp_all
      moreover have "block_end z a \<le> unat p \<or> unat p + 8 * z p \<le> unat a" using blocks_remove(3) [OF b p pb] a False by blast
      ultimately show ?thesis using False by (simp add: e) linarith
    qed (simp add: e x)
  qed
  show "unat x + 8 * n \<le> unat brk" using d(9) [OF p] ep by simp
  have "unat base \<le> unat p" using d(7) [OF p] by (simp add: word_le_nat_alt)
  then show "base < x" using x n by (simp add: word_less_nat_alt)
qed

text \<open>What a successful \<open>malloc\<close> of \<open>n\<close> units leaves behind.\<close>

definition took :: "u32 set \<Rightarrow> (u32 \<Rightarrow> nat) \<Rightarrow> ustate \<Rightarrow> nat \<Rightarrow> u32 \<Rightarrow> ustate \<Rightarrow> bool" where
  "took D z s n x t \<longleftrightarrow> (\<exists>D' z'. heap_ok D' z' t \<and> used_block D' z' t x n \<and>
     free_bytes D z = free_bytes D' z' \<union> {unat x..<unat x + 8 * n}) \<and>
     um_base t = um_base s \<and> um_brk t = um_brk s \<and> um_avail t = um_avail s \<and>
     (\<forall>y. unat y \<notin> free_bytes D z \<and> unat y \<notin> {unat (um_base s)..<unat (um_base s) + 8} \<longrightarrow> um_mem t y = um_mem s y)"

lemma hdr_run:
  assumes "heap_ok D z s" and "a \<in> D"
  shows "hdr_ptr a s = Inr (load32 (um_mem s) a, s)" "hdr_size a s = Inr (load32 (um_mem s) (a + 4), s)"
    "set_ptr a v s = Inr ((), s\<lparr>um_mem := store32 a v (um_mem s)\<rparr>)"
    "set_size a v s = Inr ((), s\<lparr>um_mem := store32 (a + 4) v (um_mem s)\<rparr>)"
  using heap_mapped [OF assms] by (simp_all add: hdr_ptr_def hdr_size_def set_ptr_def set_size_def)

lemma prev_below:
  assumes h: "heap_ok D z s" and v: "v \<in> D" "is_next D v p" "p \<noteq> um_base s"
  shows "v < p"
proof (rule ccontr)
  assume "\<not> v < p"
  then have "p \<le> um_base s" using is_next_wrap [OF v(2) _ heap_ok_globals(2) [OF h]] by simp
  with heap_okD(1) [OF h is_next_in [OF v(2)]] v(3) show False by (auto intro: antisym)
qed

lemma malloc_exact:
  assumes h: "heap_ok D z s" and v: "v \<in> D" "is_next D v p" and n: "z p = unat k" "0 < unat k"
  shows "\<exists>t. malloc_loop (Suc f) k v p s = Inr (p + 8, t) \<and> took D z s (unat k) p t"
proof -
  let ?m = "um_mem s" and ?r = "load32 (um_mem s) p"
  have p: "p \<in> D" "p \<noteq> um_base s" using is_next_in [OF v(2)] heap_ok_globals(3) [OF h] n by auto
  have b: "blocks_ok D z (um_base s) (um_brk s)" using h by (simp add: heap_ok_def)
  have vp: "v < p" by (rule prev_below [OF h v p(2)])
  then have ne: "v \<noteq> p" by auto
  have sz: "load32 ?m (p + 4) = k" using heap_okD(4) [OF h p(1)] n(1) by (simp add: word_unat_eq_iff)
  let ?m' = "store32 v ?r ?m"
  let ?t = "s\<lparr>um_mem := ?m', um_freep := v\<rparr>"
  have run: "malloc_loop (Suc f) k v p s = Inr (p + 8, ?t)"
    using hdr_run [OF h p(1)] hdr_run [OF h v(1)] sz by (simp add: set_freep_def)
  have sep: "aligned4 v" "\<And>a. a \<in> D \<Longrightarrow> a \<noteq> v \<Longrightarrow> aligned4 a \<and> aligned4 (a + 4) \<and> a + 4 \<noteq> v" "aligned4 (v + 4)" "v + 4 \<noteq> v"
    using headers_sep [OF b v(1) p(1) ne] headers_sep [OF b _ v(1)] by auto
  note rm = is_next_remove [OF v(2) heap_okD(3) [OF h p(1)] v(1) vp]
  have l: "links_ok (D - {p}) z ?m'"
    unfolding links_ok_def
  proof (intro ballI conjI)
    fix a assume a: "a \<in> D - {p}"
    show "is_next (D - {p}) a (load32 ?m' a)"
      using rm(1) rm(2) [of a] heap_okD(3) [OF h, of a] a sep by (cases "a = v") (auto simp: store_words)
    show "unat (load32 ?m' (a + 4)) = z a"
      using heap_okD(4) [OF h, of a] a sep by (cases "a = v") (auto simp: store_words)
  qed
  note br = blocks_remove [OF b p]
  have "heap_ok (D - {p}) z ?t" using br(1) l v(1) ne by (simp add: heap_ok_def)
  moreover have "used_block (D - {p}) z ?t p (unat k)"
    using br(3) heap_okD [OF h p(1)] n p(2) sz sep(2) [OF p(1)] ne sep(1)
    by (auto simp: used_block_def block_end_def store_words)
  moreover have "um_mem ?t y = ?m y" if "unat y \<notin> free_bytes D z" "unat y \<notin> {unat (um_base s)..<unat (um_base s) + 8}" for y
  proof -
    have "unat y \<notin> {unat v..<unat v + 8}"
    proof (cases "v = um_base s")
      case False
      then have "1 \<le> z v" using heap_okD(6) [OF h v(1)] by simp
      then have "{unat v..<unat v + 8} \<subseteq> free_bytes D z" using v(1) by (auto simp: free_bytes_def)
      with that(1) show ?thesis by auto
    qed (use that(2) in simp)
    moreover have "unat v + 4 \<le> 2 ^ 32" using unat_lt32 [of v] heap_okD(5) [OF h v(1)] block_end_8 [of v z] heap_ok_globals(7) [OF h]
      by simp
    ultimately show ?thesis using store32_other [of v y] by auto
  qed
  ultimately show ?thesis using run br(2) n(1) unfolding took_def by (intro exI [of _ ?t]) (auto intro!: exI [of _ "D - {p}"] exI [of _ z])
qed

lemma malloc_split:
  assumes h: "heap_ok D z s" and v: "v \<in> D" and p: "p \<in> D" and n: "unat k < z p" "0 < unat k"
  shows "\<exists>x t. malloc_loop (Suc f) k v p s = Inr (x + 8, t) \<and> took D z s (unat k) x t"
proof -
  let ?m = "um_mem s" and ?n = "unat k"
  define sz where "sz = load32 ?m (p + 4)"
  define x where "x = p + 8 * (sz - k)"
  have b: "blocks_ok D z (um_base s) (um_brk s)" and l: "links_ok D z ?m" using h by (simp_all add: heap_ok_def)
  note d = blocks_okD [OF b]
  have z: "unat sz = z p" using heap_okD(4) [OF h p] by (simp add: sz_def)
  have k: "k < sz" "k \<le> sz" using z n by (simp_all add: word_less_nat_alt word_le_nat_alt)
  then have zk: "unat (sz - k) = z p - ?n" using z by (simp add: unat_sub)
  have x: "unat x = unat p + 8 * (z p - ?n)"
    unfolding x_def using unat_units [of p "sz - k"] zk d(6) d(9) [OF p] block_end_units [of p z] by simp
  note bs = blocks_shrink [OF b p n(2,1) x]
  have xe: "unat x + 8 \<le> unat (um_brk s)" using bs(4) n(2) by simp
  have px: "unat p + 8 \<le> unat x" using x n by simp
  have mx: "mapped s (x + 4)" "unat (x + 4) = unat x + 4" using header_mapped [OF xe d(6)] by simp_all
  let ?m' = "store32 (x + 4) k (store32 (p + 4) (sz - k) ?m)"
  let ?t = "s\<lparr>um_mem := ?m', um_freep := v\<rparr>" and ?z = "z(p := z p - ?n)"
  have run: "malloc_loop (Suc f) k v p s = Inr (x + 8, ?t)"
  proof -
    have "load32 ?m (p + 4) \<noteq> k" "k \<le> load32 ?m (p + 4)" using k by (auto simp: sz_def)
    with hdr_run [OF h p] mx(1) show ?thesis by (simp add: set_freep_def set_size_def Let_def x_def sz_def)
  qed
  have ax: "aligned4 (x + 4)" "aligned4 x"
    using d(8) [OF p] x mx(2) by (simp_all add: aligned4_def) presburger+
  have far: "a \<noteq> x + 4 \<and> a + 4 \<noteq> x + 4" if "a \<in> D" for a
  proof -
    have "unat a + 8 \<le> unat x \<or> unat x + 8 \<le> unat a"
      using bs(3) that block_end_8 [of a ?z] n(2) by fastforce
    moreover have "unat a + 8 \<le> 2147483648" "unat x + 8 \<le> 2147483648"
      using d(6) d(9) [OF that] block_end_8 [of a z] xe by simp_all
    ultimately show ?thesis using headers_apart [of a x] headers_apart [of x a] by auto
  qed
  have sep: "aligned4 a \<and> aligned4 (a + 4) \<and> a \<noteq> p + 4" if "a \<in> D" for a
    using headers_sep [OF b that p] headers_sep [OF b p that] header_words [of a] d(8) [OF that] d(6) d(9) [OF that] block_end_8 [of a z]
    by (cases "a = p") auto
  have "links_ok D ?z ?m'"
    unfolding links_ok_def
  proof (intro ballI conjI)
    fix a assume a: "a \<in> D"
    show "is_next D a (load32 ?m' a)" using heap_okD(3) [OF h a] a far sep sep [OF p] ax by (simp add: store_words)
    show "unat (load32 ?m' (a + 4)) = ?z a"
      using heap_okD(4) [OF h a] a far sep [OF a] sep [OF p] ax zk by (auto simp: store_words)
  qed
  then have hp: "heap_ok D ?z ?t" using bs(1) v by (simp add: heap_ok_def)
  have ub: "used_block D ?z ?t x ?n"
    unfolding used_block_def using bs(3-5) ax n by simp
  have "um_mem ?t y = ?m y" if "unat y \<notin> free_bytes D z" for y
  proof -
    have "{unat p..<unat p + 8 * z p} \<subseteq> free_bytes D z" using p by (auto simp: free_bytes_def)
    moreover have "{unat p + 4..<unat p + 8} \<subseteq> {unat p..<unat p + 8 * z p}" "{unat x + 4..<unat x + 8} \<subseteq> {unat p..<unat p + 8 * z p}"
      using x n by auto
    ultimately have y: "unat y \<notin> {unat p + 4..<unat p + 8}" "unat y \<notin> {unat x + 4..<unat x + 8}" using that by blast+
    have "unat (p + 4) = unat p + 4" using unat_add_of_nat [of p 4] px xe d(6) by simp
    then show ?thesis using y store32_other [of "p + 4" y] store32_other [of "x + 4" y] mx(2) xe px d(6) by (simp add: add.commute)
  qed
  with run hp ub bs(2) show ?thesis unfolding took_def by (intro exI [of _ x] exI [of _ ?t]) (auto intro!: exI [of _ D] exI [of _ ?z])
qed

lemma malloc_take:
  assumes "heap_ok D z s" and "v \<in> D" "is_next D v p" and "unat k \<le> z p" "0 < unat k"
  shows "\<exists>x t. malloc_loop (Suc f) k v p s = Inr (x + 8, t) \<and> took D z s (unat k) x t"
  using malloc_exact [OF assms(1-3), of k f] malloc_split [OF assms(1,2) is_next_in [OF assms(3)], of k f] assms(4,5)
  by (cases "unat k = z p") auto

text \<open>The walk along the list up to a block that is large enough.\<close>

lemma malloc_scan:
  assumes h: "heap_ok D z s" and k: "0 < unat k"
  shows "v \<in> D \<Longrightarrow> is_next D v p \<Longrightarrow> \<exists>a \<in> arc D p (um_freep s). unat k \<le> z a \<Longrightarrow> card (arc D p (um_freep s)) \<le> f \<Longrightarrow>
    \<exists>x t. malloc_loop f k v p s = Inr (x + 8, t) \<and> took D z s (unat k) x t"
proof (induction f arbitrary: v p)
  case 0
  have "finite (arc D p (um_freep s))" using heap_ok_globals(1) [OF h] arc_subset by (rule finite_subset [rotated])
  with 0 show ?case by auto
next
  case (Suc f)
  let ?e = "um_freep s" and ?q = "load32 (um_mem s) p"
  have p: "p \<in> D" by (rule is_next_in [OF Suc.prems(2)])
  note g = heap_ok_globals [OF h]
  show ?case
  proof (cases "unat k \<le> z p")
    case True
    then show ?thesis by (rule malloc_take [OF h Suc.prems(1,2) _ k])
  next
    case False
    have sz: "\<not> k \<le> load32 (um_mem s) (p + 4)" using heap_okD(4) [OF h p] False by (simp add: word_le_nat_alt)
    have ne: "p \<noteq> ?e" using Suc.prems(3) False g(4) by (auto simp: arc_self)
    have n: "is_next D p ?q" by (rule heap_okD [OF h p])
    have st: "arc D ?q ?e = arc D p ?e - {p}" by (rule arc_step [OF n p g(4) ne])
    have fin: "finite (arc D p ?e)" using g(1) arc_subset by (rule finite_subset [rotated])
    have "\<exists>x t. malloc_loop f k p ?q s = Inr (x + 8, t) \<and> took D z s (unat k) x t"
    proof (rule Suc.IH [OF p n])
      show "\<exists>a \<in> arc D ?q ?e. unat k \<le> z a" using Suc.prems(3) False unfolding st by auto
      show "card (arc D ?q ?e) \<le> f" using Suc.prems(4) arc_ends [OF p g(4)] fin unfolding st by simp
    qed
    then show ?thesis using hdr_run [OF h p] sz ne by simp
  qed
qed


section \<open>More memory\<close>





section \<open>The allocator as a set of free bytes\<close>


lemma malloc_start:
  assumes h: "heap_ok D z s"
  shows "malloc f nbytes s = malloc_loop f (nunits_of nbytes) (um_freep s) (load32 (um_mem s) (um_freep s)) s"
    and "is_next D (um_freep s) (load32 (um_mem s) (um_freep s))"
    and "arc D (load32 (um_mem s) (um_freep s)) (um_freep s) = D"
proof -
  note g = heap_ok_globals [OF h]
  have "um_freep s \<noteq> 0" using heap_okD(1) [OF h g(4)] g(5) by auto
  then show "malloc f nbytes s = malloc_loop f (nunits_of nbytes) (um_freep s) (load32 (um_mem s) (um_freep s)) s"
    using hdr_run [OF h g(4)] by (simp add: malloc_def Let_def)
  show n: "is_next D (um_freep s) (load32 (um_mem s) (um_freep s))" by (rule heap_okD [OF h g(4)])
  show "arc D (load32 (um_mem s) (um_freep s)) (um_freep s) = D" by (rule arc_full [OF n g(4)])
qed

lemma malloc_hit:
  assumes h: "heap_ok D z s" and a: "a \<in> D" "unat (nunits_of nbytes) \<le> z a" and k: "0 < unat (nunits_of nbytes)"
    and f: "unat (um_brk s) \<le> f"
  shows "\<exists>x t. malloc f nbytes s = Inr (x + 8, t) \<and> took D z s (unat (nunits_of nbytes)) x t"
proof -
  note st = malloc_start [OF h]
  have "card D \<le> f" using heap_card [OF h] f by simp
  with malloc_scan [OF h k heap_ok_globals(4) [OF h] st(2), of f] a show ?thesis unfolding st(1,3) by auto
qed


text \<open>A heap whose only free block has 1024 units, and the same memory with that block in use.\<close>

definition heap_mem :: "u32 \<Rightarrow> memory" where
  "heap_mem r = store32 0x2004 1024 (store32 0x2000 0x1000 (store32 0x1000 r (\<lambda>_. 0)))"

definition heap1 :: "u32 \<Rightarrow> ustate" where
  "heap1 r = \<lparr>um_mem = heap_mem r, um_brk = 0x4000, um_avail = 0, um_base = 0x1000, um_freep = 0x1000\<rparr>"

definition size1 :: "u32 \<Rightarrow> nat" where
  "size1 a = (if a = 0x2000 then 1024 else 0)"

lemma heap_mem_words: "load32 (heap_mem r) 0x1000 = r" "load32 (heap_mem r) 0x1004 = 0" "load32 (heap_mem r) 0x2000 = 0x1000"
  "load32 (heap_mem r) 0x2004 = 1024"
proof -
  have "load32 (\<lambda>_. 0) a = 0" for a by (simp add: load32_def word32_def)
  then show "load32 (heap_mem r) 0x1000 = r" "load32 (heap_mem r) 0x1004 = 0" "load32 (heap_mem r) 0x2000 = 0x1000"
    "load32 (heap_mem r) 0x2004 = 1024"
    by (simp_all add: heap_mem_def store_words aligned4_def)
qed

lemma heap1_ok: "heap_ok {0x1000, 0x2000} size1 (heap1 0x2000)" "heap_ok {0x1000} size1 (heap1 0x1000)"
  "used_block {0x1000} size1 (heap1 0x1000) 0x2000 1024"
  by (simp_all add: heap_ok_def blocks_ok_def links_ok_def used_block_def block_end_def size1_def heap1_def heap_mem_words
      is_next_def aligned4_def KERNBASE_def)





text \<open>
  C31. A size near the end of the range: the computation of the number of units wraps around for the last seven
  values of \<open>nbytes\<close>, and \<open>malloc\<close> returns a block that consists of its header only.
\<close>

theorem malloc_wraps:
  assumes h: "heap_ok D z s" and nb: "2 ^ 32 - 7 \<le> unat nbytes" and a: "a \<in> D" "a \<noteq> um_base s" and f: "unat (um_brk s) \<le> f"
  shows "\<exists>x t D' z'. malloc f nbytes s = Inr (x + 8, t) \<and> heap_ok D' z' t \<and> used_block D' z' t x 1"
proof -
  have "unat (nbytes + 8 - 1) < 8"
  proof -
    have "unat (nbytes + 7) = (unat nbytes + 7) mod 2 ^ 32" by (simp add: unat_word_ariths)
    also have "\<dots> = unat nbytes + 7 - 2 ^ 32" using nb unat_lt32 [of nbytes] by (subst mod_if, subst mod_if) simp
    finally show ?thesis using unat_lt32 [of nbytes] by (simp add: add.commute)
  qed
  then have "unat ((nbytes + 8 - 1) div 8) = 0" by (simp add: unat_div)
  then have "(nbytes + 8 - 1) div 8 = 0" by (simp only: unsigned_eq_0_iff)
  then have k: "nunits_of nbytes = 1" by (simp add: nunits_of_def)
  have "1 \<le> z a" using heap_okD(6) [OF h a] by simp
  then obtain x t where "malloc f nbytes s = Inr (x + 8, t)" "took D z s 1 x t"
    using malloc_hit [OF h a(1) _ _ f, of nbytes] k by auto
  then show ?thesis by (auto simp: took_def)
qed

theorem malloc_wraps_witness:
  "\<exists>x t D' z'. malloc 0x4000 0xFFFFFFFF (heap1 0x2000) = Inr (x + 8, t) \<and> heap_ok D' z' t \<and> used_block D' z' t x 1"
  by (rule malloc_wraps [OF heap1_ok(1), of _ "0x2000"]) (simp_all add: heap1_def)

end
