(* ===== verification/Recovery.thy ===== *)
theory Recovery
  imports Log
begin

text \<open>
  What a commit of \<open>log.c\<close> writes, in order, and what \<open>recover_from_log\<close> makes of the disk. The main
  result is crash safety: if the power fails after any number of the writes of a commit, recovery at
  the next boot leaves either all blocks as they were before the transaction or all as they are after it.
\<close>

section \<open>The writes of a commit\<close>

definition log_writes :: "logstate \<Rightarrow> bstate \<Rightarrow> (blkid \<times> block) list" where
  "log_writes lg B = map (\<lambda>j. (slot_key lg j, the (bs_pin B (home_key lg j)))) [0..<log_n lg]"

definition install_writes :: "logstate \<Rightarrow> (blkid \<Rightarrow> block) \<Rightarrow> (blkid \<times> block) list" where
  "install_writes lg d = map (\<lambda>j. (home_key lg j, d (slot_key lg j))) [0..<log_n lg]"

definition bs_unpins :: "blkid set \<Rightarrow> bstate \<Rightarrow> bstate" where
  "bs_unpins K B = B\<lparr>bs_pin := bs_pin B |` (- K)\<rparr>"

lemma bs_unpins_simps [simp]:
  "bs_disk (bs_unpins K B) = bs_disk B" "bs_held (bs_unpins K B) = bs_held B"
  "bs_trace (bs_unpins K B) = bs_trace B" "bs_pin (bs_unpins K B) = bs_pin B |` (- K)" "bs_unpins {} B = B"
  by (simp_all add: bs_unpins_def restrict_map_def)

lemma bs_unpins_insert: "bs_unpin k (bs_put k' x (bs_unpins K B)) = bs_unpins (insert k K) (bs_put k' x B)"
  by (rule bstate.equality) (auto simp: bs_unpin_def bs_unpins_def bs_put_def restrict_map_def)

text \<open>
  The cache when a transaction is about to commit: nobody holds a buffer, and the buffers pinned in the
  cache are exactly those that the log header names.
\<close>

definition log_ready :: "bstate \<Rightarrow> logstate \<Rightarrow> bool" where
  "log_ready B lg \<longleftrightarrow> log_wf lg \<and> bs_held B = (\<lambda>_. None) \<and> dom (bs_pin B) = home_key lg ` {..<log_n lg} \<and> log_n lg < NBUF"

lemma log_wfD: "log_wf lg \<Longrightarrow> log_place lg" "log_wf lg \<Longrightarrow> lh_ok (lg_lh lg)"
  by (simp_all add: log_wf_def)

lemma home_slot_ne:
  assumes "log_wf lg" and "j < log_n lg" and "k < LOGSIZE"
  shows "home_key lg j \<noteq> slot_key lg k" "home_key lg j \<noteq> log_key lg"
  using home_props(2) [OF assms(1,2)] slot_props(2,5) [OF log_wfD(1) [OF assms(1)] assms(3)] by auto

lemma log_readyD:
  assumes "log_ready B lg"
  shows "log_wf lg" "bs_held B = (\<lambda>_. None)" "card (dom (bs_pin B)) < NBUF"
    "j < log_n lg \<Longrightarrow> bs_pin B (home_key lg j) = Some (the (bs_pin B (home_key lg j)))"
    "in_log lg k \<Longrightarrow> bs_pin B k = None"
proof -
  show w: "log_wf lg" and "bs_held B = (\<lambda>_. None)" using assms by (simp_all add: log_ready_def)
  have "card (dom (bs_pin B)) \<le> log_n lg"
    using assms card_image_le [of "{..<log_n lg}" "home_key lg"] by (simp add: log_ready_def)
  then show "card (dom (bs_pin B)) < NBUF" using assms by (simp add: log_ready_def)
  show "j < log_n lg \<Longrightarrow> bs_pin B (home_key lg j) = Some (the (bs_pin B (home_key lg j)))"
    using assms by (force simp: log_ready_def dom_def)
  show "bs_pin B k = None" if "in_log lg k"
  proof (rule ccontr)
    assume "bs_pin B k \<noteq> None"
    then obtain j where "j < log_n lg" "k = home_key lg j" using assms by (auto simp: log_ready_def)
    with home_props(2) [OF w] that show False by simp
  qed
qed

lemma write_log_brep:
  assumes r: "log_ready B (log s)"
  shows "krun (brep [] p i) (B, s) write_log () (brep [] p i) (bs_puts (log_writes (log s) B) B, s)"
proof -
  let ?lg = "log s"
  let ?w = "\<lambda>j. (slot_key ?lg j, the (bs_pin B (home_key ?lg j)))"
  let ?S = "\<lambda>k. (bs_puts (map ?w [0..<k]) B, s)"
  note w = log_readyD(1) [OF r]
  have step: "krun (brep [] p i) (?S k) (write_one k) () (brep [] p i) (?S (Suc k))" if k: "k < log_n ?lg" for k
  proof -
    note kl = home_props(3) [OF w k]
    have "krun (brep [] p i) (?S k) (write_one k) () (brep [] p i)
        (bs_put (slot_key ?lg k) (the (bs_pin B (home_key ?lg k))) (bs_puts (map ?w [0..<k]) B), s)"
      by (rule write_one_brep)
        (use log_readyD [OF r] k kl home_slot_ne [OF w k kl] home_props(1,2) [OF w k] slot_props [OF log_wfD(1) [OF w] kl]
          in simp_all)
    then show ?thesis by simp
  qed
  have "krun (brep [] p i) (?S 0) (kfor [0..<log_n ?lg] write_one) () (brep [] p i) (?S (length [0..<log_n ?lg]))"
    by (rule krun_kfor) (use step in simp)
  then have run: "krun (brep [] p i) (B, s) (kfor [0..<log_n ?lg] write_one) () (brep [] p i)
      (bs_puts (log_writes ?lg B) B, s)"
    by (simp add: log_writes_def)
  show ?thesis unfolding write_log_def by (rule get_brep, simp, rule refl, rule run)
qed

lemma install_trans_brep:
  assumes w: "log_wf (log s)" and held: "bs_held B = (\<lambda>_. None)" and room: "card (dom (bs_pin B)) < NBUF"
    and pins: "bs_pin B = Map.empty \<or> (\<forall>j < log_n (log s). bs_pin B (home_key (log s) j) \<noteq> None)"
    and unpinned: "\<And>k. in_log (log s) k \<Longrightarrow> bs_pin B k = None"
  shows "krun (brep [] p i) (B, s) install_trans () (brep [] p i)
    (bs_unpins (home_key (log s) ` {..<log_n (log s)}) (bs_puts (install_writes (log s) (bs_disk B)) B), s)"
proof -
  let ?lg = "log s"
  let ?w = "\<lambda>j. (home_key ?lg j, bs_disk B (slot_key ?lg j))"
  let ?S = "\<lambda>k. (bs_unpins (home_key ?lg ` {..<k}) (bs_puts (map ?w [0..<k]) B), s)"
  have fin: "finite (dom (bs_pin B)) \<or> card (dom (bs_pin B) - home_key ?lg ` {..<k}) = 0" for k
    by (cases "finite (dom (bs_pin B))") auto
  have step: "krun (brep [] p i) (?S k) (install_one k) () (brep [] p i) (?S (Suc k))" if k: "k < log_n ?lg" for k
  proof -
    note kl = home_props(3) [OF w k]
    let ?B = "bs_unpins (home_key ?lg ` {..<k}) (bs_puts (map ?w [0..<k]) B)"
    have d: "bs_disk ?B (slot_key ?lg k) = bs_disk B (slot_key ?lg k)"
    proof -
      have "slot_key ?lg k \<notin> fst ` set (map ?w [0..<k])"
      proof
        assume "slot_key ?lg k \<in> fst ` set (map ?w [0..<k])"
        then obtain j where j: "j < k" "slot_key ?lg k = home_key ?lg j" by auto
        show False using home_slot_ne(1) [OF w less_trans [OF j(1) k] kl] j(2) by (rule notE [OF _ sym])
      qed
      then show ?thesis by (simp add: apply_writes_other)
    qed
    have dm: "dom (bs_pin ?B) = dom (bs_pin B) - home_key ?lg ` {..<k}" by auto
    have c: "card (dom (bs_pin ?B)) < NBUF"
      unfolding dm using fin [of k] card_mono [of "dom (bs_pin B)" "dom (bs_pin B) - home_key ?lg ` {..<k}"] room
      by (auto simp: NBUF_def MAXOPBLOCKS_def)
    have kk: "home_key ?lg k \<notin> home_key ?lg ` {..<k}"
    proof
      assume "home_key ?lg k \<in> home_key ?lg ` {..<k}"
      then obtain j where j: "j < k" "home_key ?lg k = home_key ?lg j" by auto
      show False using home_inj [OF w k less_trans [OF j(1) k] j(2)] j(1) by simp
    qed
    have c': "bs_pin ?B (home_key ?lg k) = None \<longrightarrow> Suc (card (dom (bs_pin ?B))) < NBUF"
    proof (cases "bs_pin B = Map.empty")
      case True
      then show ?thesis unfolding dm by (simp add: NBUF_def MAXOPBLOCKS_def)
    next
      case False
      with pins k kk have "bs_pin ?B (home_key ?lg k) \<noteq> None" by (simp add: restrict_map_def)
      then show ?thesis by (rule notE [THEN impI])
    qed
    have "krun (brep [] p i) (?B, s) (install_one k) () (brep [] p i)
        (bs_unpin (home_key ?lg k) (bs_put (home_key ?lg k) (bs_disk ?B (slot_key ?lg k)) ?B), s)"
      by (rule install_one_brep [OF _ _ _ _ _ c c'])
        (use held unpinned k kl home_slot_ne [OF w k kl] home_props(1,2) [OF w k] slot_props [OF log_wfD(1) [OF w] kl]
          in \<open>simp_all add: restrict_map_def\<close>)
    then have "krun (brep [] p i) (?S k) (install_one k) () (brep [] p i)
        (bs_unpins (insert (home_key ?lg k) (home_key ?lg ` {..<k})) (bs_puts (map ?w [0..<k] @ [?w k]) B), s)"
      unfolding d bs_unpins_insert bs_puts_simps .
    then show ?thesis by (simp only: lessThan_Suc image_insert upt_Suc_append list.map map_append le0)
  qed
  have "krun (brep [] p i) (?S 0) (kfor [0..<log_n ?lg] install_one) () (brep [] p i) (?S (length [0..<log_n ?lg]))"
  proof (rule krun_kfor)
    fix k assume "k < length [0..<log_n ?lg]"
    then have k: "k < log_n ?lg" "[0..<log_n ?lg] ! k = k" by simp_all
    show "krun (brep [] p i) (?S k) (install_one ([0..<log_n ?lg] ! k)) () (brep [] p i) (?S (Suc k))"
      unfolding k(2) by (rule step [OF k(1)])
  qed
  then have run: "krun (brep [] p i) (B, s) (kfor [0..<log_n ?lg] install_one) () (brep [] p i)
      (bs_unpins (home_key ?lg ` {..<log_n ?lg}) (bs_puts (install_writes ?lg (bs_disk B)) B), s)"
    by (simp only: install_writes_def lessThan_0 image_empty bs_unpins_simps upt_0 list.map bs_puts_simps length_upt diff_zero)
  show ?thesis unfolding install_trans_def by (rule get_brep, simp, rule refl, rule run)
qed

section \<open>Commit and recovery as runs\<close>

definition cleared :: "logstate \<Rightarrow> logstate" where
  "cleared lg = lg\<lparr>lg_lh := (lg_lh lg)\<lparr>lh_n := 0\<rparr>\<rparr>"

lemma keys_cleared [simp]:
  "log_key (cleared lg) = log_key lg" "slot_key (cleared lg) j = slot_key lg j" "in_log (cleared lg) = in_log lg"
  "log_place (cleared lg) = log_place lg" "lh_n (lg_lh (cleared lg)) = 0" "lh_ok (lg_lh lg) \<Longrightarrow> lh_ok (lg_lh (cleared lg))"
  by (simp_all add: cleared_def log_key_def slot_key_def in_log_def log_place_def lh_ok_def fun_eq_iff)

definition home_writes :: "logstate \<Rightarrow> bstate \<Rightarrow> (blkid \<times> block) list" where
  "home_writes lg B = map (\<lambda>j. (home_key lg j, the (bs_pin B (home_key lg j)))) [0..<log_n lg]"

text \<open>Everything that \<open>commit\<close> writes, in order.\<close>

definition commit_writes :: "logstate \<Rightarrow> bstate \<Rightarrow> (blkid \<times> block) list" where
  "commit_writes lg B =
     (let W = log_writes lg B; h = write_hdr (lg_lh lg) (bs_disk B (log_key lg))
      in W @ [(log_key lg, h)] @ home_writes lg B @ [(log_key lg, write_hdr (lg_lh (cleared lg)) h)])"

lemma clear_head_brep: "krun (brep H p i) (B, s) clear_head () (brep H p i) (B, s\<lparr>log := cleared (log s)\<rparr>)"
  unfolding clear_head_def
  by (rule krun_cong, rule kmod_brep) (simp_all add: upd_log_def cleared_def)

lemma log_writes_slot:
  assumes "log_wf lg" and "j < log_n lg"
  shows "apply_writes (log_writes lg B) d (slot_key lg j) = the (bs_pin B (home_key lg j))"
proof (rule apply_writes_eq)
  show "distinct (map fst (log_writes lg B))"
    using slot_inj [OF log_wfD(1) [OF assms(1)]] home_props(3) [OF assms(1)]
    by (auto simp: log_writes_def distinct_map inj_on_def comp_def)
qed (use assms in \<open>auto simp: log_writes_def\<close>)

lemma log_writes_log_key:
  assumes "log_wf lg"
  shows "apply_writes (log_writes lg B) d (log_key lg) = d (log_key lg)"
proof (rule apply_writes_other, rule notI)
  assume "log_key lg \<in> fst ` set (log_writes lg B)"
  then obtain j where j: "j < log_n lg" "log_key lg = slot_key lg j" by (auto simp: log_writes_def)
  show False using slot_props(3) [OF log_wfD(1) [OF assms] home_props(3) [OF assms j(1)]] j(2) by (rule notE [OF _ sym])
qed

lemma install_writes_log:
  assumes "log_wf lg" and "in_log lg k"
  shows "apply_writes (install_writes lg e) d k = d k"
  by (rule apply_writes_other) (use assms home_props(2) [OF assms(1)] in \<open>auto simp: install_writes_def\<close>)

lemma install_after_log:
  assumes w: "log_wf lg"
  shows "install_writes lg ((apply_writes (log_writes lg B) d)(log_key lg := h)) = home_writes lg B"
proof -
  have "((apply_writes (log_writes lg B) d)(log_key lg := h)) (slot_key lg j) = the (bs_pin B (home_key lg j))"
    if "j < log_n lg" for j
    using log_writes_slot [OF w that] slot_props(3) [OF log_wfD(1) [OF w] home_props(3) [OF w that]] by simp
  then show ?thesis by (simp add: install_writes_def home_writes_def)
qed

lemma bs_put_unpins: "bs_put k x (bs_unpins K A) = bs_unpins K (bs_put k x A)"
  by (simp add: bs_put_def bs_unpins_def)

lemma LOGSIZE_pos: "0 < LOGSIZE"
  by (simp add: LOGSIZE_def MAXOPBLOCKS_def)

lemma commit_brep:
  assumes r: "log_ready B (log s)" and n: "0 < lh_n (lg_lh (log s))"
  shows "krun (brep [] p i) (B, s) commit () (brep [] p i)
    (bs_unpins (home_key (log s) ` {..<log_n (log s)}) (bs_puts (commit_writes (log s) B) B), s\<lparr>log := cleared (log s)\<rparr>)"
proof -
  define lg where "lg = log s"
  define K where "K = home_key lg ` {..<log_n lg}"
  define W where "W = log_writes lg B"
  define h where "h = write_hdr (lg_lh lg) (bs_disk B (log_key lg))"
  define V where "V = home_writes lg B"
  have r: "log_ready B lg" using assms by (simp add: lg_def)
  note w = log_readyD(1) [OF r] and D = log_readyD [OF r]
  note sp = slot_props [OF log_wfD(1) [OF w]]
  have r1: "krun (brep [] p i) (B, s) write_log () (brep [] p i) (bs_puts W B, s)"
    unfolding W_def lg_def by (rule write_log_brep) (use r lg_def in simp)
  have "krun (brep [] p i) (bs_puts W B, s) write_head () (brep [] p i)
      (bs_put (log_key (log s)) (write_hdr (lg_lh (log s)) (bs_disk (bs_puts W B) (log_key (log s)))) (bs_puts W B), s)"
    by (rule write_head_brep) (use D sp(4,5) [OF LOGSIZE_pos] log_wfD(2) [OF w] in \<open>simp_all add: lg_def\<close>)
  then have r2: "krun (brep [] p i) (bs_puts W B, s) write_head () (brep [] p i) (bs_puts (W @ [(log_key lg, h)]) B, s)"
    by (simp add: W_def h_def log_writes_log_key [OF w] flip: lg_def)
  define B2 where "B2 = bs_puts (W @ [(log_key lg, h)]) B"
  have B2: "bs_pin B2 = bs_pin B" "bs_held B2 = bs_held B" "bs_disk B2 = (apply_writes W (bs_disk B))(log_key lg := h)"
    by (simp_all add: B2_def)
  have iw: "install_writes lg (bs_disk B2) = V"
    unfolding B2 W_def V_def by (rule install_after_log [OF w])
  have "krun (brep [] p i) (B2, s) install_trans () (brep [] p i)
      (bs_unpins (home_key (log s) ` {..<log_n (log s)}) (bs_puts (install_writes (log s) (bs_disk B2)) B2), s)"
    by (rule install_trans_brep) (use D w in \<open>auto simp: B2 simp flip: lg_def\<close>)
  then have r3: "krun (brep [] p i) (B2, s) install_trans () (brep [] p i) (bs_unpins K (bs_puts V B2), s)"
    by (simp only: iw K_def flip: lg_def)
  have pin3: "bs_pin (bs_unpins K (bs_puts V B2)) = Map.empty"
    using r by (auto simp: B2 K_def log_ready_def restrict_map_def fun_eq_iff domIff)
  have hd3: "apply_writes V (bs_disk B2) (log_key lg) = h"
    using install_writes_log [OF w sp(5) [OF LOGSIZE_pos], of "bs_disk B2" "bs_disk B2"] unfolding iw by (simp add: B2)
  let ?s = "s\<lparr>log := cleared lg\<rparr>" and ?B3 = "bs_unpins K (bs_puts V B2)"
  have "krun (brep [] p i) (?B3, ?s) write_head () (brep [] p i)
      (bs_put (log_key (log ?s)) (write_hdr (lg_lh (log ?s)) (bs_disk ?B3 (log_key (log ?s)))) ?B3, ?s)"
    by (rule write_head_brep, unfold pin3)
      (use D(2) sp(4) [OF LOGSIZE_pos] log_wfD(2) [OF w] in \<open>simp_all add: B2 NBUF_def MAXOPBLOCKS_def\<close>)
  moreover have "bs_put (log_key lg) (write_hdr (lg_lh (cleared lg)) h) ?B3 = bs_unpins K (bs_puts (commit_writes lg B) B)"
    by (simp add: bs_put_unpins B2_def commit_writes_def Let_def W_def V_def h_def)
  ultimately have r4: "krun (brep [] p i) (?B3, ?s) write_head () (brep [] p i)
      (bs_unpins K (bs_puts (commit_writes lg B) B), ?s)"
    by (simp add: hd3)
  show ?thesis
    unfolding commit_def
    by (rule get_brep, simp, rule refl, rule kexec_kwhen_True [OF n], rule kexec_kseq, rule r1, rule kexec_kseq, rule r2,
        fold B2_def, rule kexec_kseq, rule r3, rule kexec_kseq, rule clear_head_brep, fold lg_def, fold K_def, rule r4)
qed

definition loaded :: "logstate \<Rightarrow> (blkid \<Rightarrow> block) \<Rightarrow> logstate" where
  "loaded lg d = lg\<lparr>lg_lh := read_hdr (d (log_key lg)) (lh_block (lg_lh lg))\<rparr>"

lemma keys_loaded [simp]:
  "log_key (loaded lg d) = log_key lg" "slot_key (loaded lg d) j = slot_key lg j" "in_log (loaded lg d) = in_log lg"
  "log_place (loaded lg d) = log_place lg" "lh_n (lg_lh (loaded lg d)) = hdr_n (d (log_key lg))"
  by (simp_all add: loaded_def log_key_def slot_key_def in_log_def log_place_def read_hdr_def fun_eq_iff)

lemma read_head_brep:
  assumes held: "bs_held B = (\<lambda>_. None)" and k: "key_ok (log_key (log s))" and pin: "bs_pin B = Map.empty"
    and n: "hdr_n (bs_disk B (log_key (log s))) \<le> int LOGSIZE"
  shows "krun (brep [] p i) (B, s) read_head () (brep [] p i) (B, s\<lparr>log := loaded (log s) (bs_disk B)\<rparr>)"
proof -
  let ?k = "log_key (log s)"
  have dev: "lg_dev (log s) = blk_dev ?k" "lg_start (log s) = blk_no ?k" by (simp_all add: log_key_def)
  have rd: "kexec (brep [] p i) (B, s) (bread (lg_dev (log s)) (lg_start (log s)))
      (\<lambda>r. \<exists>b A. (b < NBUF \<and> bs_held B b = None \<and> A = (bs_read b ?k B, s)) \<and> returns b (brep [] p i) A r)"
    unfolding dev
    by (rule bread_brep [OF k bs_free_none [OF held]]) (use held pin in \<open>simp add: bs_room_def NBUF_def MAXOPBLOCKS_def\<close>)
  have h: "bs_held (bs_read b ?k B) b = Some (Held ?k (bs_disk B ?k) False)" for b
    using pin by (simp add: bs_read_def bs_view_def)
  have eq: "bs_release b (bs_read b ?k B) = B" for b
    using h held pin by (intro bstate.equality) (auto simp: bs_release_def bs_read_def)
  let ?f = "\<lambda>lg. lg\<lparr>lg_lh := read_hdr (h_data (Held ?k (bs_disk B ?k) False)) (lh_block (lg_lh lg))\<rparr>"
  have f: "upd_log ?f s = s\<lparr>log := loaded (log s) (bs_disk B)\<rparr>" by (simp add: upd_log_def loaded_def)
  have rl: "krun (brep [] p i) (bs_read b ?k B, s\<lparr>log := loaded (log s) (bs_disk B)\<rparr>) (brelse b) () (brep [] p i)
      (B, s\<lparr>log := loaded (log s) (bs_disk B)\<rparr>)" for b
    by (rule krun_cong, rule brelse_brep [OF h]) (simp_all add: eq, simp add: bs_read_def)
  have ng: "\<not> int LOGSIZE < hdr_n (h_data (Held ?k (bs_disk B ?k) False))" using n by simp
  show ?thesis
    unfolding read_head_def
    by (rule get_brep, simp, rule refl, rule kexec_kbind_ex [OF rd], clarify, rule get_data_brep [OF h],
        subst if_not_P [OF ng], rule mod_brep, simp add: upd_log_def, rule f, simp, rule rl)
qed

definition recover_writes :: "logstate \<Rightarrow> (blkid \<Rightarrow> block) \<Rightarrow> (blkid \<times> block) list" where
  "recover_writes lg d =
     install_writes (loaded lg d) d @ [(log_key lg, write_hdr (lg_lh (cleared (loaded lg d))) (d (log_key lg)))]"

lemma recover_from_log_brep:
  assumes held: "bs_held B = (\<lambda>_. None)" and pin: "bs_pin B = Map.empty" and w: "log_wf (loaded (log s) (bs_disk B))"
  shows "krun (brep [] p i) (B, s) recover_from_log () (brep [] p i)
    (bs_puts (recover_writes (log s) (bs_disk B)) B, s\<lparr>log := cleared (loaded (log s) (bs_disk B))\<rparr>)"
proof -
  define lg where "lg = loaded (log s) (bs_disk B)"
  have w: "log_wf lg" using assms by (simp add: lg_def)
  note sp = slot_props [OF log_wfD(1) [OF w] LOGSIZE_pos]
  have key: "log_key lg = log_key (log s)" by (simp add: lg_def)
  have r1: "krun (brep [] p i) (B, s) read_head () (brep [] p i) (B, s\<lparr>log := lg\<rparr>)"
    unfolding lg_def by (rule read_head_brep [OF held _ pin])
      (use sp(4) log_wfD(2) [OF w] in \<open>simp_all add: lg_def lh_ok_def\<close>)
  define V where "V = install_writes lg (bs_disk B)"
  have u: "bs_unpins K (bs_puts V B) = bs_puts V B" for K
    by (rule bstate.equality) (simp_all add: pin restrict_map_def)
  have "krun (brep [] p i) (B, s\<lparr>log := lg\<rparr>) install_trans () (brep [] p i)
      (bs_unpins (home_key (log (s\<lparr>log := lg\<rparr>)) ` {..<log_n (log (s\<lparr>log := lg\<rparr>))})
        (bs_puts (install_writes (log (s\<lparr>log := lg\<rparr>)) (bs_disk B)) B), s\<lparr>log := lg\<rparr>)"
    by (rule install_trans_brep) (use w held pin in \<open>simp_all add: NBUF_def MAXOPBLOCKS_def\<close>)
  then have r2: "krun (brep [] p i) (B, s\<lparr>log := lg\<rparr>) install_trans () (brep [] p i) (bs_puts V B, s\<lparr>log := lg\<rparr>)"
    by (simp add: u flip: V_def)
  have hd: "apply_writes V (bs_disk B) (log_key lg) = bs_disk B (log_key lg)"
    unfolding V_def by (rule install_writes_log [OF w sp(5)])
  let ?s = "s\<lparr>log := cleared lg\<rparr>"
  have "krun (brep [] p i) (bs_puts V B, ?s) write_head () (brep [] p i)
      (bs_put (log_key (log ?s)) (write_hdr (lg_lh (log ?s)) (bs_disk (bs_puts V B) (log_key (log ?s)))) (bs_puts V B), ?s)"
    by (rule write_head_brep)
      (use held pin sp(4) log_wfD(2) [OF w] in \<open>simp_all add: NBUF_def MAXOPBLOCKS_def\<close>)
  then have r3: "krun (brep [] p i) (bs_puts V B, ?s) write_head () (brep [] p i)
      (bs_puts (recover_writes (log s) (bs_disk B)) B, ?s)"
    by (simp add: hd [unfolded key] recover_writes_def key flip: lg_def V_def)
  show ?thesis
    unfolding recover_from_log_def
    by (rule kexec_kseq, rule r1, rule kexec_kseq, rule r2, rule kexec_kseq, rule clear_head_brep, fold lg_def)
      (use r3 in simp)
qed

section \<open>Crash safety\<close>

lemma apply_writes_outside:
  assumes "\<And>w. w \<in> set ws \<Longrightarrow> in_log lg (fst w)" and "\<not> in_log lg k"
  shows "apply_writes ws d k = d k"
  by (rule apply_writes_other) (use assms in auto)

lemma log_writes_in_log:
  assumes "log_wf lg" and "w \<in> set (log_writes lg B)"
  shows "in_log lg (fst w)" "fst w \<noteq> log_key lg"
  using assms(2) slot_props(2,3) [OF log_wfD(1) [OF assms(1)] home_props(3) [OF assms(1)]]
  by (auto simp: log_writes_def)

text \<open>Two log descriptors that place the log at the same blocks.\<close>

definition same_log :: "logstate \<Rightarrow> logstate \<Rightarrow> bool" where
  "same_log lg lg' \<longleftrightarrow> lg_start lg' = lg_start lg \<and> lg_dev lg' = lg_dev lg \<and> length (lh_block (lg_lh lg')) = LOGSIZE"

lemma same_logD:
  assumes "same_log lg lg'"
  shows "log_key lg' = log_key lg" "slot_key lg' = slot_key lg" "in_log lg' = in_log lg" "log_place lg' = log_place lg"
    "length (lh_block (lg_lh lg')) = LOGSIZE"
  using assms by (simp_all add: same_log_def log_key_def slot_key_def in_log_def log_place_def fun_eq_iff)

lemma recover_empty:
  assumes "same_log lg lg'" and "log_place lg" and "hdr_n (d (log_key lg)) = 0"
  shows "log_wf (loaded lg' d)" and "\<not> in_log lg k \<Longrightarrow> apply_writes (recover_writes lg' d) d k = d k"
proof -
  have n: "lh_n (lg_lh (loaded lg' d)) = 0" using assms(3) same_logD(1) [OF assms(1)] by simp
  show "log_wf (loaded lg' d)"
    using assms(2) same_logD(4,5) [OF assms(1)] n
    by (simp add: log_wf_def lh_list_def lh_ok_def) (simp add: loaded_def read_hdr_def)
  show "apply_writes (recover_writes lg' d) d k = d k" if "\<not> in_log lg k"
    using n that slot_props(5) [OF assms(2) LOGSIZE_pos] same_logD(1) [OF assms(1)]
    by (auto simp: recover_writes_def install_writes_def)
qed

lemma recover_full:
  assumes S: "same_log lg lg'" and w: "log_wf lg" and d: "d (log_key lg) = write_hdr (lg_lh lg) x" "length x = BSIZE"
  shows "log_wf (loaded lg' d)"
    and "\<not> in_log lg k \<Longrightarrow> apply_writes (recover_writes lg' d) d k = apply_writes (install_writes lg d) d k"
proof -
  let ?l = "loaded lg' d"
  note hw = write_hdr_props [OF log_wfD(2) [OF w] d(2)]
  have n: "hdr_n (d (log_key lg)) = lh_n (lg_lh lg)" by (simp add: d(1) hw(2))
  have lh: "lg_lh ?l = read_hdr (d (log_key lg)) (lh_block (lg_lh lg'))"
    by (simp add: loaded_def same_logD(1) [OF S])
  have le: "hdr_n (d (log_key lg)) \<le> int LOGSIZE" "0 \<le> hdr_n (d (log_key lg))"
    using log_wfD(2) [OF w] by (simp_all add: n lh_ok_def)
  have ok: "lh_ok (lg_lh ?l)" unfolding lh by (rule read_hdr_list(2) [OF le(1) same_logD(5) [OF S] le(2)])
  have ls: "lh_list (lg_lh ?l) = lh_list (lg_lh lg)"
    unfolding lh read_hdr_list(1) [OF le(1) same_logD(5) [OF S]] unfolding d(1)
    by (rule hdr_list_write [OF log_wfD(2) [OF w] d(2)])
  have dev: "lg_dev ?l = lg_dev lg" using S by (simp add: same_log_def loaded_def)
  show wl: "log_wf ?l"
    using w ok ls dev same_logD(3,4) [OF S] by (simp add: log_wf_def)
  have nn: "log_n ?l = log_n lg" by (simp add: n same_logD(1) [OF S])
  have "home_key ?l j = home_key lg j" if "j < log_n lg" for j
    using home_props(4) [OF wl, unfolded nn, OF that] home_props(4) [OF w that] by (simp add: ls dev)
  then have "install_writes ?l d = install_writes lg d"
    using nn by (simp add: install_writes_def same_logD(2) [OF S])
  then show "apply_writes (recover_writes lg' d) d k = apply_writes (install_writes lg d) d k" if "\<not> in_log lg k"
    using that slot_props(5) [OF log_wfD(1) [OF w] LOGSIZE_pos] by (auto simp: recover_writes_def same_logD(1) [OF S])
qed

lemma install_view:
  assumes r: "log_ready B lg" and d: "\<And>j. j < log_n lg \<Longrightarrow> d (slot_key lg j) = the (bs_pin B (home_key lg j))"
    and o: "bs_pin B k = None \<Longrightarrow> e k = bs_disk B k"
  shows "apply_writes (install_writes lg d) e k = bs_view B k"
proof (cases "bs_pin B k")
  case None
  have "k \<notin> fst ` set (install_writes lg d)"
    using None by (auto simp: install_writes_def dest!: log_readyD(4) [OF r])
  with None o show ?thesis by (simp add: apply_writes_other bs_view_def)
next
  case (Some x)
  then obtain j where j: "j < log_n lg" "k = home_key lg j" using r by (auto simp: log_ready_def)
  have "apply_writes (install_writes lg d) e k = x"
  proof (rule apply_writes_eq)
    show "distinct (map fst (install_writes lg d))"
      using home_inj [OF log_readyD(1) [OF r]] by (auto simp: install_writes_def distinct_map inj_on_def comp_def)
    show "(k, x) \<in> set (install_writes lg d)"
      using j d [OF j(1)] Some by (force simp: install_writes_def)
  qed
  with Some show ?thesis by (simp add: bs_view_def)
qed

lemma commit_writes_cases:
  obtains U where "set U \<subseteq> set (log_writes lg B)" "take m (commit_writes lg B) = U"
  | j where "take m (commit_writes lg B) =
      log_writes lg B @ (log_key lg, write_hdr (lg_lh lg) (bs_disk B (log_key lg))) # take j (home_writes lg B)"
  | "take m (commit_writes lg B) = commit_writes lg B"
proof -
  let ?W = "log_writes lg B" and ?h = "(log_key lg, write_hdr (lg_lh lg) (bs_disk B (log_key lg)))"
  let ?V = "home_writes lg B"
  have c: "commit_writes lg B = ?W @ ?h # ?V @ [(log_key lg, write_hdr (lg_lh (cleared lg)) (snd ?h))]"
    by (simp add: commit_writes_def Let_def)
  consider "m \<le> length ?W" | q where "m = Suc (length ?W) + q" "q \<le> length ?V" | "Suc (length ?W + length ?V) < m"
  proof -
    assume a: "m \<le> length ?W \<Longrightarrow> thesis" and b: "\<And>q. m = Suc (length ?W) + q \<Longrightarrow> q \<le> length ?V \<Longrightarrow> thesis"
      and c: "Suc (length ?W + length ?V) < m \<Longrightarrow> thesis"
    show thesis using a b [of "m - Suc (length ?W)"] c by linarith
  qed
  then show thesis
  proof cases
    case 1
    then have "take m (commit_writes lg B) = take m ?W" by (simp add: c)
    with that(1) [OF set_take_subset] show ?thesis .
  next
    case 2
    then show ?thesis using that(2) [of q] by (simp add: c)
  next
    case 3
    then show ?thesis using that(3) by (simp add: c)
  qed
qed

lemma home_writes_homes:
  assumes "log_ready B lg" and "w \<in> set (take j (home_writes lg B))"
  shows "\<not> in_log lg (fst w)" "bs_pin B (fst w) \<noteq> None"
proof -
  obtain j where j: "j < log_n lg" "fst w = home_key lg j"
    using in_set_takeD [OF assms(2)] by (auto simp: home_writes_def)
  show "\<not> in_log lg (fst w)" unfolding j(2) by (rule home_props(2) [OF log_readyD(1) [OF assms(1)] j(1)])
  show "bs_pin B (fst w) \<noteq> None" unfolding j(2) using log_readyD(4) [OF assms(1) j(1)] by (rule ssubst) simp
qed

lemma apply_home_writes:
  assumes "log_ready B lg" and "in_log lg k \<or> bs_pin B k = None"
  shows "apply_writes (take j (home_writes lg B)) d k = d k"
  by (rule apply_writes_other) (use assms(2) home_writes_homes [OF assms(1)] in force)

lemma crash_before_header:
  assumes r: "log_ready B lg" and z: "hdr_n (bs_disk B (log_key lg)) = 0" and S: "same_log lg lg'"
    and U: "set U \<subseteq> set (log_writes lg B)" and d: "d = apply_writes U (bs_disk B)"
  shows "log_wf (loaded lg' d)" and "\<not> in_log lg k \<Longrightarrow> apply_writes (recover_writes lg' d) d k = bs_disk B k"
proof -
  note w = log_readyD(1) [OF r]
  have "d (log_key lg) = bs_disk B (log_key lg)"
    unfolding d by (rule apply_writes_other) (use U log_writes_in_log(2) [OF w] in force)
  then have h: "hdr_n (d (log_key lg)) = 0" using z by simp
  note e = recover_empty [where d = d, OF S log_wfD(1) [OF w] h]
  show "log_wf (loaded lg' d)" by (rule e(1))
  show "apply_writes (recover_writes lg' d) d k = bs_disk B k" if "\<not> in_log lg k"
    unfolding e(2) [OF that]
    by (unfold d, rule apply_writes_outside [OF _ that]) (use U log_writes_in_log(1) [OF w] in blast)
qed

lemma crash_after_header:
  assumes r: "log_ready B lg" and S: "same_log lg lg'" and len: "length (bs_disk B (log_key lg)) = BSIZE"
    and d: "d = apply_writes (take j (home_writes lg B))
      ((apply_writes (log_writes lg B) (bs_disk B))(log_key lg := write_hdr (lg_lh lg) (bs_disk B (log_key lg))))"
  shows "log_wf (loaded lg' d)" and "\<not> in_log lg k \<Longrightarrow> apply_writes (recover_writes lg' d) d k = bs_view B k"
proof -
  note w = log_readyD(1) [OF r]
  note sp = slot_props [OF log_wfD(1) [OF w]]
  have h: "d (log_key lg) = write_hdr (lg_lh lg) (bs_disk B (log_key lg))"
    unfolding d using apply_home_writes [OF r disjI1 [OF sp(5) [OF LOGSIZE_pos]]] by simp
  note f = recover_full [where d = d, OF S w h len]
  show "log_wf (loaded lg' d)" by (rule f(1))
  have sl: "d (slot_key lg q) = the (bs_pin B (home_key lg q))" if "q < log_n lg" for q
    unfolding d using apply_home_writes [OF r disjI1 [OF sp(2) [OF home_props(3) [OF w that]]]]
      sp(3) [OF home_props(3) [OF w that]] log_writes_slot [OF w that] by simp
  show "apply_writes (recover_writes lg' d) d k = bs_view B k" if k: "\<not> in_log lg k"
    unfolding f(2) [OF k]
  proof (rule install_view [OF r sl])
    assume p: "bs_pin B k = None"
    have "k \<noteq> log_key lg" using k sp(5) [OF LOGSIZE_pos] by blast
    then show "d k = bs_disk B k"
      unfolding d using apply_home_writes [OF r disjI2 [OF p]] apply_writes_outside [OF log_writes_in_log(1) [OF w] k] by simp
  qed
qed

lemma commit_disk:
  assumes r: "log_ready B lg" and k: "\<not> in_log lg k"
  shows "apply_writes (commit_writes lg B) (bs_disk B) k = bs_view B k"
proof -
  note w = log_readyD(1) [OF r]
  let ?D = "(apply_writes (log_writes lg B) (bs_disk B))(log_key lg := write_hdr (lg_lh lg) (bs_disk B (log_key lg)))"
  have kl: "k \<noteq> log_key lg" using k slot_props(5) [OF log_wfD(1) [OF w] LOGSIZE_pos] by blast
  have "?D (slot_key lg j) = the (bs_pin B (home_key lg j))" if "j < log_n lg" for j
    using log_writes_slot [OF w that] slot_props(3) [OF log_wfD(1) [OF w] home_props(3) [OF w that]] by simp
  then have "apply_writes (install_writes lg ?D) ?D k = bs_view B k"
  proof (rule install_view [OF r])
    show "?D k = bs_disk B k"
      unfolding fun_upd_other [OF kl] by (rule apply_writes_outside [OF log_writes_in_log(1) [OF w] k])
  qed
  then show ?thesis unfolding install_after_log [OF w] using kl by (simp add: commit_writes_def Let_def)
qed

lemma crash_after_commit:
  assumes r: "log_ready B lg" and S: "same_log lg lg'" and len: "length (bs_disk B (log_key lg)) = BSIZE"
    and d: "d = apply_writes (commit_writes lg B) (bs_disk B)"
  shows "log_wf (loaded lg' d)" and "\<not> in_log lg k \<Longrightarrow> apply_writes (recover_writes lg' d) d k = bs_view B k"
proof -
  note w = log_readyD(1) [OF r]
  have "lh_ok (lg_lh (cleared lg))" "length (write_hdr (lg_lh lg) (bs_disk B (log_key lg))) = BSIZE"
    using log_wfD(2) [OF w] write_hdr_props(1) [OF _ len] by simp_all
  from write_hdr_props(2) [OF this] have z: "hdr_n (d (log_key lg)) = 0"
    by (simp add: d commit_writes_def Let_def)
  note e = recover_empty [where d = d, OF S log_wfD(1) [OF w] z]
  show "log_wf (loaded lg' d)" by (rule e(1))
  show "apply_writes (recover_writes lg' d) d k = bs_view B k" if "\<not> in_log lg k"
    unfolding e(2) [OF that] unfolding d by (rule commit_disk [OF r that])
qed

lemma crash_recovers:
  assumes r: "log_ready B lg" and z: "hdr_n (bs_disk B (log_key lg)) = 0" and len: "length (bs_disk B (log_key lg)) = BSIZE"
    and S: "same_log lg lg'" and d: "d = apply_writes (take m (commit_writes lg B)) (bs_disk B)"
  shows "log_wf (loaded lg' d)"
    and "(\<forall>k. \<not> in_log lg k \<longrightarrow> apply_writes (recover_writes lg' d) d k = bs_disk B k) \<or>
      (\<forall>k. \<not> in_log lg k \<longrightarrow> apply_writes (recover_writes lg' d) d k = bs_view B k)"
proof -
  have "log_wf (loaded lg' d) \<and> ((\<forall>k. \<not> in_log lg k \<longrightarrow> apply_writes (recover_writes lg' d) d k = bs_disk B k) \<or>
      (\<forall>k. \<not> in_log lg k \<longrightarrow> apply_writes (recover_writes lg' d) d k = bs_view B k))"
  proof (cases rule: commit_writes_cases [of lg B m])
    case (1 U)
    with crash_before_header [OF r z S 1(1)] d show ?thesis by blast
  next
    case (2 j)
    have "d = apply_writes (take j (home_writes lg B))
        ((apply_writes (log_writes lg B) (bs_disk B))(log_key lg := write_hdr (lg_lh lg) (bs_disk B (log_key lg))))"
      unfolding d 2 by simp
    with crash_after_header [OF r S len] show ?thesis by blast
  next
    case 3
    with crash_after_commit [OF r S len] d show ?thesis by simp
  qed
  then show "log_wf (loaded lg' d)"
    "(\<forall>k. \<not> in_log lg k \<longrightarrow> apply_writes (recover_writes lg' d) d k = bs_disk B k) \<or>
      (\<forall>k. \<not> in_log lg k \<longrightarrow> apply_writes (recover_writes lg' d) d k = bs_view B k)" by simp_all
qed

section \<open>A booted machine\<close>

text \<open>The kernel after \<open>binit\<close>, with given disks and log; and the same with block 100 changed by a transaction.\<close>

definition boot_bufs :: "buf list" where
  "boot_bufs = map (\<lambda>i. zero_buf\<lparr>b_next := (if i = 0 then NBUF else i - 1),
     b_prev := (if i = NBUF then 0 else Suc i)\<rparr>) [0..<Suc NBUF]"

definition boot_kernel :: "(blkid \<Rightarrow> block) \<Rightarrow> logstate \<Rightarrow> kstate" where
  "boot_kernel d lg = zero_kernel\<lparr>ide := zero_ide\<lparr>disks := (\<lambda>v n. d (Blk v n))\<rparr>, bufs := boot_bufs, log := lg\<rparr>"

definition boot_blocks :: "(blkid \<Rightarrow> block) \<Rightarrow> bstate" where
  "boot_blocks d = \<lparr>bs_disk = d, bs_pin = Map.empty, bs_held = (\<lambda>_. None), bs_trace = []\<rparr>"

definition tx_log :: "nat \<Rightarrow> logstate" where
  "tx_log n = \<lparr>lg_start = 2, lg_size = 30, lg_outstanding = 0, lg_committing = True, lg_dev = 1,
     lg_lh = \<lparr>lh_n = int n, lh_block = replicate LOGSIZE 100\<rparr>\<rparr>"

definition tx_kernel :: "block \<Rightarrow> kstate" where
  "tx_kernel x = (boot_kernel (\<lambda>_. zero_block) (tx_log 1))\<lparr>bufs := boot_bufs[0 := (boot_bufs ! 0)\<lparr>b_flags := B_VALID OR B_DIRTY,
     b_dev := 1, b_blockno := 100, b_data := x\<rparr>]\<rparr>"

definition tx_blocks :: "block \<Rightarrow> bstate" where
  "tx_blocks x = (boot_blocks (\<lambda>_. zero_block))\<lparr>bs_pin := [Blk 1 100 \<mapsto> x]\<rparr>"

lemma path_down: "path nx b (rev [0..<k]) h \<longleftrightarrow> nx b = (if k = 0 then h else k - 1) \<and> (\<forall>i < k. nx i = (if i = 0 then h else i - 1))"
proof (induction k arbitrary: b)
  case (Suc k)
  then show ?case by (auto simp: less_Suc_eq)
qed simp

lemma all_from_Suc: "j < k \<Longrightarrow> (\<forall>i. j \<le> i \<and> i < k \<longrightarrow> P i) \<longleftrightarrow> P j \<and> (\<forall>i. Suc j \<le> i \<and> i < k \<longrightarrow> P i)"
  by (auto simp: Suc_le_eq) (metis le_neq_implies_less)

lemma path_up: "j < k \<Longrightarrow> path nx b [j..<k] h \<longleftrightarrow> nx b = j \<and> (\<forall>i. j \<le> i \<and> i < k \<longrightarrow> nx i = (if Suc i = k then h else Suc i))"
proof (induction "k - j" arbitrary: j b)
  case (Suc n)
  show ?case
  proof (cases "Suc j < k")
    case True
    have "path nx j [Suc j..<k] h \<longleftrightarrow> nx j = Suc j \<and> (\<forall>i. Suc j \<le> i \<and> i < k \<longrightarrow> nx i = (if Suc i = k then h else Suc i))"
      by (rule Suc.hyps(1)) (use Suc.hyps(2) True in auto)
    with True Suc.prems show ?thesis unfolding all_from_Suc [OF Suc.prems] by (simp add: upt_conv_Cons)
  next
    case False
    with Suc.prems have "k = Suc j" by simp
    then show ?thesis unfolding all_from_Suc [OF Suc.prems] by auto
  qed
qed simp

lemma bcache_ok_boot:
  assumes "length (bufs s) = Suc NBUF"
    and "\<And>i. i \<le> NBUF \<Longrightarrow> b_next (bufs s ! i) = (if i = 0 then NBUF else i - 1)"
    and "\<And>i. i \<le> NBUF \<Longrightarrow> b_prev (bufs s ! i) = (if i = NBUF then 0 else Suc i)"
  shows "bcache_ok s (rev [0..<NBUF])"
proof -
  have n: "0 < NBUF" by (simp add: NBUF_def MAXOPBLOCKS_def)
  have "path (bnext s) NBUF (rev [0..<NBUF]) NBUF" unfolding path_down using assms(2) n by (simp add: bnext_def)
  moreover have "path (bprev s) NBUF [0..<NBUF] NBUF" unfolding path_up [OF n] using assms(3) n by (simp add: bprev_def)
  ultimately show ?thesis using assms(1) by (auto simp: bcache_ok_def ring_def)
qed

lemma boot_bufs_nth: "i \<le> NBUF \<Longrightarrow> boot_bufs ! i = zero_buf\<lparr>b_next := (if i = 0 then NBUF else i - 1),
     b_prev := (if i = NBUF then 0 else Suc i)\<rparr>" "length boot_bufs = Suc NBUF"
  unfolding boot_bufs_def by (simp_all del: upt_Suc)

lemma bst_boot:
  assumes "\<And>k. length (d k) = BSIZE"
  shows "bst 0 (boot_blocks d, boot_kernel d lg) (boot_kernel d lg)"
proof -
  let ?s = "boot_kernel d lg"
  have c: "bcache_ok ?s (rev [0..<NBUF])" by (rule bcache_ok_boot) (simp_all add: boot_kernel_def boot_bufs_nth)
  have v: "bview (p_pid (proc_at ?s 0)) (boot_blocks d) (bufs ?s)"
    using assms by (simp add: bview_def buf_rep_def boot_blocks_def boot_kernel_def boot_bufs_nth zero_buf_def zero_block_def
      bkey_def valid_flag_def dirty_flag_def zero_sleeplock_def)
  show ?thesis
    using c v
    by (auto simp: bst_def same_rest_def boot_kernel_def boot_blocks_def zero_kernel_def zero_ide_def
      can_wait_def ide_ready_def IDE_BSY_def IDE_DRDY_def IDE_DF_def IDE_ERR_def first_proc_def zero_proc_def)
qed

lemma brep_boot:
  assumes "\<And>k. length (d k) = BSIZE"
  shows "brep [] 0 True (boot_blocks d, boot_kernel d lg) (boot_kernel d lg)"
  unfolding brep_def
  by (rule exI, rule conjI [OF bst_boot [OF assms]], rule owns_self) (use zero_kernel_crit in \<open>simp add: boot_kernel_def\<close>)

lemma tx_log_ready: "length x = BSIZE \<Longrightarrow> log_ready (tx_blocks x) (tx_log 1)"
  by (auto simp: log_ready_def log_wf_def log_place_def tx_log_def lh_ok_def lh_list_def LOGSIZE_def MAXOPBLOCKS_def
    NBUF_def FSSIZE_def log_key_def key_ok_def in_log_def tx_blocks_def boot_blocks_def home_key_def)

lemma tx_brep:
  assumes "length x = BSIZE"
  shows "brep [] 0 True (tx_blocks x, tx_kernel x) (tx_kernel x)"
proof -
  let ?s = "tx_kernel x"
  have c: "bcache_ok ?s (rev [0..<NBUF])"
    by (rule bcache_ok_boot) (auto simp: tx_kernel_def boot_bufs_nth nth_list_update_if)
  have v: "bview (p_pid (proc_at ?s 0)) (tx_blocks x) (bufs ?s)"
  proof -
    have n: "0 < NBUF" by (simp add: NBUF_def MAXOPBLOCKS_def)
    have b0: "bufs ?s ! 0 = (boot_bufs ! 0)\<lparr>b_flags := B_VALID OR B_DIRTY, b_dev := 1, b_blockno := 100, b_data := x\<rparr>"
      by (simp add: tx_kernel_def boot_bufs_nth)
    have b1: "bufs ?s ! b = boot_bufs ! b" if "b \<noteq> 0" for b using that by (simp add: tx_kernel_def)
    note defs = buf_rep_def tx_blocks_def boot_blocks_def boot_bufs_nth zero_buf_def zero_block_def
      bkey_def valid_flag_def dirty_flag_def zero_sleeplock_def key_ok_def FSSIZE_def B_VALID_def B_DIRTY_def
    have r: "buf_rep q (tx_blocks x) b (bufs ?s ! b)" if "b < NBUF" for b q
      using that assms by (cases "b = 0") (simp_all add: b0 b1 defs)
    have k0: "bkey (bufs ?s ! 0) = Blk 1 100" "dirty_flag (b_flags (bufs ?s ! 0))" by (simp_all add: b0 defs)
    have k: "bkey (bufs ?s ! b) = Blk 0 0" if "b < NBUF" "b \<noteq> 0" for b using that by (simp add: b1 defs)
    have kk: "bkey (bufs ?s ! b) = Blk 0 0"
      if "b < NBUF" "c < NBUF" "b \<noteq> c" "bkey (bufs ?s ! b) = bkey (bufs ?s ! c)" for b c
      using that k [of b] k [of c] by (cases "b = 0") auto
    show ?thesis
      unfolding bview_def
    proof (intro conjI allI impI)
      fix q assume "bs_pin (tx_blocks x) q \<noteq> None"
      then have "q = Blk 1 100" by (auto simp: tx_blocks_def split: if_splits)
      then show "\<exists>b < NBUF. bkey (bufs ?s ! b) = q \<and> bs_held (tx_blocks x) b = None \<and> dirty_flag (b_flags (bufs ?s ! b))"
        using n k0 by (intro exI [of _ 0]) (simp add: tx_blocks_def boot_blocks_def)
    qed (use r kk in \<open>simp_all add: tx_blocks_def boot_blocks_def zero_block_def\<close>)
  qed
  have "\<exists>xs. bcache_ok ?s xs" using c by (rule exI)
  then have "bst 0 (tx_blocks x, ?s) ?s"
    using v unfolding bst_def
    by (auto simp: same_rest_def tx_kernel_def boot_kernel_def tx_blocks_def boot_blocks_def zero_kernel_def zero_ide_def
      can_wait_def ide_ready_def IDE_BSY_def IDE_DRDY_def IDE_DF_def IDE_ERR_def first_proc_def zero_proc_def)
  then show ?thesis
    unfolding brep_def
    by (intro exI conjI, assumption, intro owns_self) (use zero_kernel_crit in \<open>simp add: tx_kernel_def boot_kernel_def\<close>)
qed

lemma tx_header: "hdr_n (bs_disk (tx_blocks x) (log_key (log (tx_kernel x)))) = 0"
  by (simp add: tx_blocks_def boot_blocks_def hdr_n_def get32_def zero_block_def BSIZE_def word32_def)

lemma crash_run:
  assumes r: "log_ready B (log s)" and z: "hdr_n (bs_disk B (log_key (log s))) = 0" and b: "brep [] p i (B, s) t"
    and c: "brep [] p' i' (C, u) c" "bs_held C = (\<lambda>_. None)" "bs_pin C = Map.empty"
    and d: "bs_disk C = apply_writes (take m (commit_writes (log s) B)) (bs_disk B)" and S: "same_log (log s) (log u)"
  shows "\<exists>C' u' c'. recover_from_log c = Inr ((), c') \<and> brep [] p' i' (C', u') c' \<and>
      ((\<forall>k. \<not> in_log (log s) k \<longrightarrow> bs_disk C' k = bs_disk B k) \<or> (\<forall>k. \<not> in_log (log s) k \<longrightarrow> bs_disk C' k = bs_view B k))"
proof -
  note cr = crash_recovers [OF r z brep_disk_length [OF b] S d]
  let ?C = "bs_puts (recover_writes (log u) (bs_disk C)) C"
  obtain c' where c': "recover_from_log c = Inr ((), c')"
    "brep [] p' i' (?C, u\<lparr>log := cleared (loaded (log u) (bs_disk C))\<rparr>) c'"
    using recover_from_log_brep [OF c(2,3) cr(1)] c(1) by (rule krunE)
  from cr(2) have "(\<forall>k. \<not> in_log (log s) k \<longrightarrow> bs_disk ?C k = bs_disk B k) \<or> (\<forall>k. \<not> in_log (log s) k \<longrightarrow> bs_disk ?C k = bs_view B k)"
    unfolding bs_puts_simps .
  with c' show ?thesis by (intro exI conjI)
qed

text \<open>
  C4. Crash safety of a commit: from every state in which a transaction is ready to commit and the log
  header on disk is empty, \<open>commit\<close> returns with all the transaction's blocks installed at their home
  locations and none left pinned in the cache. If the power fails after any number \<open>m\<close> of the disk writes
  it makes, then on every freshly booted machine with that disk \<open>recover_from_log\<close> returns, and outside
  the log area the disk is either everywhere as before the transaction or everywhere as after it.
\<close>

theorem commit_crash_safe:
  assumes "brep [] p i (B, s) t" and "log_ready B (log s)" and "0 < lh_n (lg_lh (log s))"
    and "hdr_n (bs_disk B (log_key (log s))) = 0"
  shows "\<exists>B' t' ws. commit t = Inr ((), t') \<and> brep [] p i (B', s\<lparr>log := cleared (log s)\<rparr>) t' \<and> bs_pin B' = Map.empty \<and>
    (\<forall>k. \<not> in_log (log s) k \<longrightarrow> bs_disk B' k = bs_view B k) \<and>
    bs_trace B' = bs_trace B @ ws \<and> bs_disk B' = apply_writes ws (bs_disk B) \<and>
    (\<forall>m p' i' C u c. brep [] p' i' (C, u) c \<and> bs_held C = (\<lambda>_. None) \<and> bs_pin C = Map.empty \<and>
       bs_disk C = apply_writes (take m ws) (bs_disk B) \<and> same_log (log s) (log u) \<longrightarrow>
       (\<exists>C' u' c'. recover_from_log c = Inr ((), c') \<and> brep [] p' i' (C', u') c' \<and>
          ((\<forall>k. \<not> in_log (log s) k \<longrightarrow> bs_disk C' k = bs_disk B k) \<or>
           (\<forall>k. \<not> in_log (log s) k \<longrightarrow> bs_disk C' k = bs_view B k))))"
proof -
  let ?ws = "commit_writes (log s) B"
  let ?B' = "bs_unpins (home_key (log s) ` {..<log_n (log s)}) (bs_puts ?ws B)"
  note r = assms(2)
  obtain t' where t': "commit t = Inr ((), t')" "brep [] p i (?B', s\<lparr>log := cleared (log s)\<rparr>) t'"
    using commit_brep [OF r assms(3)] assms(1) by (rule krunE)
  have pin: "bs_pin ?B' = Map.empty"
    using r by (auto simp: log_ready_def restrict_map_def fun_eq_iff domIff)
  have dsk: "\<forall>k. \<not> in_log (log s) k \<longrightarrow> bs_disk ?B' k = bs_view B k" using commit_disk [OF r] by simp
  have tr: "bs_trace ?B' = bs_trace B @ ?ws" "bs_disk ?B' = apply_writes ?ws (bs_disk B)" by simp_all
  show ?thesis
    by (rule exI [of _ ?B'], rule exI [of _ t'], rule exI [of _ ?ws], intro conjI, rule t', rule t', rule pin, rule dsk,
        rule tr, rule tr, intro allI impI, elim conjE, rule crash_run [OF r assms(4,1)])
qed

theorem commit_crash_safe_witness:
  "\<exists>t' ws c'. commit (tx_kernel (replicate BSIZE 7)) = Inr ((), t') \<and>
     recover_from_log (boot_kernel (apply_writes ws (\<lambda>_. zero_block)) (tx_log 0)) = Inr ((), c')"
proof -
  let ?x = "replicate BSIZE 7 :: block"
  let ?B = "tx_blocks ?x" and ?s = "tx_kernel ?x"
  have l: "log ?s = tx_log 1" by (simp add: tx_kernel_def boot_kernel_def)
  have x: "length ?x = BSIZE" by simp
  have "brep [] 0 True (?B, ?s) ?s" "log_ready ?B (log ?s)" "0 < lh_n (lg_lh (log ?s))"
    by (rule tx_brep [OF x], unfold l, rule tx_log_ready [OF x], simp add: tx_log_def)
  from commit_crash_safe [OF this tx_header] obtain B' t' ws where c: "commit ?s = Inr ((), t')"
    "brep [] 0 True (B', ?s\<lparr>log := cleared (log ?s)\<rparr>) t'" "bs_disk B' = apply_writes ws (bs_disk ?B)"
    "\<forall>m p' i' C u c. brep [] p' i' (C, u) c \<and> bs_held C = (\<lambda>_. None) \<and> bs_pin C = Map.empty \<and>
       bs_disk C = apply_writes (take m ws) (bs_disk ?B) \<and> same_log (log ?s) (log u) \<longrightarrow>
       (\<exists>C' u' c'. recover_from_log c = Inr ((), c') \<and> brep [] p' i' (C', u') c' \<and>
          ((\<forall>k. \<not> in_log (log ?s) k \<longrightarrow> bs_disk C' k = bs_disk ?B k) \<or>
           (\<forall>k. \<not> in_log (log ?s) k \<longrightarrow> bs_disk C' k = bs_view ?B k)))"
    by (elim exE conjE)
  let ?d = "apply_writes ws (\<lambda>_. zero_block)"
  have d: "bs_disk B' = ?d" by (simp add: c(3) tx_blocks_def boot_blocks_def)
  have b: "brep [] 0 True (boot_blocks ?d, boot_kernel ?d (tx_log 0)) (boot_kernel ?d (tx_log 0))"
    by (rule brep_boot) (use brep_disk_length [OF c(2)] d in simp)
  have "\<exists>c'. recover_from_log (boot_kernel ?d (tx_log 0)) = Inr ((), c')"
    using c(4) [rule_format, of 0 True "boot_blocks ?d" "boot_kernel ?d (tx_log 0)" "boot_kernel ?d (tx_log 0)" "length ws"] b
    by (auto simp: boot_blocks_def tx_blocks_def l same_log_def tx_log_def boot_kernel_def)
  with c(1) show ?thesis by blast
qed

end
