(* ===== verification/Swap.thy ===== *)
theory Swap
  imports Kalloc Recovery
begin

text \<open>
  Memory pressure: what \<open>kalloc\<close> does when it has to write a page to the swap area. The theory joins the page
  allocator with the buffer cache and the disk driver.
\<close>

section \<open>Disk access with a spin lock held\<close>

lemma sleep_until_held_panics:
  assumes "lk \<in> set H" and "LPtable \<notin> set H" and "2 \<le> length H"
  shows "kpanics (owns H (Some p, b)) s (sleep_until irq ch lk) ''sched locks''"
proof (rule kexecI)
  fix t assume t: "owns H (Some p, b) s t"
  obtain t1 where t1: "myproc t = Inr (Some p, t1)" "owns H (Some p, b) s t1"
    using krunE [OF myproc_owns t] by auto
  have "sleep ch lk t1 = Inl (Panic ''sched locks'')"
    using kexecD [OF sleep_extra_lock_owns [OF assms] t1(2)] .
  with t1 show "sleep_until irq ch lk t = Inl (Panic ''sched locks'')"
    by (simp add: sleep_until_def null_check_def)
qed

lemma iderw_held_panics:
  assumes "H \<noteq> []" and "LIde \<notin> set H" and "LPtable \<notin> set H" and "LSleep (SLBuf b) \<notin> set H"
    and "sl_locked (b_lock (bufs s ! b))" "sl_pid (b_lock (bufs s ! b)) = p_pid (proc_at s p)"
    and "\<not> valid_flag (b_flags (bufs s ! b))" and io: "io_ok s p b"
  shows "kpanics (owns H (Some p, i)) s (iderw b) ''sched locks''"
proof -
  let ?th = "(Some p, i)" and ?H = "owns (LIde # H) (Some p, i)"
  let ?s1 = "upd_ide (\<lambda>i. i\<lparr>idequeue := idequeue i @ [b]\<rparr>) s"
  let ?s2 = "upd_ide (ide_issue (bufs ?s1 ! b)) ?s1"
  have hold: "krun (owns H ?th) s (holdingsleep (SLBuf b)) True (owns H ?th) s"
    using holdingsleep_owns [of "SLBuf b" H p i s] assms(4-6) by simp
  have nv: "b_flags (bufs s ! b) AND (B_VALID OR B_DIRTY) \<noteq> B_VALID"
    using assms(7) by (auto simp: flags_both_iff)
  have start: "krun ?H ?s1 (kwhen True (idestart (Some b))) () ?H ?s2"
    using idestart_owns [of ?s1 b "LIde # H" ?th] io by (simp add: io_ok_def upd_ide_def ide_ready_def kwhen_def)
  have fl: "b_flags (bufs ?s2 ! b) = b_flags (bufs s ! b)" by (simp add: upd_ide_def)
  have wait: "kpanics ?H ?s2 (iderw_wait (Suc 1) b) ''sched locks''"
    unfolding iderw_wait.simps
    by (rule get_owns [where v = "b_flags (bufs s ! b)"], simp add: upd_ide_def, rule fl, subst if_not_P, rule nv,
        rule kpanics_kseq, rule sleep_until_held_panics) (use assms(1,2,3) in \<open>auto simp: Suc_le_eq\<close>)
  have q: "idequeue (ide ?s1) = [b]" using io by (simp add: io_ok_def upd_ide_def)
  have "kpanics ?H s (kseq (kmod (upd_ide (\<lambda>i. i\<lparr>idequeue := idequeue i @ [b]\<rparr>))) (
       kbind (kget (\<lambda>s. idequeue (ide s))) (\<lambda>q.
       kseq (kwhen (hd q = b) (idestart (Some b))) (
       kseq (iderw_wait (Suc (length q)) b)
       (release LIde))))) ''sched locks''"
    by (rule mod_owns [where s' = ?s1], simp add: upd_ide_def, simp, rule get_owns [where v = "[b]"],
        simp add: upd_ide_def, rule q, unfold list.sel refl [THEN eqTrueI], rule kexec_kseq, rule start,
        rule kpanics_kseq) (use wait in simp)
  then have "kpanics (owns H ?th) s (kseq (acquire LIde) (kseq (kmod (upd_ide (\<lambda>i. i\<lparr>idequeue := idequeue i @ [b]\<rparr>))) (
       kbind (kget (\<lambda>s. idequeue (ide s))) (\<lambda>q.
       kseq (kwhen (hd q = b) (idestart (Some b))) (
       kseq (iderw_wait (Suc (length q)) b)
       (release LIde)))))) ''sched locks''"
    by (rule kexec_kseq [OF acquire_owns [OF assms(2)]])
  then show ?thesis
    unfolding iderw_def
    by (rule_tac kexec_kbind [OF hold], simp only: not_True_eq_False if_False,
        rule_tac get_owns [where v = "bufs s ! b"], simp, simp, subst if_not_P, rule_tac nv,
        rule_tac get_owns [where v = "havedisk1 (ide s)"], simp, simp, subst if_not_P)
      (use io in \<open>auto simp: io_ok_def\<close>)
qed

lemma bread_miss_held_panics:
  assumes H: "H \<noteq> []" "LIde \<notin> set H" "LPtable \<notin> set H" "LBcache \<notin> set H" "\<And>l. LSleep l \<notin> set H"
    and "bcache_ok s xs"
    and "find (\<lambda>b. b_dev (bufs s ! b) = dev \<and> b_blockno (bufs s ! b) = n) xs = None"
    and "find (\<lambda>b. b_refcnt (bufs s ! b) = 0 \<and> \<not> dirty_flag (b_flags (bufs s ! b))) (rev xs) = Some b"
    and "b < NBUF" and "\<not> sl_locked (b_lock (bufs s ! b))"
    and io: "idequeue (ide s) = []" "ide_ready (ide s)" "can_wait s p" "unat n < FSSIZE" "havedisk1 (ide s)"
  shows "kpanics (owns H (Some p, i)) s (bread dev n) ''sched locks''"
proof -
  let ?th = "(Some p, i)" and ?f = "\<lambda>f. f\<lparr>b_dev := dev, b_blockno := n, b_flags := 0, b_refcnt := 1\<rparr>"
  let ?s1 = "upd_buf b ?f s"
  let ?s2 = "set_sleeplock (SLBuf b) (take_lock (p_pid (proc_at ?s1 p)) (sleeplock_of ?s1 (SLBuf b))) ?s1"
  have b: "b < length (bufs s)" using assms by (simp add: bcache_ok_def)
  have lck: "krun (owns (LBcache # H) ?th) s (kseq (kmod (upd_buf b ?f)) (kseq (release LBcache) (
      kseq (acquiresleep (SLBuf b)) (kret b)))) b (owns H ?th) ?s2"
    by (rule kexec_kseq, rule kmod_self_owns, simp add: upd_buf_def, rule kexec_kseq, rule release_head_owns,
        rule kexec_kseq, rule acquiresleep_owns, simp add: upd_buf_def b, simp add: upd_buf_def b assms,
        rule H(5), rule kexec_kret)
  have get: "krun (owns H ?th) s (bget dev n) b (owns H ?th) ?s2"
    unfolding bget_def
    by (rule kexec_kseq, rule acquire_owns, rule H(4), rule get_owns, simp,
        simp add: bget_cached_find [OF assms(6)] assms(7), unfold option.case, rule get_owns, simp,
        simp add: bget_unused_find [OF assms(6)] assms(8)) (use lck in simp)
  have buf: "bufs ?s2 ! b = (?f (bufs s ! b))\<lparr>b_lock := take_lock (p_pid (proc_at s p)) (b_lock (bufs s ! b))\<rparr>"
    using b by (simp add: upd_buf_def)
  have rw: "kpanics (owns H ?th) ?s2 (iderw b) ''sched locks''"
    by (rule iderw_held_panics [OF H(1-3) H(5)]) (use buf b io in \<open>simp_all add: take_lock_def valid_flag_def io_ok_def can_wait_def upd_buf_def\<close>)
  have "kpanics (owns H ?th) ?s2 (kbind (kget (\<lambda>s. b_flags (bufs s ! b))) (\<lambda>f. kseq (kwhen (\<not> valid_flag f) (iderw b)) (kret b)))
      ''sched locks''"
    by (rule get_owns [where v = 0], simp add: upd_buf_def, unfold buf, simp, rule kpanics_kseq)
      (use rw in \<open>simp add: valid_flag_def\<close>)
  then show ?thesis unfolding bread_def by (rule kexec_kbind [OF get])
qed

text \<open>A full kernel heap: the free list is empty and the ring offers a page that has not been accessed.\<close>

definition must_evict :: "kstate \<Rightarrow> nat \<Rightarrow> bool" where
  "must_evict s q \<longleftrightarrow> km_use_lock (kmem s) \<and> km_freelist (kmem s) = 0 \<and> km_lru_head (kmem s) = Some q \<and>
     pg_next (page_at s q) \<noteq> None \<and> pg_prev (page_at s q) \<noteq> None \<and>
     (let pte = walk (mem s) (pg_pgdir (page_at s q)) (pg_vaddr (page_at s q)) in
      pte = 0 \<or> load32 (mem s) pte AND PTE_A = 0)"

lemma pte_logical_and_owns:
  "krun (owns H th) s (pte_logical_and d va flag)
     (if walk (mem s) d va = 0 then 0 else load32 (mem s) (walk (mem s) d va) AND flag) (owns H th) s"
  unfolding pte_logical_and_def load_word_def
  by (rule get_owns [where v = "walk (mem s) d va"], simp, simp)
    (auto intro!: get_owns simp: kexec_kret simp del: kret_run)

lemma page_unlink_owns:
  assumes "pg_next (page_at s q) \<noteq> None" and "pg_prev (page_at s q) \<noteq> None"
  shows "\<exists>k. krun (owns H th) s (page_unlink q) () (owns H th) (s\<lparr>kmem := k\<rparr>)"
proof -
  obtain n r where nr: "pg_next (page_at s q) = Some n" "pg_prev (page_at s q) = Some r" using assms by auto
  let ?s1 = "upd_page n (\<lambda>g. g\<lparr>pg_prev := Some r\<rparr>) s"
  let ?s2 = "upd_page r (\<lambda>g. g\<lparr>pg_next := Some n\<rparr>) ?s1"
  let ?s3 = "upd_page q (\<lambda>g. g\<lparr>pg_next := None, pg_prev := None\<rparr>) ?s2"
  let ?s4 = "upd_kmem (\<lambda>k. k\<lparr>km_num_lru := km_num_lru k - 1\<rparr>) ?s3"
  have hw: "upd_page a f (u\<lparr>hw := h\<rparr>) = (upd_page a f u)\<lparr>hw := h\<rparr>" "upd_kmem g (u\<lparr>hw := h\<rparr>) = (upd_kmem g u)\<lparr>hw := h\<rparr>"
    for a f g u h by (simp_all add: upd_page_def upd_kmem_def)
  have "krun (owns H th) s (page_unlink q) () (owns H th) ?s4"
    unfolding page_unlink_def
    by (rule get_owns [where v = "Some n"], simp add: page_at_def, rule nr, rule get_owns [where v = "Some r"], simp add: page_at_def, rule nr,
        rule kexec_kbind, rule null_check_owns, rule mod_owns [where s' = ?s1], rule hw, rule refl,
        rule kexec_kbind, rule null_check_owns, rule mod_owns [where s' = ?s2], rule hw, rule refl,
        rule mod_owns [where s' = ?s3], rule hw, rule refl, rule kmod_owns, simp add: hw)
  moreover have "?s4 = s\<lparr>kmem := kmem ?s4\<rparr>" by (simp add: upd_page_def upd_kmem_def)
  ultimately have "krun (owns H th) s (page_unlink q) () (owns H th) (s\<lparr>kmem := kmem ?s4\<rparr>)" by (rule krun_cong [OF _ refl])
  then show ?thesis by (rule exI)
qed

text \<open>The first bitmap block of the swap device is not in the buffer cache, and the disk is ready to read it.\<close>

definition bitmap_uncached :: "kstate \<Rightarrow> nat \<Rightarrow> nat list \<Rightarrow> nat \<Rightarrow> bool" where
  "bitmap_uncached s p xs b \<longleftrightarrow> 0 < sb_size (sb s) \<and> bcache_ok s xs \<and> b < NBUF \<and>
     find (\<lambda>c. b_dev (bufs s ! c) = ucast T_FILE \<and> b_blockno (bufs s ! c) = BBLOCK 0 (sb s)) xs = None \<and>
     find (\<lambda>c. b_refcnt (bufs s ! c) = 0 \<and> \<not> dirty_flag (b_flags (bufs s ! c))) (rev xs) = Some b \<and>
     \<not> sl_locked (b_lock (bufs s ! b)) \<and> idequeue (ide s) = [] \<and> ide_ready (ide s) \<and> can_wait s p \<and>
     unat (BBLOCK 0 (sb s)) < FSSIZE \<and> havedisk1 (ide s)"

lemma balloc_held_panics:
  assumes "bitmap_uncached s p xs b"
  shows "kpanics (owns [LKmem] (Some p, i)) s balloc_for_swap ''sched locks''"
proof -
  have "0 < (unat (sb_size (sb s)) + BPB - 1) div BPB"
    using assms by (simp add: bitmap_uncached_def BPB_def BSIZE_def div_greater_zero_iff word_less_nat_alt)
  then obtain bs where bs: "map ((*) BPB) [0..<(unat (sb_size (sb s)) + BPB - 1) div BPB] = 0 # bs"
    by (simp add: upt_conv_Cons)
  have rd: "kpanics (owns [LKmem] (Some p, i)) s (bread (ucast T_FILE) (BBLOCK (of_nat 0) (sb s))) ''sched locks''"
    by (rule bread_miss_held_panics [where xs = xs and b = b]) (use assms in \<open>auto simp: bitmap_uncached_def\<close>)
  have "kpanics (owns [LKmem] (Some p, i)) s (balloc_loop (ucast T_FILE) (0 # bs)) ''sched locks''"
    unfolding balloc_loop.simps by (rule get_owns [where v = "sb s"], simp, simp, rule kpanics_kbind, rule rd)
  then show ?thesis
    unfolding balloc_for_swap_def balloc_def
    by (rule_tac get_owns [where v = "unat (sb_size (sb s))"], simp, simp, simp only: bs)
qed

lemma evict_held_panics:
  assumes "must_evict s q" and "bitmap_uncached s p xs b"
  shows "kpanics (owns [LKmem] (Some p, i)) s (evict q) ''sched locks''"
proof -
  obtain k where k: "krun (owns [LKmem] (Some p, i)) s (page_unlink q) () (owns [LKmem] (Some p, i)) (s\<lparr>kmem := k\<rparr>)"
    using page_unlink_owns [of s q "[LKmem]" "(Some p, i)"] assms(1) by (auto simp: must_evict_def)
  have "bitmap_uncached (s\<lparr>kmem := k\<rparr>) p xs b"
    using assms(2) by (simp add: bitmap_uncached_def can_wait_def bcache_ok_def bnext_def [abs_def] bprev_def [abs_def])
  then have "kpanics (owns [LKmem] (Some p, i)) (s\<lparr>kmem := k\<rparr>) balloc_for_swap ''sched locks''" by (rule balloc_held_panics)
  then show ?thesis
    unfolding evict_def
    by (rule_tac get_owns [where v = "page_at s q"], simp add: page_at_def, simp, rule_tac kexec_kseq [OF k], rule_tac kpanics_kbind)
qed

lemma reclaim_held_panics:
  assumes "must_evict s q" and "bitmap_uncached s p xs b"
  shows "kpanics (owns [LKmem] (Some p, i)) s reclaim ''sched locks''"
proof -
  let ?g = "page_at s q"
  have a: "(if walk (mem s) (pg_pgdir ?g) (pg_vaddr ?g) = 0 then 0
      else load32 (mem s) (walk (mem s) (pg_pgdir ?g) (pg_vaddr ?g)) AND PTE_A) = 0"
    using assms(1) by (auto simp: must_evict_def Let_def)
  have acc: "krun (owns [LKmem] (Some p, i)) s (pte_logical_and (pg_pgdir ?g) (pg_vaddr ?g) PTE_A) 0 (owns [LKmem] (Some p, i)) s"
    using pte_logical_and_owns [of "[LKmem]" "(Some p, i)" s "pg_pgdir ?g" "pg_vaddr ?g" PTE_A] unfolding a .
  have "kpanics (owns [LKmem] (Some p, i)) s (reclaim_loop (Suc NPAGES) q tl) ''sched locks''" for tl
    unfolding reclaim_loop.simps
    by (rule get_owns [where v = ?g], simp add: page_at_def, simp, rule kexec_kbind, rule acc, simp only: if_True refl,
        rule kpanics_kseq, rule evict_held_panics [OF assms])
  then show ?thesis
    unfolding reclaim_def using assms(1)
    by (rule_tac get_owns [where v = "Some q"])
      (auto simp: must_evict_def intro!: get_owns [where v = "pg_prev (page_at s q)"] simp: page_at_def)
qed

text \<open>
  C20. Out of memory: when the free list is empty and a page must be written to the swap area, \<open>kalloc\<close> calls the
  disk driver while it holds \<open>kmem.lock\<close>; the driver sleeps for the disk and \<open>sched\<close> panics because a lock
  is held, unless the bitmap block happens to be cached.
\<close>

theorem kalloc_evict_panics:
  assumes "crit (hw s) [] (Some p, i)" and "must_evict s q" and "bitmap_uncached s p xs b"
  shows "kalloc s = Inl (Panic ''sched locks'')"
proof -
  have ul: "km_use_lock (kmem s)" and fl: "km_freelist (kmem s) = 0" using assms(2) by (simp_all add: must_evict_def)
  have "kpanics (owns [LKmem] (Some p, i)) s (kalloc_loop (Suc (Suc NPAGES))) ''sched locks''"
    unfolding kalloc_loop.simps(2) [of "Suc NPAGES"]
    by (rule get_owns [where v = 0], simp, rule fl, simp only: not_True_eq_False if_False simp_thms, rule kpanics_kbind,
        rule reclaim_held_panics [OF assms(2,3)])
  then have "kpanics (owns [] (Some p, i)) s kalloc ''sched locks''"
    unfolding kalloc_def
    by (rule_tac get_owns [where v = True], simp, simp add: ul, rule_tac kexec_kseq, rule_tac kexec_kwhen_True, simp,
        rule_tac acquire_owns, simp, rule_tac kpanics_kbind)
  then show ?thesis using owns_self [OF assms(1)] by (rule kexecD)
qed

definition full_kernel :: kstate where
  "full_kernel = (boot_kernel (\<lambda>_. zero_block) (log zero_kernel))\<lparr>sb := (sb zero_kernel)\<lparr>sb_size := 1000, sb_bmapstart := 58\<rparr>,
     kmem := (kmem zero_kernel)\<lparr>km_use_lock := True, km_lru_head := Some 0,
       km_pages := (\<lambda>_. \<lparr>pg_next = Some 0, pg_prev = Some 0, pg_pgdir = 0x80401000, pg_vaddr = 0\<rparr>)\<rparr>\<rparr>"

lemma full_kernel_fields:
  "bufs full_kernel = boot_bufs" "ide full_kernel = zero_ide\<lparr>disks := (\<lambda>v n. zero_block)\<rparr>" "pt full_kernel = pt zero_kernel"
  "hw full_kernel = hw zero_kernel" "sb_size (sb full_kernel) = 1000" "BBLOCK 0 (sb full_kernel) = 58" "mem full_kernel = (\<lambda>_. 0)"
  by (simp_all add: full_kernel_def boot_kernel_def BBLOCK_def zero_kernel_def)

lemma full_kernel_evict: "must_evict full_kernel 0"
proof -
  have "load32 (\<lambda>_. 0) a = 0" for a by (simp add: load32_def word32_def)
  then have "walk (mem full_kernel) d va = 0" for d va by (simp add: walk_def full_kernel_fields)
  then show ?thesis unfolding must_evict_def page_at_def by (simp add: full_kernel_def boot_kernel_def zero_kernel_def)
qed

lemma full_kernel_uncached: "bitmap_uncached full_kernel 0 (rev [0..<NBUF]) 0"
proof -
  have c: "bcache_ok full_kernel (rev [0..<NBUF])" by (rule bcache_ok_boot) (simp_all add: full_kernel_fields boot_bufs_nth)
  have miss: "find (\<lambda>c. b_dev (boot_bufs ! c) = ucast T_FILE \<and> b_blockno (boot_bufs ! c) = 58) (rev [0..<NBUF]) = None"
    by (auto simp: find_None_iff boot_bufs_nth zero_buf_def T_FILE_def)
  have n: "[0..<NBUF] = 0 # [1..<NBUF]" by (simp add: NBUF_def MAXOPBLOCKS_def upt_conv_Cons)
  have free: "find (\<lambda>c. b_refcnt (boot_bufs ! c) = 0 \<and> \<not> dirty_flag (b_flags (boot_bufs ! c))) (rev (rev [0..<NBUF])) = Some 0"
    by (simp add: n boot_bufs_nth zero_buf_def dirty_flag_def)
  show ?thesis
    using c miss free
    by (simp add: bitmap_uncached_def full_kernel_fields can_wait_def boot_bufs_nth zero_buf_def zero_sleeplock_def zero_ide_def
        ide_ready_def IDE_BSY_def IDE_DRDY_def IDE_DF_def IDE_ERR_def FSSIZE_def NBUF_def MAXOPBLOCKS_def zero_kernel_def first_proc_def)
qed

theorem kalloc_evict_panics_witness: "kalloc full_kernel = Inl (Panic ''sched locks'')"
  using kalloc_evict_panics [OF _ full_kernel_evict full_kernel_uncached, of True] zero_kernel_crit full_kernel_fields(4) by simp
end
