(* ===== verification/Shell.thy ===== *)
theory Shell
  imports Prelude
begin

text \<open>
  The command parser of the shell \<open>sh.c\<close>: \<open>gettoken\<close>, \<open>peek\<close>, the recursive-descent functions and
  \<open>nulterminate\<close>. The line is a buffer \<open>b\<close> of characters without a zero byte; a pointer into it is an
  index, \<open>es\<close> is its length, and reading at \<open>es\<close> gives the terminating zero. Words are the pairs of
  pointers (\<open>q\<close>, \<open>eq\<close>) of the source. \<open>panic\<close> prints and exits; here it is an error value. The mutually
  recursive functions take fuel, and \<open>None\<close> means that it ran out; \<open>parsecmd\<close> is shown to have enough.
\<close>

section \<open>Commands\<close>

datatype 'w cmd =
    EXEC "'w list"
  | REDIR "'w cmd" 'w nat nat
  | PIPE "'w cmd" "'w cmd"
  | LIST "'w cmd" "'w cmd"
  | BACK "'w cmd"

type_synonym wordp = "nat \<times> nat"

definition MAXARGS :: nat where "MAXARGS = 10"
definition O_RDONLY :: nat where "O_RDONLY = 0"
definition O_WRONLY :: nat where "O_WRONLY = 1"
definition O_CREATE :: nat where "O_CREATE = 0x200"

definition whitespace :: string where
  "whitespace = [CHR '' '', CHR 0x09, CHR 0x0D, CHR 0x0A, CHR 0x0B]"

definition symbols :: string where
  "symbols = ''<|>&;()''"

section \<open>Tokens\<close>

definition char_at :: "string \<Rightarrow> nat \<Rightarrow> char" where
  "char_at b s = (if s < length b then b ! s else CHR 0x00)"

definition skip :: "(char \<Rightarrow> bool) \<Rightarrow> string \<Rightarrow> nat \<Rightarrow> nat" where
  "skip P b s = s + length (takeWhile P (drop s b))"

abbreviation is_space :: "char \<Rightarrow> bool" where
  "is_space c \<equiv> c \<in> set whitespace"

abbreviation is_word :: "char \<Rightarrow> bool" where
  "is_word c \<equiv> c \<notin> set whitespace \<and> c \<notin> set symbols"

text \<open>\<open>gettoken\<close> returns the token's kind, its two ends, and the new position.\<close>

definition gettoken :: "string \<Rightarrow> nat \<Rightarrow> char \<times> nat \<times> nat \<times> nat" where
  "gettoken b ps =
     (let s = skip is_space b ps; c = char_at b s;
          (ret, e) =
            (if c = CHR 0x00 then (c, s)
             else if c \<in> set ''|();&<'' then (c, Suc s)
             else if c = CHR ''>'' then
               (if char_at b (Suc s) = CHR ''>'' then (CHR ''+'', Suc (Suc s)) else (c, Suc s))
             else (CHR ''a'', skip is_word b s))
      in (ret, s, e, skip is_space b e))"

definition peek :: "string \<Rightarrow> nat \<Rightarrow> string \<Rightarrow> bool \<times> nat" where
  "peek b ps toks =
     (let s = skip is_space b ps; c = char_at b s in (c \<noteq> CHR 0x00 \<and> c \<in> set toks, s))"

section \<open>Parsing\<close>

text \<open>A parser returns nothing (no fuel), the message of \<open>panic\<close>, or a command and the new position.\<close>

type_synonym presult = "(string + wordp cmd \<times> nat) option"

definition pbind :: "presult \<Rightarrow> (wordp cmd \<Rightarrow> nat \<Rightarrow> presult) \<Rightarrow> presult" where
  "pbind r f = (case r of None \<Rightarrow> None | Some (Inl e) \<Rightarrow> Some (Inl e) | Some (Inr (c, s)) \<Rightarrow> f c s)"

definition ppanic :: "string \<Rightarrow> presult" where
  "ppanic msg = Some (Inl msg)"

definition pret :: "wordp cmd \<Rightarrow> nat \<Rightarrow> presult" where
  "pret c s = Some (Inr (c, s))"

fun parseredirs :: "nat \<Rightarrow> wordp cmd \<Rightarrow> string \<Rightarrow> nat \<Rightarrow> presult" where
  "parseredirs 0 cmd b ps = None"
| "parseredirs (Suc f) cmd b ps =
     (case peek b ps ''<>'' of (more, s) \<Rightarrow>
      if \<not> more then pret cmd s
      else case gettoken b s of (tok, _, _, s1) \<Rightarrow>
        case gettoken b s1 of (tok2, q, eq, s2) \<Rightarrow>
        if tok2 \<noteq> CHR ''a'' then ppanic ''missing file for redirection''
        else if tok = CHR ''<'' then parseredirs f (REDIR cmd (q, eq) O_RDONLY 0) b s2
        else if tok = CHR ''>'' then parseredirs f (REDIR cmd (q, eq) (O_WRONLY + O_CREATE) 1) b s2
        else if tok = CHR ''+'' then parseredirs f (REDIR cmd (q, eq) (O_WRONLY + O_CREATE) 1) b s2
        else parseredirs f cmd b s2)"

text \<open>
  In \<open>parseexec\<close> the pointer \<open>cmd\<close> keeps pointing at the \<open>execcmd\<close> while \<open>ret\<close> is wrapped in
  redirections; storing an argument through it updates the innermost command.
\<close>

fun add_arg :: "wordp \<Rightarrow> wordp cmd \<Rightarrow> wordp cmd" where
  "add_arg w (EXEC ws) = EXEC (ws @ [w])"
| "add_arg w (REDIR c f m d) = REDIR (add_arg w c) f m d"
| "add_arg w c = c"

fun parseargs :: "nat \<Rightarrow> nat \<Rightarrow> wordp cmd \<Rightarrow> string \<Rightarrow> nat \<Rightarrow> presult" where
  "parseargs 0 argc ret b ps = None"
| "parseargs (Suc f) argc ret b ps =
     (case peek b ps ''|)&;'' of (stop, s) \<Rightarrow>
      if stop then pret ret s
      else case gettoken b s of (tok, q, eq, s1) \<Rightarrow>
        if tok = CHR 0x00 then pret ret s1
        else if tok \<noteq> CHR ''a'' then ppanic ''syntax''
        else if Suc argc \<ge> MAXARGS then ppanic ''too many args''
        else pbind (parseredirs f (add_arg (q, eq) ret) b s1) (\<lambda>ret s2. parseargs f (Suc argc) ret b s2))"

fun parsebacks :: "nat \<Rightarrow> wordp cmd \<Rightarrow> string \<Rightarrow> nat \<Rightarrow> presult" where
  "parsebacks 0 cmd b ps = None"
| "parsebacks (Suc f) cmd b ps =
     (case peek b ps ''&'' of (more, s) \<Rightarrow>
      if \<not> more then pret cmd s
      else case gettoken b s of (_, _, _, s1) \<Rightarrow> parsebacks f (BACK cmd) b s1)"

fun parseline :: "nat \<Rightarrow> string \<Rightarrow> nat \<Rightarrow> presult"
and parsepipe :: "nat \<Rightarrow> string \<Rightarrow> nat \<Rightarrow> presult"
and parseexec :: "nat \<Rightarrow> string \<Rightarrow> nat \<Rightarrow> presult"
and parseblock :: "nat \<Rightarrow> string \<Rightarrow> nat \<Rightarrow> presult" where
  "parseline 0 b ps = None"
| "parseline (Suc f) b ps =
     pbind (parsepipe f b ps) (\<lambda>cmd s.
     pbind (parsebacks f cmd b s) (\<lambda>cmd s.
     case peek b s '';'' of (more, s) \<Rightarrow>
     if \<not> more then pret cmd s
     else case gettoken b s of (_, _, _, s) \<Rightarrow>
       pbind (parseline f b s) (\<lambda>right s. pret (LIST cmd right) s)))"
| "parsepipe 0 b ps = None"
| "parsepipe (Suc f) b ps =
     pbind (parseexec f b ps) (\<lambda>cmd s.
     case peek b s ''|'' of (more, s) \<Rightarrow>
     if \<not> more then pret cmd s
     else case gettoken b s of (_, _, _, s) \<Rightarrow>
       pbind (parsepipe f b s) (\<lambda>right s. pret (PIPE cmd right) s))"
| "parseexec 0 b ps = None"
| "parseexec (Suc f) b ps =
     (case peek b ps ''('' of (block, s) \<Rightarrow>
      if block then parseblock f b s
      else pbind (parseredirs f (EXEC []) b s) (\<lambda>ret s. parseargs f 0 ret b s))"
| "parseblock 0 b ps = None"
| "parseblock (Suc f) b ps =
     (case peek b ps ''('' of (ok, s) \<Rightarrow>
      if \<not> ok then ppanic ''parseblock''
      else case gettoken b s of (_, _, _, s) \<Rightarrow>
        pbind (parseline f b s) (\<lambda>cmd s.
        case peek b s '')'' of (ok, s) \<Rightarrow>
        if \<not> ok then ppanic ''syntax - missing )''
        else case gettoken b s of (_, _, _, s) \<Rightarrow> parseredirs f cmd b s))"

text \<open>\<open>nulterminate\<close> stores a zero at the end of every word; a store at \<open>es\<close> hits the zero already there.\<close>

fun nulterminate :: "wordp cmd \<Rightarrow> string \<Rightarrow> string" where
  "nulterminate (EXEC ws) b = fold (\<lambda>(q, eq) b. b[eq := CHR 0x00]) ws b"
| "nulterminate (REDIR c (q, eq) m d) b = (nulterminate c b)[eq := CHR 0x00]"
| "nulterminate (PIPE l r) b = nulterminate r (nulterminate l b)"
| "nulterminate (LIST l r) b = nulterminate r (nulterminate l b)"
| "nulterminate (BACK c) b = nulterminate c b"

definition parse_fuel :: "string \<Rightarrow> nat" where
  "parse_fuel b = 4 * length b + 4"

text \<open>The result of \<open>parsecmd\<close> is the command and the buffer that its words point into.\<close>

definition parsecmd :: "string \<Rightarrow> (string + wordp cmd \<times> string) option" where
  "parsecmd b =
     (case parseline (parse_fuel b) b 0 of
        None \<Rightarrow> None
      | Some (Inl e) \<Rightarrow> Some (Inl e)
      | Some (Inr (cmd, s)) \<Rightarrow>
          (case peek b s [] of (_, s) \<Rightarrow>
           if s \<noteq> length b then Some (Inl ''syntax'') else Some (Inr (cmd, nulterminate cmd b))))"

section \<open>Positions\<close>

lemma skip_props:
  assumes "s \<le> length b"
  shows "s \<le> skip P b s" "skip P b s \<le> length b" "skip P b s < length b \<Longrightarrow> \<not> P (b ! skip P b s)"
    "\<And>i. s \<le> i \<Longrightarrow> i < skip P b s \<Longrightarrow> P (b ! i)" "s < length b \<Longrightarrow> P (b ! s) \<Longrightarrow> s < skip P b s"
proof -
  let ?n = "length (takeWhile P (drop s b))"
  have n: "?n \<le> length b - s" using length_takeWhile_le [of P "drop s b"] by simp
  show "s \<le> skip P b s" by (simp add: skip_def)
  show "skip P b s \<le> length b" using n assms by (simp add: skip_def)
  show "\<not> P (b ! skip P b s)" if "skip P b s < length b"
    using nth_length_takeWhile [of P "drop s b"] that assms by (simp add: skip_def)
  show "P (b ! i)" if "s \<le> i" "i < skip P b s" for i
  proof -
    have i: "i - s < ?n" using that by (simp add: skip_def)
    then have "takeWhile P (drop s b) ! (i - s) = b ! i" using that assms n by (simp add: takeWhile_nth)
    then show ?thesis using nth_mem [OF i] by (auto dest: set_takeWhileD)
  qed
  show "s < skip P b s" if "s < length b" "P (b ! s)"
    using that by (cases "drop s b") (auto simp: skip_def Cons_nth_drop_Suc [symmetric])
qed

text \<open>A word: characters that are neither space nor symbol, followed by one that is or by the end.\<close>

definition tok_ok :: "string \<Rightarrow> wordp \<Rightarrow> bool" where
  "tok_ok b w = (case w of (q, e) \<Rightarrow> q < e \<and> e \<le> length b \<and> (\<forall>i. q \<le> i \<and> i < e \<longrightarrow> is_word (b ! i)) \<and>
     (e < length b \<longrightarrow> \<not> is_word (b ! e)))"

lemma peek_props:
  assumes "peek b ps toks = (more, s)" and "ps \<le> length b"
  shows "ps \<le> s" "s \<le> length b" "more \<Longrightarrow> s < length b \<and> b ! s \<noteq> CHR 0x00 \<and> b ! s \<in> set toks \<and> \<not> is_space (b ! s)"
    "s = skip is_space b ps"
  using assms skip_props [where P = is_space, OF assms(2)] by (auto simp: peek_def Let_def char_at_def split: if_splits)

lemma gettoken_props:
  assumes "gettoken b ps = (t, q, e, s)" and "ps \<le> length b"
  shows "ps \<le> q" "q \<le> e" "e \<le> s" "s \<le> length b" "t \<noteq> CHR 0x00 \<Longrightarrow> q < e" "t = CHR ''a'' \<Longrightarrow> tok_ok b (q, e)"
    "ps < length b \<Longrightarrow> \<not> is_space (b ! ps) \<Longrightarrow> b ! ps \<noteq> CHR 0x00 \<Longrightarrow> ps < s"
proof -
  let ?q = "skip is_space b ps" and ?c = "char_at b (skip is_space b ps)"
  note k = skip_props [where P = is_space, OF assms(2)]
  have q: "q = ?q" and s: "s = skip is_space b e"
    using assms(1) by (auto simp: gettoken_def Let_def split: if_splits prod.splits)
  show "ps \<le> q" using k(1) q by simp
  have w: "?c \<noteq> CHR 0x00 \<Longrightarrow> ?q < length b \<and> b ! ?q = ?c \<and> \<not> is_space ?c"
    using k(3) by (auto simp: char_at_def split: if_splits)
  have sw: "?c \<noteq> CHR 0x00 \<Longrightarrow> ?c \<notin> set ''|();&<'' \<Longrightarrow> ?c \<noteq> CHR ''>'' \<Longrightarrow> is_word ?c"
    using w by (auto simp: symbols_def)
  note kw = skip_props [where P = is_word, OF k(2)]
  have e: "q \<le> e \<and> e \<le> length b \<and> (t \<noteq> CHR 0x00 \<longrightarrow> q < e) \<and> (?c \<noteq> CHR 0x00 \<longrightarrow> q < e) \<and> (t = CHR ''a'' \<longrightarrow> tok_ok b (q, e))"
  proof -
    consider "?c = CHR 0x00" | "?c \<noteq> CHR 0x00" "?c \<in> set ''|();&<'' \<or> ?c = CHR ''>''" | "is_word ?c" "?c \<noteq> CHR 0x00"
      "?c \<notin> set ''|();&<''" "?c \<noteq> CHR ''>''"
      using sw by blast
    then show ?thesis
    proof cases
      case 1
      then have "t = CHR 0x00" "e = q" using assms(1) by (auto simp: gettoken_def Let_def)
      then show ?thesis using 1 q k(2) by simp
    next
      case 2
      have "Suc ?q < length b" if "char_at b (Suc ?q) = CHR ''>''" using that by (simp add: char_at_def split: if_splits)
      then show ?thesis using 2 w assms(1) by (auto simp: gettoken_def Let_def split: if_splits)
    next
      case 3
      then have te: "t = CHR ''a''" "e = skip is_word b ?q" using assms(1) by (auto simp: gettoken_def Let_def)
      have "?q < e" using kw(5) w 3 te by simp
      moreover have "tok_ok b (q, e)" unfolding tok_ok_def prod.case q te(2) using kw \<open>?q < e\<close> te(2) by blast
      ultimately show ?thesis using te q kw(2) by simp
    qed
  qed
  show "q \<le> e" "t \<noteq> CHR 0x00 \<Longrightarrow> q < e" "t = CHR ''a'' \<Longrightarrow> tok_ok b (q, e)" using e by simp_all
  note ks = skip_props [where P = is_space and s = e and b = b]
  show es: "e \<le> s" "s \<le> length b" using e ks s by simp_all
  show "ps < s" if "ps < length b" "\<not> is_space (b ! ps)" "b ! ps \<noteq> CHR 0x00"
  proof -
    have "?q = ps" using k(4) [of ps] k(1) that(2) by fastforce
    then show ?thesis using that e es q by (simp add: char_at_def)
  qed
qed

section \<open>The parser returns, with well-formed words\<close>

definition words_ok :: "string \<Rightarrow> wordp cmd \<Rightarrow> bool" where
  "words_ok b c \<longleftrightarrow> (\<forall>w \<in> set_cmd c. tok_ok b w)"

definition pgood :: "string \<Rightarrow> nat \<Rightarrow> presult \<Rightarrow> bool" where
  "pgood b ps r \<longleftrightarrow> (\<exists>e. r = Some (Inl e)) \<or> (\<exists>c s. r = Some (Inr (c, s)) \<and> ps \<le> s \<and> s \<le> length b \<and> words_ok b c)"

lemma words_ok_simps [simp]:
  "words_ok b (EXEC ws) \<longleftrightarrow> (\<forall>w \<in> set ws. tok_ok b w)" "words_ok b (REDIR c w m d) \<longleftrightarrow> words_ok b c \<and> tok_ok b w"
  "words_ok b (PIPE c c') \<longleftrightarrow> words_ok b c \<and> words_ok b c'"
  "words_ok b (LIST c c') \<longleftrightarrow> words_ok b c \<and> words_ok b c'"
  "words_ok b (BACK c) \<longleftrightarrow> words_ok b c"
  by (auto simp: words_ok_def)

lemma words_ok_add_arg: "words_ok b c \<Longrightarrow> tok_ok b w \<Longrightarrow> words_ok b (add_arg w c)"
  by (induction w c rule: add_arg.induct) auto

lemma pgood_ppanic [simp]: "pgood b ps (ppanic e)"
  by (simp add: pgood_def ppanic_def)

lemma pgood_pret [simp]: "pgood b ps (pret c s) \<longleftrightarrow> ps \<le> s \<and> s \<le> length b \<and> words_ok b c"
  by (auto simp: pgood_def pret_def)

lemma pgood_mono: "pgood b s r \<Longrightarrow> ps \<le> s \<Longrightarrow> pgood b ps r"
  by (fastforce simp: pgood_def)

lemma pgood_bind:
  assumes "pgood b ps r" and "\<And>c s. ps \<le> s \<Longrightarrow> s \<le> length b \<Longrightarrow> words_ok b c \<Longrightarrow> pgood b ps (f c s)"
  shows "pgood b ps (pbind r f)"
proof (cases "\<exists>e. r = Some (Inl e)")
  case True
  then show ?thesis by (auto simp: pgood_def pbind_def)
next
  case False
  with assms(1) obtain c s where "r = Some (Inr (c, s))" "ps \<le> s" "s \<le> length b" "words_ok b c"
    by (auto simp: pgood_def)
  with assms(2) show ?thesis by (simp add: pbind_def)
qed

text \<open>After a successful \<open>peek\<close> the token consumes at least one character.\<close>

lemma peek_gettoken:
  assumes "peek b ps toks = (True, s)" and "ps \<le> length b" and "gettoken b s = (t, q, e, s1)"
  shows "ps \<le> s" "s < s1" "s1 \<le> length b"
  using peek_props [OF assms(1,2)] gettoken_props(4,7) [OF assms(3)] by auto

lemma parseredirs_good:
  "ps \<le> length b \<Longrightarrow> length b - ps < f \<Longrightarrow> words_ok b cmd \<Longrightarrow> pgood b ps (parseredirs f cmd b ps)"
proof (induction f arbitrary: cmd ps)
  case (Suc f)
  obtain m s where p: "peek b ps ''<>'' = (m, s)" by fastforce
  obtain t q e s1 where g1: "gettoken b s = (t, q, e, s1)" by (metis prod.exhaust)
  obtain t2 q2 e2 s2 where g2: "gettoken b s1 = (t2, q2, e2, s2)" by (metis prod.exhaust)
  show ?case
  proof (cases m)
    case True
    have "peek b ps ''<>'' = (True, s)" using p True by simp
    note pg = peek_gettoken [OF this Suc.prems(1) g1]
    note gp = gettoken_props [OF g2 pg(3)]
    have "pgood b ps (parseredirs f c b s2)" if "words_ok b c" for c
      by (rule pgood_mono [of b s2]) (use Suc.IH [of s2 c] Suc.prems(2) gp(1-4) pg that in auto)
    then show ?thesis using True gp(6) Suc.prems(3) by (auto simp: p g1 g2)
  next
    case False
    then show ?thesis using peek_props [OF p Suc.prems(1)] Suc.prems(3) by (simp add: p)
  qed
qed simp

lemma parseargs_good:
  "ps \<le> length b \<Longrightarrow> length b - ps < f \<Longrightarrow> words_ok b ret \<Longrightarrow> pgood b ps (parseargs f argc ret b ps)"
proof (induction f arbitrary: argc ret ps)
  case (Suc f)
  obtain m s where p: "peek b ps ''|)&;'' = (m, s)" by fastforce
  note pp = peek_props [OF p Suc.prems(1)]
  obtain t q e s1 where g: "gettoken b s = (t, q, e, s1)" by (metis prod.exhaust)
  note gp = gettoken_props [OF g pp(2)]
  have "pgood b ps (pbind (parseredirs f (add_arg (q, e) ret) b s1) (\<lambda>ret s2. parseargs f (Suc argc) ret b s2))"
    if t: "t = CHR ''a''"
  proof (rule pgood_mono [OF pgood_bind])
    have lt: "ps < s1" using gp t pp(1) by auto
    then show "ps \<le> s1" by simp
    show "pgood b s1 (parseredirs f (add_arg (q, e) ret) b s1)"
      by (rule parseredirs_good) (use words_ok_add_arg [OF Suc.prems(3) gp(6) [OF t]] lt gp(4) Suc.prems(2) in auto)
    show "pgood b s1 (parseargs f (Suc argc) c b s2)" if "s1 \<le> s2" "s2 \<le> length b" "words_ok b c" for c s2
      by (rule pgood_mono [OF Suc.IH]) (use that lt Suc.prems(2) in auto)
  qed
  then show ?case using pp(1-3) gp(1-6) Suc.prems(3) by (auto simp: p g)
qed simp

lemma parsebacks_good:
  "ps \<le> length b \<Longrightarrow> length b - ps < f \<Longrightarrow> words_ok b cmd \<Longrightarrow> pgood b ps (parsebacks f cmd b ps)"
proof (induction f arbitrary: cmd ps)
  case (Suc f)
  obtain m s where p: "peek b ps ''&'' = (m, s)" by fastforce
  note pp = peek_props [OF p Suc.prems(1)]
  obtain t q e s1 where g: "gettoken b s = (t, q, e, s1)" by (metis prod.exhaust)
  show ?case
  proof (cases m)
    case True
    then have "peek b ps ''&'' = (True, s)" using p by simp
    note pg = peek_gettoken [OF this Suc.prems(1) g]
    have "pgood b s1 (parsebacks f (BACK cmd) b s1)" by (rule Suc.IH) (use pg Suc.prems in auto)
    then show ?thesis using True pg by (auto simp: p g intro: pgood_mono)
  next
    case False
    then show ?thesis using pp(1-3) Suc.prems(3) by (simp add: p)
  qed
qed simp

text \<open>One loop round of the grammar: after a \<open>peek\<close> that succeeds, the rest of the line is shorter.\<close>

lemma pgood_peek_token:
  assumes "ps \<le> length b" and "words_ok b cmd"
    and "\<And>s. ps < s \<Longrightarrow> s \<le> length b \<Longrightarrow> pgood b s (k s)"
  shows "pgood b ps (case peek b ps toks of (more, s) \<Rightarrow>
      if \<not> more then pret cmd s else case gettoken b s of (_, _, _, s) \<Rightarrow> k s)"
proof -
  obtain m s where p: "peek b ps toks = (m, s)" by fastforce
  note pp = peek_props [OF p assms(1)]
  obtain t q e s1 where g: "gettoken b s = (t, q, e, s1)" by (metis prod.exhaust)
  show ?thesis
  proof (cases m)
    case True
    then have "peek b ps toks = (True, s)" using p by simp
    note pg = peek_gettoken [OF this assms(1) g]
    have "pgood b s1 (k s1)" by (rule assms(3)) (use pg in auto)
    then show ?thesis using True pg by (auto simp: p g intro: pgood_mono)
  next
    case False
    then show ?thesis using pp(1-3) assms(2) by (simp add: p)
  qed
qed

lemma pgood_peek_expect:
  assumes "ps \<le> length b" and "\<And>s. ps < s \<Longrightarrow> s \<le> length b \<Longrightarrow> pgood b s (k s)"
  shows "pgood b ps (case peek b ps toks of (ok, s) \<Rightarrow>
      if \<not> ok then ppanic e else case gettoken b s of (_, _, _, s) \<Rightarrow> k s)"
proof -
  obtain m s where p: "peek b ps toks = (m, s)" by fastforce
  obtain t q e s1 where g: "gettoken b s = (t, q, e, s1)" by (metis prod.exhaust)
  show ?thesis
  proof (cases m)
    case True
    then have "peek b ps toks = (True, s)" using p by simp
    note pg = peek_gettoken [OF this assms(1) g]
    have "pgood b s1 (k s1)" by (rule assms(2)) (use pg in auto)
    then show ?thesis using True pg by (auto simp: p g intro: pgood_mono)
  qed (simp add: p)
qed

lemma parse_good:
  "ps \<le> length b \<Longrightarrow> 4 * (length b - ps) + 4 \<le> f \<Longrightarrow> pgood b ps (parseline f b ps)"
  "ps \<le> length b \<Longrightarrow> 4 * (length b - ps) + 3 \<le> f \<Longrightarrow> pgood b ps (parsepipe f b ps)"
  "ps \<le> length b \<Longrightarrow> 4 * (length b - ps) + 2 \<le> f \<Longrightarrow> pgood b ps (parseexec f b ps)"
  "ps \<le> length b \<Longrightarrow> 4 * (length b - ps) + 1 \<le> f \<Longrightarrow> pgood b ps (parseblock f b ps)"
proof (induction f arbitrary: ps)
  case 0
  { case 1 then show ?case by simp next case 2 then show ?case by simp next case 3 then show ?case by simp next case 4 then show ?case by simp }
next
  case (Suc f)
  { case 1
    show ?case unfolding parseline.simps
    proof (rule pgood_bind [OF Suc.IH(2)])
      fix c s assume s: "ps \<le> s" "s \<le> length b" "words_ok b c"
      show "pgood b ps (pbind (parsebacks f c b s) (\<lambda>cmd s.
         case peek b s '';'' of (more, s) \<Rightarrow>
         if \<not> more then pret cmd s
         else case gettoken b s of (_, _, _, s) \<Rightarrow> pbind (parseline f b s) (\<lambda>right s. pret (LIST cmd right) s)))"
      proof (rule pgood_mono [OF pgood_bind])
        show "pgood b s (parsebacks f c b s)" by (rule parsebacks_good) (use s 1 in auto)
        fix c2 s2 assume s2: "s \<le> s2" "s2 \<le> length b" "words_ok b c2"
        show "pgood b s (case peek b s2 '';'' of (more, s) \<Rightarrow>
           if \<not> more then pret c2 s
           else case gettoken b s of (_, _, _, s) \<Rightarrow> pbind (parseline f b s) (\<lambda>right s. pret (LIST c2 right) s))"
          by (rule pgood_mono [OF pgood_peek_token], (use s2 in auto)[2], rule pgood_bind [OF Suc.IH(1)]) (use s s2 1 in auto)
      qed (use s in auto)
    qed (use 1 in auto)
  next
    case 2
    show ?case unfolding parsepipe.simps
    proof (rule pgood_bind [OF Suc.IH(3)])
      fix c s assume s: "ps \<le> s" "s \<le> length b" "words_ok b c"
      show "pgood b ps (case peek b s ''|'' of (more, s) \<Rightarrow>
         if \<not> more then pret c s
         else case gettoken b s of (_, _, _, s) \<Rightarrow> pbind (parsepipe f b s) (\<lambda>right s. pret (PIPE c right) s))"
        by (rule pgood_mono [OF pgood_peek_token], (use s in auto)[2], rule pgood_bind [OF Suc.IH(2)]) (use s 2 in auto)
    qed (use 2 in auto)
  next
    case 3
    obtain m s where p: "peek b ps ''('' = (m, s)" by fastforce
    note pp = peek_props [OF p 3(1)]
    have "pgood b ps (parseblock f b s)" by (rule pgood_mono [OF Suc.IH(4)]) (use pp(1,2) 3 in auto)
    moreover have "pgood b ps (pbind (parseredirs f (EXEC []) b s) (\<lambda>ret s. parseargs f 0 ret b s))"
      by (rule pgood_mono [OF pgood_bind, of b s], rule parseredirs_good)
        (use pp(1,2) 3 in \<open>auto intro: pgood_mono [OF parseargs_good]\<close>)
    ultimately show ?case by (simp add: p)
  next
    case 4
    show ?case unfolding parseblock.simps
    proof (rule pgood_peek_expect [OF 4(1)])
      fix s assume s: "ps < s" "s \<le> length b"
      show "pgood b s (pbind (parseline f b s) (\<lambda>cmd s.
          case peek b s '')'' of (ok, s) \<Rightarrow>
          if \<not> ok then ppanic ''syntax - missing )''
          else case gettoken b s of (_, _, _, s) \<Rightarrow> parseredirs f cmd b s))"
      proof (rule pgood_bind [OF Suc.IH(1)])
        fix c s2 assume s2: "s \<le> s2" "s2 \<le> length b" "words_ok b c"
        show "pgood b s (case peek b s2 '')'' of (ok, s) \<Rightarrow>
            if \<not> ok then ppanic ''syntax - missing )''
            else case gettoken b s of (_, _, _, s) \<Rightarrow> parseredirs f c b s)"
          by (rule pgood_mono [OF pgood_peek_expect], rule s2(2), rule parseredirs_good) (use s s2 4 in auto)
      qed (use s 4 in auto)
    qed }
qed

section \<open>Zero-terminated words\<close>

text \<open>The C string at an index of the buffer.\<close>

definition str_at :: "string \<Rightarrow> nat \<Rightarrow> string" where
  "str_at b q = takeWhile (\<lambda>c. c \<noteq> CHR 0x00) (drop q b)"

text \<open>The text of a word.\<close>

definition wtext :: "string \<Rightarrow> wordp \<Rightarrow> string" where
  "wtext b w = take (snd w - fst w) (drop (fst w) b)"

lemma nulterminate_nth:
  "length (nulterminate c b) = length b"
  "i < length b \<Longrightarrow> nulterminate c b ! i = (if \<exists>q. (q, i) \<in> set_cmd c then CHR 0x00 else b ! i)"
proof (induction c b rule: nulterminate.induct)
  case (1 ws b)
  { case 1 show ?case by (induction ws arbitrary: b) auto }
  { case 2 then show ?case by (induction ws arbitrary: b) (auto simp: nth_list_update_if) }
qed (auto simp: nth_list_update_if)

lemma nulterminate_word:
  assumes "words_ok b c" and "w \<in> set_cmd c" and "CHR 0x00 \<notin> set b"
  shows "str_at (nulterminate c b) (fst w) = wtext b w"
proof -
  obtain q e where w: "w = (q, e)" by (cases w)
  have t: "q < e" "e \<le> length b" "\<And>i. q \<le> i \<Longrightarrow> i < e \<Longrightarrow> is_word (b ! i)"
    using assms(1,2) w by (auto simp: words_ok_def tok_ok_def)
  let ?b = "nulterminate c b"
  have len: "length ?b = length b" by (rule nulterminate_nth(1))
  have in_word: "?b ! i = b ! i" if "q \<le> i" "i < e" for i
  proof -
    have "\<not> (\<exists>q. (q, i) \<in> set_cmd c)"
    proof
      assume "\<exists>q. (q, i) \<in> set_cmd c"
      then obtain q' where "(q', i) \<in> set_cmd c" by auto
      then have "i < length b \<longrightarrow> \<not> is_word (b ! i)" using assms(1) by (auto simp: words_ok_def tok_ok_def)
      then show False using t that by auto
    qed
    then show ?thesis using nulterminate_nth(2) [of i b c] that t by simp
  qed
  have "take (e - q) (drop q ?b) = take (e - q) (drop q b)"
    by (rule nth_equalityI) (use len t in_word in auto)
  moreover have "\<forall>x \<in> set (take (e - q) (drop q b)). x \<noteq> CHR 0x00"
    using assms(3) by (auto dest!: in_set_takeD in_set_dropD)
  moreover have "drop e ?b = [] \<or> hd (drop e ?b) = CHR 0x00"
  proof (cases "e < length b")
    case True
    then have "?b ! e = CHR 0x00" using nulterminate_nth(2) [OF True, of c] assms(2) w by force
    then show ?thesis using True len by (simp add: hd_drop_conv_nth)
  qed (use len in simp)
  ultimately have "str_at ?b q = take (e - q) (drop q b)"
    unfolding str_at_def using t
    by (subst append_take_drop_id [of "e - q" "drop q ?b", symmetric])
      (auto simp: takeWhile_append2 takeWhile_eq_Nil_iff)
  then show ?thesis by (simp add: w wtext_def)
qed

text \<open>
  C10. The parser is total, and its words survive \<open>nulterminate\<close>: on every line without zero bytes \<open>parsecmd\<close>
  either panics or returns a command, and then the C string that each word of the command points to is
  exactly the text between the two ends that \<open>gettoken\<close> found.
\<close>

theorem parsecmd_words:
  assumes "CHR 0x00 \<notin> set b"
  shows "(\<exists>e. parsecmd b = Some (Inl e)) \<or>
    (\<exists>c. parsecmd b = Some (Inr (c, nulterminate c b)) \<and>
      (\<forall>w \<in> set_cmd c. tok_ok b w \<and> str_at (nulterminate c b) (fst w) = wtext b w))"
proof -
  have "pgood b 0 (parseline (parse_fuel b) b 0)" by (rule parse_good) (simp_all add: parse_fuel_def)
  then consider e where "parseline (parse_fuel b) b 0 = Some (Inl e)"
    | c s where "parseline (parse_fuel b) b 0 = Some (Inr (c, s))" "words_ok b c" by (auto simp: pgood_def)
  then show ?thesis
  proof cases
    case 1
    then show ?thesis by (simp add: parsecmd_def)
  next
    case 2
    have "\<forall>w \<in> set_cmd c. tok_ok b w \<and> str_at (nulterminate c b) (fst w) = wtext b w"
      using nulterminate_word [OF 2(2) _ assms] 2(2) by (auto simp: words_ok_def)
    then show ?thesis using 2(1) by (auto simp: parsecmd_def split: prod.splits)
  qed
qed

theorem parsecmd_words_witness:
  "(\<exists>e. parsecmd ''ls > f'' = Some (Inl e)) \<or>
    (\<exists>c. parsecmd ''ls > f'' = Some (Inr (c, nulterminate c ''ls > f'')) \<and>
      (\<forall>w \<in> set_cmd c. tok_ok ''ls > f'' w \<and> str_at (nulterminate c ''ls > f'') (fst w) = wtext ''ls > f'' w))"
  by (rule parsecmd_words) simp

end
