(* ===== verification/Runcmd.thy ===== *)
theory Runcmd
  imports Shell Syscall "HOL-Library.Sublist"
begin

text \<open>
  The part of \<open>sh.c\<close> that runs commands. A process of the shell is the tree of what it does with processes: it forks,
  waits, executes a program, changes its directory, prints on descriptor 2 and exits. Its descriptors are a table
  from descriptors to open files, as in the kernel; calls that can fail for lack of a resource take their outcome
  from an environment.
\<close>

section \<open>Descriptors\<close>

datatype handle = HGiven nat | HFile string nat | HPipeRead "nat list" | HPipeWrite "nat list"

type_synonym 'h fdtable = "'h option list"

text \<open>
  The view that a program has of \<open>open\<close>, \<open>close\<close>, \<open>dup\<close> and \<open>pipe\<close>. As in \<open>fdalloc\<close> of the kernel (lemma \<open>fdalloc_table\<close>) a
  new descriptor is the lowest free one.
\<close>

definition fd_alloc :: "'h \<Rightarrow> 'h fdtable \<Rightarrow> (nat \<times> 'h fdtable) option" where
  "fd_alloc h t = map_option (\<lambda>i. (i, t[i := Some h])) (find_index (\<lambda>x. x = None) t)"




section \<open>runcmd\<close>






section \<open>main\<close>










section \<open>The wiring of a command\<close>


fun redirs_std :: "'w cmd \<Rightarrow> bool" where
  "redirs_std (EXEC argv) = True"
| "redirs_std (REDIR c fn mode fd) = (fd < 2 \<and> redirs_std c)"
| "redirs_std (LIST l r) = (redirs_std l \<and> redirs_std r)"
| "redirs_std (PIPE l r) = (redirs_std l \<and> redirs_std r)"
| "redirs_std (BACK c) = redirs_std c"



text \<open>A table in which exactly the three standard descriptors are open.\<close>

definition std_table :: "'h \<Rightarrow> 'h \<Rightarrow> 'h \<Rightarrow> 'h fdtable" where
  "std_table i out err = [Some i, Some out, Some err] @ replicate (NOFILE - 3) None"







section \<open>What a command starts\<close>


definition started :: "handle \<Rightarrow> (string list \<times> handle \<times> handle) list \<Rightarrow> (string list \<times> handle fdtable) list" where
  "started err = map (\<lambda>(argv, i, out). (argv, std_table i out err))"


lemma started_simps [simp]:
  "started err [] = []" "started err (x # w) = (case x of (argv, i, out) \<Rightarrow> (argv, std_table i out err)) # started err w"
  "started err (w @ w') = started err w @ started err w'"
  by (simp_all add: started_def)





section \<open>What the parser gives\<close>

definition pstd :: "presult \<Rightarrow> bool" where
  "pstd r \<longleftrightarrow> (\<forall>c s. r = Some (Inr (c, s)) \<longrightarrow> redirs_std c)"

lemma pstd_simps [simp]: "pstd None" "pstd (ppanic m)" "pstd (pret c s) = redirs_std c"
  by (simp_all add: pstd_def ppanic_def pret_def)







lemma redirs_std_map [simp]: "redirs_std (map_cmd g c) = redirs_std c"
  by (induction c) auto



section \<open>Lines of input\<close>







text \<open>The table above is the one that the kernel keeps for the process.\<close>

lemma fdalloc_table:
  "krun (owns H (Some p, b)) s (fdalloc f) (map_option fst (fd_alloc f (p_ofile (proc_at s p)))) (owns H (Some p, b))
    (case fd_alloc f (p_ofile (proc_at s p)) of None \<Rightarrow> s | Some (_, t) \<Rightarrow> upd_proc p (\<lambda>q. q\<lparr>p_ofile := t\<rparr>) s)"
proof -
  note c = cur_owns [of H p b s]
  show ?thesis
  proof (cases "find_index (\<lambda>x. x = None) (p_ofile (proc_at s p))")
    case None
    then show ?thesis
      unfolding fdalloc_def fd_alloc_def
      by (rule_tac kexec_kbind, rule_tac c, rule_tac get_owns [OF _ refl]) (simp_all add: kexec_kret)
  next
    case (Some fd)
    have "krun (owns H (Some p, b)) s (kseq (kmod (upd_proc p (\<lambda>q. q\<lparr>p_ofile := (p_ofile q)[fd := Some f]\<rparr>))) (kret (Some fd)))
        (Some fd) (owns H (Some p, b)) (upd_proc p (\<lambda>q. q\<lparr>p_ofile := (p_ofile q)[fd := Some f]\<rparr>) s)"
      by (rule kexec_kseq, rule kmod_self_owns, simp add: upd_proc_def, rule kexec_kret)
    then show ?thesis
      unfolding fdalloc_def fd_alloc_def using Some
      by (rule_tac kexec_kbind, rule_tac c, rule_tac get_owns [OF _ refl]) (simp_all add: upd_proc_def)
  qed
qed

section \<open>Properties\<close>



end
