(* ===== verification/Grep.thy ===== *)
theory Grep
  imports Prelude
begin

text \<open>
  \<open>grep.c\<close>: the matcher and the loop over the lines of a file. A string is the list of its characters
  before the zero byte. What \<open>read\<close> returns is a list of chunks, since a file or a pipe may deliver its
  bytes in any portions.
\<close>

section \<open>The matcher\<close>

abbreviation c_star :: u8 where "c_star \<equiv> 42"
abbreviation c_dollar :: u8 where "c_dollar \<equiv> 36"
abbreviation c_dot :: u8 where "c_dot \<equiv> 46"
abbreviation c_caret :: u8 where "c_caret \<equiv> 94"
abbreviation c_nl :: u8 where "c_nl \<equiv> 10"

function matchhere :: "u8 list \<Rightarrow> u8 list \<Rightarrow> bool"
  and matchstar :: "u8 \<Rightarrow> u8 list \<Rightarrow> u8 list \<Rightarrow> bool" where
  "matchhere re tx =
     (case re of
        [] \<Rightarrow> True
      | c # re' \<Rightarrow>
          if re' \<noteq> [] \<and> hd re' = c_star then matchstar c (tl re') tx
          else if c = c_dollar \<and> re' = [] then tx = []
          else if tx \<noteq> [] \<and> (c = c_dot \<or> c = hd tx) then matchhere re' (tl tx)
          else False)"
| "matchstar c re tx =
     (if matchhere re tx then True
      else if tx \<noteq> [] \<and> (hd tx = c \<or> c = c_dot) then matchstar c re (tl tx)
      else False)"
  by pat_completeness auto

termination
  by (relation "measures [\<lambda>x. case x of Inl (re, tx) \<Rightarrow> 2 * length re | Inr (c, re, tx) \<Rightarrow> 2 * length re + 1,
      \<lambda>x. case x of Inl (re, tx) \<Rightarrow> length tx | Inr (c, re, tx) \<Rightarrow> length tx]")
    auto

declare matchhere.simps [simp del] matchstar.simps [simp del]

fun match_any :: "u8 list \<Rightarrow> u8 list \<Rightarrow> bool" where
  "match_any re tx = (matchhere re tx \<or> (case tx of [] \<Rightarrow> False | _ # ts \<Rightarrow> match_any re ts))"

declare match_any.simps [simp del]

definition match :: "u8 list \<Rightarrow> u8 list \<Rightarrow> bool" where
  "match re tx = (if re \<noteq> [] \<and> hd re = c_caret then matchhere (tl re) tx else match_any re tx)"

section \<open>The patterns as regular expressions\<close>

text \<open>
  A pattern is a sequence of characters and starred characters, where the dot stands for any character;
  a final dollar sign asks for the end of the text.
\<close>

datatype ritem = RChar u8 | RStar u8

fun parse_re :: "u8 list \<Rightarrow> ritem list \<times> bool" where
  "parse_re [] = ([], False)"
| "parse_re [c] = (if c = c_dollar then ([], True) else ([RChar c], False))"
| "parse_re (c # d # re) =
     (if d = c_star then (case parse_re re of (its, e) \<Rightarrow> (RStar c # its, e))
      else (case parse_re (d # re) of (its, e) \<Rightarrow> (RChar c # its, e)))"

definition char_ok :: "u8 \<Rightarrow> u8 \<Rightarrow> bool" where
  "char_ok c t \<longleftrightarrow> c = c_dot \<or> c = t"

fun lang :: "ritem list \<Rightarrow> u8 list set" where
  "lang [] = {[]}"
| "lang (RChar c # its) = {t # w | t w. char_ok c t \<and> w \<in> lang its}"
| "lang (RStar c # its) = {u @ w | u w. (\<forall>t \<in> set u. char_ok c t) \<and> w \<in> lang its}"

definition prefix_in :: "u8 list \<Rightarrow> u8 list \<Rightarrow> bool" where
  "prefix_in re tx \<longleftrightarrow>
     (case parse_re re of (its, e) \<Rightarrow> \<exists>w \<in> lang its. \<exists>post. tx = w @ post \<and> (e \<longrightarrow> post = []))"

lemma ex_lang_char: "(\<exists>w \<in> lang (RChar c # its). P w) \<longleftrightarrow> (\<exists>t. char_ok c t \<and> (\<exists>w \<in> lang its. P (t # w)))"
  by auto

lemma ex_lang_star: "(\<exists>w \<in> lang (RStar c # its). P w) \<longleftrightarrow> (\<exists>u. (\<forall>t \<in> set u. char_ok c t) \<and> (\<exists>w \<in> lang its. P (u @ w)))"
  by auto

lemma prefix_in_Nil: "prefix_in [] tx"
  by (simp add: prefix_in_def)

lemma prefix_in_dollar: "prefix_in [c_dollar] tx \<longleftrightarrow> tx = []"
  by (simp add: prefix_in_def)

lemma prefix_in_char:
  assumes "re = [] \<or> hd re \<noteq> c_star" and "\<not> (c = c_dollar \<and> re = [])"
  shows "prefix_in (c # re) tx \<longleftrightarrow> tx \<noteq> [] \<and> char_ok c (hd tx) \<and> prefix_in re (tl tx)"
proof -
  obtain its e where p: "parse_re re = (its, e)" by (cases "parse_re re")
  then have "parse_re (c # re) = (RChar c # its, e)" using assms by (cases re) auto
  then show ?thesis
    unfolding prefix_in_def p prod.case by (simp only: prod.case ex_lang_char) (cases tx; simp; blast)
qed

lemma prefix_in_star:
  "prefix_in (c # c_star # re) tx \<longleftrightarrow>
     prefix_in re tx \<or> (tx \<noteq> [] \<and> char_ok c (hd tx) \<and> prefix_in (c # c_star # re) (tl tx))"
proof -
  obtain its e where p: "parse_re re = (its, e)" by (cases "parse_re re")
  have star: "prefix_in (c # c_star # re) t \<longleftrightarrow>
      (\<exists>u. (\<forall>x \<in> set u. char_ok c x) \<and> (\<exists>w \<in> lang its. \<exists>post. t = u @ w @ post \<and> (e \<longrightarrow> post = [])))" for t
    unfolding prefix_in_def parse_re.simps p by (simp only: if_True prod.case refl ex_lang_star append_assoc)
  have re: "prefix_in re t \<longleftrightarrow> (\<exists>w \<in> lang its. \<exists>post. t = w @ post \<and> (e \<longrightarrow> post = []))" for t
    by (simp add: prefix_in_def p)
  show ?thesis
  proof
    assume "prefix_in (c # c_star # re) tx"
    then obtain u w post where d: "tx = u @ w @ post" "\<forall>x \<in> set u. char_ok c x" "w \<in> lang its" "e \<longrightarrow> post = []"
      unfolding star by blast
    show "prefix_in re tx \<or> (tx \<noteq> [] \<and> char_ok c (hd tx) \<and> prefix_in (c # c_star # re) (tl tx))"
    proof (cases u)
      case Nil
      with d show ?thesis unfolding re by auto
    next
      case (Cons x u')
      with d have "prefix_in (c # c_star # re) (tl tx)" unfolding star by auto
      with d Cons show ?thesis by simp
    qed
  next
    assume "prefix_in re tx \<or> (tx \<noteq> [] \<and> char_ok c (hd tx) \<and> prefix_in (c # c_star # re) (tl tx))"
    then show "prefix_in (c # c_star # re) tx"
    proof
      assume "prefix_in re tx"
      then obtain w post where "tx = w @ post" "w \<in> lang its" "e \<longrightarrow> post = []" unfolding re by blast
      then show ?thesis unfolding star by (intro exI [of _ "[]"] conjI bexI [of _ w] exI [of _ post]) simp_all
    next
      assume a: "tx \<noteq> [] \<and> char_ok c (hd tx) \<and> prefix_in (c # c_star # re) (tl tx)"
      then obtain u w post where d: "tl tx = u @ w @ post" "\<forall>x \<in> set u. char_ok c x" "w \<in> lang its" "e \<longrightarrow> post = []"
        unfolding star by blast
      have "tx = (hd tx # u) @ w @ post" using a d(1) by (metis append_Cons list.collapse)
      moreover have "\<forall>x \<in> set (hd tx # u). char_ok c x" using a d(2) by simp
      ultimately show ?thesis unfolding star using d(3,4) by blast
    qed
  qed
qed

lemma matchhere_prefix_in:
  "matchhere re tx \<longleftrightarrow> prefix_in re tx"
  "matchstar c re' tx' \<longleftrightarrow> prefix_in (c # c_star # re') tx'"
proof (induction re tx and c re' tx' rule: matchhere_matchstar.induct)
  case (1 re tx)
  show ?case
  proof (cases re)
    case Nil
    then show ?thesis by (subst matchhere.simps) (simp add: prefix_in_Nil)
  next
    case (Cons c re')
    consider (star) "re' \<noteq> [] \<and> hd re' = c_star" | (dollar) "c = c_dollar \<and> re' = []"
      | (char) "re' = [] \<or> hd re' \<noteq> c_star" "\<not> (c = c_dollar \<and> re' = [])" by blast
    then show ?thesis
    proof cases
      case star
      then have re': "re' = c_star # tl re'" by (cases re') auto
      have "matchhere re tx \<longleftrightarrow> matchstar c (tl re') tx" using Cons star by (subst matchhere.simps) simp
      also have "\<dots> \<longleftrightarrow> prefix_in (c # c_star # tl re') tx" by (rule 1(1) [OF Cons star])
      finally show ?thesis unfolding Cons re' [symmetric] .
    next
      case dollar
      then show ?thesis using Cons by (subst matchhere.simps) (simp add: prefix_in_dollar)
    next
      case char
      then show ?thesis
        using Cons 1(2) [of c re'] prefix_in_char [OF char] by (subst matchhere.simps) (auto simp: char_ok_def)
    qed
  qed
next
  case (2 c re tx)
  show ?case
    unfolding matchstar.simps [of c re tx] prefix_in_star [of c re tx] using 2 by (auto simp: char_ok_def)
qed

lemma match_any_iff: "match_any re tx \<longleftrightarrow> (\<exists>pre post. tx = pre @ post \<and> prefix_in re post)"
proof (induction tx)
  case Nil
  show ?case by (subst match_any.simps) (simp add: matchhere_prefix_in)
next
  case (Cons t ts)
  show ?case
    unfolding match_any.simps [of re "t # ts"] list.case Cons matchhere_prefix_in
    by (auto simp: Cons_eq_append_conv)
qed

text \<open>
  C21. The backtracking matcher of \<open>grep\<close> decides its patterns: \<open>match\<close> succeeds exactly if a part of the text is
  in the language of the pattern; a leading caret asks that this part be at the beginning of the text, a
  final dollar sign that it be at the end. In particular the matcher terminates on every input.
\<close>

theorem match_iff_lang:
  "match re tx =
     (if re \<noteq> [] \<and> hd re = c_caret then prefix_in (tl re) tx
      else (\<exists>pre post. tx = pre @ post \<and> prefix_in re post))"
  by (simp add: match_def matchhere_prefix_in match_any_iff)

section \<open>The loop over the lines\<close>

text \<open>
  \<open>buf\<close> holds the bytes read and not yet consumed. \<open>grep_lines\<close> is the inner loop: it consumes the lines
  that are complete (\<open>strchr\<close> finds a newline before the zero byte) and returns the output and the rest.
\<close>

definition GREP_BUF :: nat where "GREP_BUF = 1024"

lemma drop_newline_shorter:
  assumes "find_index (\<lambda>c. c = c_nl \<or> c = 0) (buf :: u8 list) = Some k"
  shows "length (drop (Suc k) buf) < length buf"
  using find_index_SomeD(1) [OF assms] by simp

function grep_lines :: "u8 list \<Rightarrow> u8 list \<Rightarrow> u8 list \<times> u8 list" where
  "grep_lines re buf =
     (case find_index (\<lambda>c. c = c_nl \<or> c = 0) buf of
        None \<Rightarrow> ([], buf)
      | Some k \<Rightarrow>
          if buf ! k = 0 then ([], buf)
          else
            let line = take k buf; (out, rest) = grep_lines re (drop (Suc k) buf) in
            ((if match re line then line @ [c_nl] else []) @ out, rest))"
  by pat_completeness auto

termination
  by (relation "measure (\<lambda>(re, buf). length buf)") (simp, use drop_newline_shorter in fastforce)

declare grep_lines.simps [simp del]

text \<open>
  \<open>grep\<close> on the chunks that the calls of \<open>read\<close> deliver; a chunk longer than the room in the buffer is
  delivered in pieces. When a round finds no complete line, \<open>p == buf\<close> and the buffer is emptied.
\<close>

function grep :: "u8 list \<Rightarrow> u8 list \<Rightarrow> u8 list list \<Rightarrow> u8 list" where
  "grep re buf [] = []"
| "grep re buf (ch # chs) =
     (let room = GREP_BUF - length buf - 1; got = take room ch in
      if got = [] then []
      else
        let (out, rest) = grep_lines re (buf @ got);
            buf' = (if rest = buf @ got then [] else rest);
            left = drop room ch
        in out @ grep re buf' (if left = [] then chs else left # chs))"
  by pat_completeness auto

termination
proof (relation "measure (\<lambda>(re, buf, chs). length (concat chs) + length chs)")
  fix re buf ch chs and room :: nat and got out rest buf' left :: "u8 list"
  assume "got \<noteq> []" "got = take room ch" "left = drop room ch"
  then have "length left < length ch" by (cases ch; cases room) auto
  then show "((re, buf', if left = [] then chs else left # chs), re, buf, ch # chs)
      \<in> measure (\<lambda>(re, buf, chs). length (concat chs) + length chs)" by auto
qed simp

section \<open>What grep prints\<close>

definition clean_line :: "u8 list \<Rightarrow> bool" where
  "clean_line l \<longleftrightarrow> c_nl \<notin> set l \<and> 0 \<notin> set l"

definition join_lines :: "u8 list list \<Rightarrow> u8 list" where
  "join_lines ls = concat (map (\<lambda>l. l @ [c_nl]) ls)"

lemma find_newline:
  assumes "clean_line l"
  shows "find_index (\<lambda>c. c = c_nl \<or> c = 0) (l @ c_nl # rest) = Some (length l)"
  unfolding find_index_Some_iff using assms by (auto simp: clean_line_def nth_append in_set_conv_nth)

lemma grep_lines_join:
  "\<forall>l \<in> set ls. clean_line l \<Longrightarrow> grep_lines re (join_lines ls) = (join_lines (filter (match re) ls), [])"
proof (induction ls)
  case Nil
  show ?case by (subst grep_lines.simps) (simp add: join_lines_def)
next
  case (Cons l ls)
  have j: "join_lines (l # ls) = l @ c_nl # join_lines ls" by (simp add: join_lines_def)
  have f: "find_index (\<lambda>c. c = c_nl \<or> c = 0) (l @ c_nl # join_lines ls) = Some (length l)"
    using Cons.prems by (intro find_newline) simp
  show ?case
    unfolding j grep_lines.simps [of re "l @ c_nl # join_lines ls"] f using Cons
    by (simp add: join_lines_def)
qed

text \<open>
  C22. When every read delivers whole lines that fit into the buffer, \<open>grep\<close> prints exactly the lines that match, in order.
\<close>

theorem grep_whole_lines:
  assumes "\<forall>ls \<in> set lss. ls \<noteq> [] \<and> length (join_lines ls) < GREP_BUF \<and> (\<forall>l \<in> set ls. clean_line l)"
  shows "grep re [] (map join_lines lss) = join_lines (filter (match re) (concat lss))"
  using assms
proof (induction lss)
  case (Cons ls lss)
  have ne: "join_lines ls \<noteq> []" using Cons.prems by (cases ls) (auto simp: join_lines_def)
  have fit: "length (join_lines ls) \<le> GREP_BUF - 1" using Cons.prems by auto
  have "grep_lines re (join_lines ls) = (join_lines (filter (match re) ls), [])"
    using Cons.prems by (intro grep_lines_join) auto
  with Cons ne fit show ?case by (auto simp: Let_def join_lines_def)
qed (simp add: join_lines_def)

theorem grep_whole_lines_witness:
  "grep [98] [] [[97, 98, 10, 99, 10], [98, 10]] = [97, 98, 10, 98, 10]"
  using grep_whole_lines [of "[[[97, 98], [99]], [[98]]]" "[98]"]
  by (simp add: join_lines_def clean_line_def GREP_BUF_def match_def match_any.simps matchhere.simps matchstar.simps)

end
