(* ===== verification/Wc.thy ===== *)
theory Wc
  imports Prelude
begin






section \<open>What is counted\<close>










end
