(* ===== verification/Spec2Isabelle.thy ===== *)
theory Spec2Isabelle
  imports Apic Logspace Umalloc Swap Runcmd Grep Wc
begin

text \<open>
  Verification of the xv6 kernel of this repository: a small Unix for x86 in C, here with swapping of user
  pages added (the functions on resident pages in \<open>kalloc.c\<close>, the last part of \<open>vm.c\<close>, the calls on swap in
  \<open>sysfile.c\<close>), and some of its user programs.

  \<^bold>\<open>The program and the model.\<close> Kernel code is written in a state monad (theory \<open>Prelude\<close>). A run of a C
  function returns a value and a new state, or stops: \<open>Panic\<close> is a call of \<open>panic\<close>, \<open>Spin\<close> a loop that never ends,
  \<open>Fault\<close> an access the C code must not make (a null pointer), and \<open>Switch s\<close> a switch to the scheduler in
  state \<open>s\<close>. A function that sleeps therefore ends its run in \<open>Switch\<close>; what its thread does when it runs
  again is a definition with the suffix \<open>_resume\<close>, which starts in an arbitrary state. The state \<open>kstate\<close> (theory
  \<open>Kstate\<close>) has the CPUs, the process table, the locks, the buffers, the disk and its controller, the log,
  the inode and file tables, the pipes, the console devices, the page allocator and the bytes of physical memory.

  \<^item> \<open>Prelude\<close>: machine integers, the monad, the judgement \<open>krun\<close> that relates a run to abstract states,
    byte encodings.
  \<^item> \<open>Kstate\<close>: \<open>param.h\<close>, \<open>proc.h\<close>, \<open>buf.h\<close>, \<open>file.h\<close>, \<open>spinlock.h\<close>, \<open>sleeplock.h\<close> and the locks.
  \<^item> \<open>Spinlock\<close>: \<open>spinlock.c\<close>; the lock is also a protocol between CPUs, a step relation.
  \<^item> \<open>Sched\<close>, \<open>Sleeplock\<close>: the scheduler, sleep and wakeup of \<open>proc.c\<close>; \<open>sleeplock.c\<close>.
  \<^item> \<open>Ide\<close>, \<open>Ring\<close>, \<open>Bio\<close>, \<open>Blocks\<close>: \<open>ide.c\<close> and \<open>memide.c\<close>, doubly linked rings, \<open>bio.c\<close>, and the abstract
    disk with held and pinned blocks that \<open>bio.c\<close> implements.
  \<^item> \<open>Log\<close>, \<open>Recovery\<close>, \<open>Logspace\<close>: \<open>log.c\<close>, its crash safety, and the space in the log as a step relation.
  \<^item> \<open>Cstring\<close>, \<open>Format\<close>, \<open>Ringbuf\<close>: \<open>string.c\<close>, the string functions of \<open>ulib.c\<close>, the formatting of
    \<open>console.c\<close> and \<open>printf.c\<close>, circular buffers.
  \<^item> \<open>Inode\<close>, \<open>Fs\<close>: the two halves of \<open>fs.c\<close>. \<open>Console\<close>: \<open>console.c\<close>, \<open>uart.c\<close>, \<open>kbd.c\<close>.
  \<^item> \<open>Paging\<close>, \<open>Kalloc\<close>, \<open>Vm\<close>, \<open>Swap\<close>: \<open>mmu.h\<close> with the translation that the hardware makes, \<open>kalloc.c\<close>, \<open>vm.c\<close>,
    and memory pressure.
  \<^item> \<open>File\<close>: \<open>pipe.c\<close> and \<open>file.c\<close>. \<open>Proc\<close>: processes in \<open>proc.c\<close>.
  \<^item> \<open>Syscall\<close>, \<open>Sysfile\<close>, \<open>Trap\<close>: \<open>syscall.c\<close>, \<open>sysproc.c\<close>, \<open>sysfile.c\<close>, \<open>exec.c\<close>, \<open>trap.c\<close>.
  \<^item> \<open>Mp\<close>, \<open>Apic\<close>: the firmware tables (\<open>mp.c\<close>) and the interrupt controllers (\<open>lapic.c\<close>, \<open>ioapic.c\<close>, \<open>picirq.c\<close>), on
    a state of their own, \<open>platform\<close>: the physical memory below 1 MB and what is read from and written to
    ports and device registers, in order.
  \<^item> \<open>Shell\<close>, \<open>Runcmd\<close>: \<open>sh.c\<close>, the parser of command lines and what the shell does with them, as a tree of forks, waits
    and programs executed, each with its table of descriptors.
  \<^item> \<open>Grep\<close>, \<open>Wc\<close>, \<open>Umalloc\<close>: \<open>grep.c\<close>, \<open>wc.c\<close>, and \<open>umalloc.c\<close> on the memory of one process up to its break.
  \<^item> \<open>Mkfs\<close>: \<open>mkfs.c\<close>, the program of the host that builds the disk image, on a state of its own.

  \<^bold>\<open>What is shown.\<close>
  Spin locks exclude each other on every interleaving of the CPUs, and nested critical sections give the
  interrupt flag back as it was. A block that is written through the driver is read back; a commit of the log
  is atomic under a power failure after any of its disk writes; the reservations of \<open>begin_op\<close> keep \<open>log_write\<close> from
  running out of space on a log of more than \<open>LOGSIZE\<close> blocks, and do not on the log that \<open>mkfs\<close> makes. The memory routines, the conversions of
  numbers, the parser of the shell, the matcher of \<open>grep\<close> and the counts of \<open>wc\<close> meet their specifications. The
  shell starts the programs of a command line with the files and pipes that the line gives them. A
  pipe delivers the bytes written to it in order. The page allocator is a stack of the free pages. The checks
  of system call arguments keep the kernel inside the memory of the process. \<open>mappages\<close> makes the hardware
  translate the addresses it maps. \<open>mpinit\<close> finds the CPUs that the table lists, \<open>ioapicenable\<close> routes the interrupt
  to the CPU, \<open>cmostime\<close> returns a time that the clock held. \<open>malloc\<close> and \<open>free\<close> take blocks out of the set of free
  bytes and give them back. \<open>mkfs\<close> stores its input files in an image that is well formed in the terms of the kernel.
  Several theorems state what the swapping code does where it differs from what it means to do.

  \<^bold>\<open>Interfaces.\<close> Rings (\<open>Ring\<close>) and circular buffers (\<open>Ringbuf\<close>) are locales whose lemmas are proved once, from
  the laws of their accessors, and interpreted on the buffers of \<open>bio.c\<close>, on the console input and on pipes.

  \<^bold>\<open>Bounds and fuel.\<close> Loops are structural recursions or have a bound that the text before them justifies:
  \<open>iderw_wait\<close> takes one interrupt for each request up to its own in the queue, \<open>freerange_loop\<close> one step for
  each page below the end, the search loops of \<open>fs.c\<close> one step for each block or inode. The search of
  \<open>lru_delete\<close> visits each element of \<open>pages[]\<close> once and is in a cycle after that, which is \<open>Spin\<close>. The parser of
  the shell takes fuel, and \<open>parsecmd_words\<close> shows that its result is a value. \<open>mpinit_loop\<close> has as much fuel as
  the table has bytes; \<open>lapic_wait\<close>, \<open>cmos_loop\<close> and \<open>malloc\<close> take theirs as an argument, and their theorems say how
  much is enough; \<open>free_find\<close> has one step for each byte below the break; \<open>iappend_loop\<close> has one
  round for each byte to append, \<open>sh_loop\<close> one for each character of the input. Integers that wrap
  around in C are words of their width.

  \<^bold>\<open>Not modelled.\<close> Assembly (\<open>entry.S\<close>, \<open>swtch.S\<close>, \<open>trapasm.S\<close>, \<open>bootasm.S\<close>, \<open>usys.S\<close>), the boot loader and \<open>main.c\<close>, which
  only call the initialisers; \<open>seginit\<close> and \<open>idtinit\<close>, which load registers of the CPU; the \<open>main\<close> functions of the other user programs and the
  programs that are only a few system calls (\<open>cat\<close>, \<open>echo\<close>, \<open>ls\<close>, \<open>ln\<close>, \<open>rm\<close>, \<open>mkdir\<close>, \<open>kill\<close>, \<open>init\<close>, \<open>zombie\<close>); the
  tests (\<open>usertests.c\<close>, \<open>stressfs.c\<close>, \<open>forktest.c\<close>, \<open>swaptest.c\<close>, \<open>test4.c\<close>).
\<close>

end
